(* ===== verification/Sponge_Prelude.thy ===== *)
theory Sponge_Prelude
  imports Main "HOL-Library.Word"
begin

text \<open>
  The vocabulary the component theories share: the C++ types the sources use, 64-bit unsigned
  arithmetic, exceptions as values, and the few facts about lists they all need.

  A \<open>std::string\<close> of octets is a list of bytes. A \<open>size_t\<close>, \<open>uint64_t\<close> or
  \<open>unsigned\<close> counter is a natural number whose wrap-around is written out by
  \<open>add64\<close>, \<open>sub64\<close> and \<open>mul64\<close>; wire fields and sequence numbers keep
  their width as words. A call that may throw returns \<open>cpp_error + 'a\<close>.
\<close>

section \<open>Types\<close>

type_synonym byte = "8 word"
type_synonym bytes = "byte list"
type_synonym uint16 = "16 word"
type_synonym uint32 = "32 word"
type_synonym uint64 = "64 word"
type_synonym size_t = nat

text \<open>
  What a C++ call can do other than return: throw \<open>std::out_of_range\<close>,
  \<open>std::invalid_argument\<close>, \<open>std::runtime_error\<close>,
  \<open>std::bad_optional_access\<close>, \<open>std::length_error\<close> or the
  \<open>tagged_error\<close> of \<open>util.hh\<close> (a category, what was attempted and an error code), or leave the language (undefined behaviour).
\<close>

datatype error_category = System_category | Gai_error_category

datatype cpp_error =
    OutOfRange
  | InvalidArgument
  | RuntimeError
  | BadOptionalAccess
  | LengthError
  | TaggedError error_category string int
  | UndefinedBehaviour

type_synonym 'a result = "cpp_error + 'a"

section \<open>64-bit unsigned arithmetic\<close>

definition add64 :: "size_t \<Rightarrow> size_t \<Rightarrow> size_t" where
  "add64 a b = (a + b) mod 2 ^ 64"

definition sub64 :: "size_t \<Rightarrow> size_t \<Rightarrow> size_t" where
  "sub64 a b = (a + (2 ^ 64 - b)) mod 2 ^ 64"

definition mul64 :: "size_t \<Rightarrow> size_t \<Rightarrow> size_t" where
  "mul64 a b = (a * b) mod 2 ^ 64"

named_theorems size64 \<open>rewriting of 64-bit operations that do not wrap around\<close>

lemma add64_less [simp]: "add64 a b < 18446744073709551616"
  by (simp add: add64_def)

lemma sub64_less [simp]: "sub64 a b < 18446744073709551616"
  by (simp add: sub64_def)

lemma mul64_less [simp]: "mul64 a b < 18446744073709551616"
  by (simp add: mul64_def)

lemma add64_exact [size64]: "a + b < 2 ^ 64 \<Longrightarrow> add64 a b = a + b"
  by (simp add: add64_def)

lemma sub64_exact [size64]: "b \<le> a \<Longrightarrow> a < 2 ^ 64 \<Longrightarrow> sub64 a b = a - b"
proof -
  assume "b \<le> a" "a < 2 ^ 64"
  then have "a + (2 ^ 64 - b) = (a - b) + 2 ^ 64" by simp
  then have "sub64 a b = ((a - b) + 2 ^ 64) mod 2 ^ 64" by (simp only: sub64_def)
  also have "\<dots> = a - b" using \<open>a < 2 ^ 64\<close> by (simp only: mod_add_self2) simp
  finally show ?thesis .
qed

lemma sub64_wraps: "a < b \<Longrightarrow> b < 2 ^ 64 \<Longrightarrow> sub64 a b = 2 ^ 64 - (b - a)"
  by (simp add: sub64_def)

lemma mul64_exact [size64]: "a * b < 2 ^ 64 \<Longrightarrow> mul64 a b = a * b"
  by (simp add: mul64_def)

lemma sub64_self [simp]: "a < 2 ^ 64 \<Longrightarrow> sub64 a a = 0"
  by (simp add: sub64_exact)

lemma sub64_zero_right: "a < 2 ^ 64 \<Longrightarrow> sub64 a 0 = a"
  by (simp add: sub64_def)

lemma add64_zero_right: "a < 2 ^ 64 \<Longrightarrow> add64 a 0 = a"
  by (simp add: add64_def)

lemma add64_assoc: "add64 (add64 a b) c = add64 a (b + c)"
  by (simp only: add64_def mod_add_left_eq add.assoc)

lemma add64_mod_right: "add64 a (b mod 2 ^ 64) = add64 a b"
  by (simp only: add64_def mod_add_right_eq)

section \<open>Exceptions as values\<close>

definition bindR :: "'a result \<Rightarrow> ('a \<Rightarrow> 'b result) \<Rightarrow> 'b result" where
  "bindR r f = (case r of Inl e \<Rightarrow> Inl e | Inr v \<Rightarrow> f v)"

lemma bindR_simps [simp]:
  "bindR (Inl e) f = Inl e"
  "bindR (Inr v) f = f v"
  by (simp_all add: bindR_def)

lemma bindR_eq_Inr: "bindR r f = Inr w \<longleftrightarrow> (\<exists>v. r = Inr v \<and> f v = Inr w)"
  by (cases r) auto

lemma bindR_eq_Inl: "bindR r f = Inl e \<longleftrightarrow> r = Inl e \<or> (\<exists>v. r = Inr v \<and> f v = Inl e)"
  by (cases r) auto

lemma bindR_assoc: "bindR (bindR r f) g = bindR r (\<lambda>v. bindR (f v) g)"
  by (cases r) auto

lemma bindR_cong [fundef_cong]:
  "r = r' \<Longrightarrow> (\<And>v. r' = Inr v \<Longrightarrow> f v = f' v) \<Longrightarrow> bindR r f = bindR r' f'"
  by (cases r') auto

text \<open>
  One computation follows another up to undefined behaviour: it has run into it, or has the same
  result.
\<close>

definition ub_or :: "'a result \<Rightarrow> 'a result \<Rightarrow> bool" where
  "ub_or m n \<longleftrightarrow> m = Inl UndefinedBehaviour \<or> m = n"

named_theorems ub_intros

lemma ub_or_refl [ub_intros]: "ub_or m m"
  by (simp add: ub_or_def)

lemma ub_or_undefined [ub_intros]: "ub_or (Inl UndefinedBehaviour) n"
  by (simp add: ub_or_def)

lemma ub_or_bind [ub_intros]: "ub_or m n \<Longrightarrow> (\<And>a. n = Inr a \<Longrightarrow> ub_or (f a) (g a)) \<Longrightarrow> ub_or (bindR m f) (bindR n g)"
  by (cases n) (auto simp: ub_or_def)

lemma ub_or_if [ub_intros]: "(c \<Longrightarrow> ub_or m n) \<Longrightarrow> (\<not> c \<Longrightarrow> ub_or m' n') \<Longrightarrow> ub_or (if c then m else m') (if c then n else n')"
  by simp

lemma ub_orE: "ub_or m n \<Longrightarrow> (m = Inl UndefinedBehaviour \<Longrightarrow> P) \<Longrightarrow> (m = n \<Longrightarrow> P) \<Longrightarrow> P"
  by (auto simp: ub_or_def)

lemma ub_or_Inr: "ub_or m n \<Longrightarrow> m = Inr a \<Longrightarrow> n = Inr a"
  by (auto simp: ub_or_def)

section \<open>Strings\<close>

text \<open>\<open>s.substr(pos)\<close> throws when \<open>pos\<close> lies beyond the end of the string.\<close>

definition substr_from :: "bytes \<Rightarrow> size_t \<Rightarrow> bytes result" where
  "substr_from s pos = (if pos > length s then Inl OutOfRange else Inr (drop pos s))"

lemma substr_from_ok [simp]: "pos \<le> length s \<Longrightarrow> substr_from s pos = Inr (drop pos s)"
  by (simp add: substr_from_def)

text \<open>\<open>s.resize(n)\<close> cuts the string or fills it up with zero bytes.\<close>

definition string_resize :: "nat \<Rightarrow> bytes \<Rightarrow> bytes" where
  "string_resize n s = take n s @ replicate (n - length s) 0"

lemma string_resize_grow:
  "length s \<le> n \<Longrightarrow> string_resize n s = s @ replicate (n - length s) 0"
  by (simp add: string_resize_def)

lemma string_resize_cut: "n \<le> length s \<Longrightarrow> string_resize n s = take n s"
  by (simp add: string_resize_def)

lemma length_string_resize [simp]: "length (string_resize n s) = n"
  by (simp add: string_resize_def)

lemma take_append_drop_take:
  "take n xs @ take m (drop n xs) = take (n + m) xs"
  by (simp add: take_add)

section \<open>Words\<close>

lemma take_bit_self: "unat w < 2 ^ n \<Longrightarrow> take_bit n w = (w :: 'a::len word)"
proof -
  assume "unat w < 2 ^ n"
  then have "unat (take_bit n w) = unat w" by (simp add: unsigned_take_bit_eq take_bit_nat_eq_self)
  then show ?thesis by (simp only: word_unat_eq_iff)
qed

end
