(* ===== verification/Text_Format.thy ===== *)
theory Text_Format
  imports Sponge_Prelude
begin

text \<open>
  Numbers as text: what the sources use of \<open>std::to_string\<close>, \<open>std::stoi\<close>, the
  stream manipulators \<open>hex\<close>, \<open>setw\<close> and \<open>setfill\<close> and of \<open>inet_ntoa\<close>, and
  the function \<open>hexdump\<close> of \<open>util/util.cc\<close>.
\<close>

section \<open>Digits\<close>

definition digit_char :: "nat \<Rightarrow> char" where
  "digit_char d = ''0123456789abcdef'' ! d"

function digits :: "nat \<Rightarrow> nat \<Rightarrow> string" where
  "digits b n = (if b < 2 \<or> n < b then [digit_char n] else digits b (n div b) @ [digit_char (n mod b)])"
  by pat_completeness auto
termination by (relation "measure snd") auto

declare digits.simps [simp del]

abbreviation dec :: "nat \<Rightarrow> string" where "dec \<equiv> digits 10"
abbreviation hex :: "nat \<Rightarrow> string" where "hex \<equiv> digits 16"

text \<open>\<open>setw(w)\<close> with \<open>setfill(c)\<close>.\<close>

definition setw :: "nat \<Rightarrow> char \<Rightarrow> string \<Rightarrow> string" where
  "setw w c s = replicate (w - length s) c @ s"

definition boolalpha :: "bool \<Rightarrow> string" where
  "boolalpha b = (if b then ''true'' else ''false'')"

definition newline :: char where
  "newline = char_of (10 :: nat)"

definition join :: "string \<Rightarrow> string list \<Rightarrow> string" where
  "join sep ss = (case ss of [] \<Rightarrow> [] | s # ss' \<Rightarrow> s @ concat (map (\<lambda>t. sep @ t) ss'))"

section \<open>Reading numbers\<close>

definition digit_value :: "char \<Rightarrow> nat" where
  "digit_value c =
     (let n = of_char c
      in if 48 \<le> n \<and> n \<le> 57 then n - 48 else if 97 \<le> n \<and> n \<le> 102 then n - 87 else 16)"

definition digits_value :: "nat \<Rightarrow> string \<Rightarrow> nat" where
  "digits_value b s = foldl (\<lambda>a c. a * b + digit_value c) 0 s"

definition isspace :: "char \<Rightarrow> bool" where
  "isspace c \<longleftrightarrow> of_char c = (32 :: nat) \<or> (9 \<le> (of_char c :: nat) \<and> (of_char c :: nat) \<le> 13)"

definition isdigit :: "char \<Rightarrow> bool" where
  "isdigit c \<longleftrightarrow> 48 \<le> (of_char c :: nat) \<and> (of_char c :: nat) \<le> 57"

text \<open>\<open>std::stoi\<close>: white space, a sign, decimal digits; the rest of the string is ignored.\<close>

definition stoi :: "string \<Rightarrow> int result" where
  "stoi s =
     (let s = dropWhile isspace s;
          neg = (s \<noteq> [] \<and> hd s = CHR ''-'');
          s = (if s \<noteq> [] \<and> (hd s = CHR ''-'' \<or> hd s = CHR ''+'') then tl s else s);
          ds = takeWhile isdigit s;
          v = (if neg then - int (digits_value 10 ds) else int (digits_value 10 ds))
      in if ds = [] then Inl InvalidArgument
         else if v < - (2 ^ 31) \<or> v > 2 ^ 31 - 1 then Inl OutOfRange
         else Inr v)"

section \<open>Digits and values\<close>

lemma less_16_cases: "d < (16 :: nat) \<Longrightarrow> d \<in> {0, 1, 2, 3, 4, 5, 6, 7, 8, 9, 10, 11, 12, 13, 14, 15}"
proof -
  assume "d < 16"
  then have "d \<in> set [0..<16]" by simp
  then show ?thesis by (simp add: upt_conv_Cons eval_nat_numeral)
qed

lemma digit_value_char [simp]: "d < 16 \<Longrightarrow> digit_value (digit_char d) = d"
  using less_16_cases [of d] by (auto simp: digit_value_def digit_char_def)

lemma digits_nonempty [simp]: "digits b n \<noteq> []"
  by (subst digits.simps) simp

lemma digits_value_digits: "2 \<le> b \<Longrightarrow> b \<le> 16 \<Longrightarrow> digits_value b (digits b n) = n"
proof (induction b n rule: digits.induct)
  case (1 b n)
  show ?case
  proof (cases "n < b")
    case True
    with 1 show ?thesis by (simp add: digits_value_def digits.simps [of b n])
  next
    case False
    with 1 have ih: "digits_value b (digits b (n div b)) = n div b" by simp
    have "n mod b < 16" using 1(2,3) mod_less_divisor [of b n] by linarith
    with ih False 1(2) show ?thesis
      by (subst digits.simps) (simp add: digits_value_def)
  qed
qed

lemma digits_inject: "2 \<le> b \<Longrightarrow> b \<le> 16 \<Longrightarrow> digits b m = digits b n \<longleftrightarrow> m = n"
  by (metis digits_value_digits)

lemma digits_set: "2 \<le> b \<Longrightarrow> b \<le> 16 \<Longrightarrow> c \<in> set (digits b n) \<Longrightarrow> \<exists>d<b. c = digit_char d"
proof (induction b n rule: digits.induct)
  case (1 b n)
  show ?case
  proof (cases "n < b")
    case True
    with 1 show ?thesis by (simp add: digits.simps [of b n]) auto
  next
    case False
    with 1(2,4) have "c \<in> set (digits b (n div b)) \<or> c = digit_char (n mod b)"
      by (simp add: digits.simps [of b n]) auto
    then show ?thesis
    proof
      assume "c \<in> set (digits b (n div b))"
      with 1 False show ?thesis by auto
    next
      assume "c = digit_char (n mod b)"
      moreover have "n mod b < b" using 1(2) by simp
      ultimately show ?thesis by blast
    qed
  qed
qed

lemma digits_length: "2 \<le> b \<Longrightarrow> n < b ^ k \<Longrightarrow> 0 < k \<Longrightarrow> length (digits b n) \<le> k"
proof (induction k arbitrary: n)
  case 0
  then show ?case by simp
next
  case (Suc k)
  show ?case
  proof (cases "n < b")
    case True
    then show ?thesis by (simp add: digits.simps [of b n])
  next
    case False
    with Suc.prems have "0 < k" by (cases k) auto
    moreover have "n div b < b ^ k" using Suc.prems by (simp add: less_mult_imp_div_less mult.commute)
    ultimately have "length (digits b (n div b)) \<le> k" using Suc.IH Suc.prems(1) by simp
    with False Suc.prems(1) show ?thesis by (simp add: digits.simps [of b n])
  qed
qed

lemma isdigit_char: "d < 10 \<Longrightarrow> isdigit (digit_char d)"
  using less_16_cases [of d] by (auto simp: isdigit_def digit_char_def)

lemma isdigit_not: "isdigit c \<Longrightarrow> \<not> isspace c \<and> c \<noteq> CHR ''-'' \<and> c \<noteq> CHR ''+''"
  by (auto simp: isdigit_def isspace_def)

lemma dec_isdigit: "c \<in> set (dec n) \<Longrightarrow> isdigit c"
  using digits_set [of 10 c n] isdigit_char by auto

lemma stoi_dec:
  assumes "n < 2 ^ 31" "rest = [] \<or> \<not> isdigit (hd rest)"
  shows "stoi (dec n @ rest) = Inr (int n)"
proof -
  obtain c s where s: "dec n = c # s" using digits_nonempty [of 10 n] by (cases "dec n") auto
  have all: "\<forall>c\<in>set (dec n). isdigit c" using dec_isdigit by blast
  with s have c: "\<not> isspace c" "c \<noteq> CHR ''-''" "c \<noteq> CHR ''+''" using isdigit_not by auto
  have "takeWhile isdigit (dec n @ rest) = dec n"
    using all assms(2) by (cases rest) (auto simp: takeWhile_append2)
  then have "takeWhile isdigit (c # s @ rest) = c # s" by (simp add: s)
  moreover have "digits_value 10 (c # s) = n" using digits_value_digits [of 10 n] s by simp
  ultimately show ?thesis
    unfolding stoi_def Let_def s using c assms(1) by simp
qed

section \<open>Fixed-width fields\<close>

lemma setw_length: "length s \<le> w \<Longrightarrow> length (setw w c s) = w"
  by (simp add: setw_def)

lemma digit_char_0: "digit_char 0 = CHR ''0''"
  by (simp add: digit_char_def)

lemma digits_value_zeros: "digits_value b (replicate k CHR ''0'' @ s) = digits_value b s"
proof -
  have "digit_value CHR ''0'' = 0" by (simp add: digit_value_def)
  then have "foldl (\<lambda>a c. a * b + digit_value c) 0 (replicate k CHR ''0'') = 0" by (induction k) auto
  then show ?thesis by (simp add: digits_value_def)
qed

lemma setw_hex_inject: "setw w CHR ''0'' (hex m) = setw w CHR ''0'' (hex n) \<longleftrightarrow> m = n"
proof -
  have "digits_value 16 (setw w CHR ''0'' (hex k)) = k" for k
    by (simp add: setw_def digits_value_zeros digits_value_digits)
  then show ?thesis by metis
qed

section \<open>Hexdump\<close>

text \<open>
  A \<open>stringstream\<close> constructed from a string, or reset by \<open>str(s)\<close>, writes from the beginning
  of that string: the characters put overwrite it.
\<close>

record stringstream =
  ss_str :: string
  ss_pos :: nat

definition stringstream_new :: "string \<Rightarrow> stringstream" where
  "stringstream_new s = \<lparr>ss_str = s, ss_pos = 0\<rparr>"

definition stringstream_put :: "stringstream \<Rightarrow> char \<Rightarrow> stringstream" where
  "stringstream_put ss c =
     \<lparr>ss_str = (if ss_pos ss < length (ss_str ss) then (ss_str ss)[ss_pos ss := c] else ss_str ss @ [c]),
      ss_pos = ss_pos ss + 1\<rparr>"

definition isprint :: "byte \<Rightarrow> bool" where
  "isprint b \<longleftrightarrow> 0x20 \<le> b \<and> b \<le> 0x7e"

definition print_char :: "byte \<Rightarrow> char" where
  "print_char b = (if isprint b then char_of (unat b) else CHR ''.'')"

text \<open>The variables of the loop: what went to \<open>cout\<close>, \<open>pchars\<close> and \<open>printed\<close>.\<close>

record hexdump_state =
  hd_cout :: string
  hd_pchars :: stringstream
  hd_printed :: nat

definition hexdump_init :: hexdump_state where
  "hexdump_init = \<lparr>hd_cout = [], hd_pchars = stringstream_new '' '', hd_printed = 0\<rparr>"

definition hexdump_step :: "nat \<Rightarrow> hexdump_state \<Rightarrow> byte \<Rightarrow> hexdump_state" where
  "hexdump_step indent st b =
     (let st =
        (if hd_printed st mod 16 = 0 then
           let st =
             (if hd_printed st \<noteq> 0 then
                \<lparr>hd_cout = hd_cout st @ ''    '' @ ss_str (hd_pchars st) @ [newline],
                 hd_pchars = stringstream_new '' '', hd_printed = hd_printed st\<rparr>
              else st)
           in st\<lparr>hd_cout := hd_cout st @ replicate indent CHR '' '' @
                  setw 8 CHR ''0'' (hex (hd_printed st)) @ '':    ''\<rparr>
         else if hd_printed st mod 2 = 0 then st\<lparr>hd_cout := hd_cout st @ '' ''\<rparr>
         else st)
      in \<lparr>hd_cout = hd_cout st @ setw 2 CHR ''0'' (hex (unat b)),
          hd_pchars = stringstream_put (hd_pchars st) (print_char b),
          hd_printed = hd_printed st + 1\<rparr>)"

text \<open>Counting past the largest \<open>int\<close> is undefined.\<close>

definition hexdump :: "bytes \<Rightarrow> nat \<Rightarrow> string result" where
  "hexdump data indent =
     (if length data \<ge> 2 ^ 31 then Inl UndefinedBehaviour
      else
        let st = foldl (hexdump_step indent) hexdump_init data;
            print_rem = (16 - hd_printed st mod 16) mod 16
        in Inr (hd_cout st @ replicate (2 * print_rem + print_rem div 2 + 4) CHR '' '' @
                ss_str (hd_pchars st) @ [newline, newline]))"

section \<open>The layout of a hexdump\<close>

definition hex_col :: "nat \<Rightarrow> byte \<Rightarrow> string" where
  "hex_col j b = (if j \<noteq> 0 \<and> even j then '' '' else []) @ setw 2 CHR ''0'' (hex (unat b))"

definition hex_cols :: "bytes \<Rightarrow> string" where
  "hex_cols chunk = concat (map (\<lambda>j. hex_col j (chunk ! j)) [0..<length chunk])"

definition hex_row :: "nat \<Rightarrow> nat \<Rightarrow> bytes \<Rightarrow> string" where
  "hex_row indent off chunk =
     replicate indent CHR '' '' @ setw 8 CHR ''0'' (hex off) @ '':    '' @ hex_cols chunk"

text \<open>Row \<open>i\<close> shows the bytes from \<open>16 i\<close>: padded to a fixed width, then as characters.\<close>

definition hexdump_line :: "nat \<Rightarrow> bytes \<Rightarrow> nat \<Rightarrow> string" where
  "hexdump_line indent data i =
     (let chunk = take 16 (drop (16 * i) data); row = hex_row indent (16 * i) chunk
      in row @ replicate (indent + 56 - length row) CHR '' '' @ map print_char chunk)"

lemma hex_cols_snoc: "hex_cols (chunk @ [b]) = hex_cols chunk @ hex_col (length chunk) b"
proof -
  have "map (\<lambda>j. hex_col j ((chunk @ [b]) ! j)) [0..<length chunk] =
      map (\<lambda>j. hex_col j (chunk ! j)) [0..<length chunk]"
    by (intro map_cong) (auto simp: nth_append)
  then have "concat (map (\<lambda>j. hex_col j ((chunk @ [b]) ! j)) [0..<length chunk]) = hex_cols chunk"
    by (simp only: hex_cols_def)
  then show ?thesis by (simp add: hex_cols_def [of "chunk @ [b]"])
qed

lemma hex_cols_Nil [simp]: "hex_cols [] = []"
  by (simp add: hex_cols_def)

lemma hex_byte_length: "length (setw 2 CHR ''0'' (hex (unat (b :: byte)))) = 2"
  using digits_length [of 16 "unat b" 2] unsigned_less [of b, where 'a = nat] by (simp add: setw_length)

lemma hex_cols_length: "chunk \<noteq> [] \<Longrightarrow> length (hex_cols chunk) = 2 * length chunk + (length chunk - 1) div 2"
proof (induction chunk rule: rev_induct)
  case (snoc b chunk)
  have col: "length (hex_col j b) = (if j \<noteq> 0 \<and> even j then 3 else 2)" for j
    by (simp add: hex_col_def hex_byte_length)
  show ?case
  proof (cases "chunk = []")
    case True
    then show ?thesis using hex_cols_snoc [of "[]" b] col [of 0] by simp
  next
    case False
    then have "0 < length chunk" by simp
    then have "(if even (length chunk) then 1 else 0) + (length chunk - 1) div 2 = length chunk div 2"
      by presburger
    with snoc.IH False col [of "length chunk"] show ?thesis by (simp add: hex_cols_snoc split: if_splits)
  qed
qed simp

lemma hex_row_length:
  assumes "chunk \<noteq> []" "off < 2 ^ 32"
  shows "length (hex_row indent off chunk) = indent + 13 + 2 * length chunk + (length chunk - 1) div 2"
  using digits_length [of 16 off 8] assms by (simp add: hex_row_def setw_length hex_cols_length)

definition hexdump_rows :: "nat \<Rightarrow> bytes \<Rightarrow> nat \<Rightarrow> string" where
  "hexdump_rows indent data m = concat (map (\<lambda>i. hexdump_line indent data i @ [newline]) [0..<m])"

text \<open>What the loop has done after the bytes \<open>xs\<close>, the last of them in row \<open>m\<close>.\<close>

definition hexdump_at :: "nat \<Rightarrow> bytes \<Rightarrow> nat \<Rightarrow> hexdump_state" where
  "hexdump_at indent xs m =
     \<lparr>hd_cout = hexdump_rows indent xs m @ hex_row indent (16 * m) (drop (16 * m) xs),
      hd_pchars = \<lparr>ss_str = map print_char (drop (16 * m) xs), ss_pos = length (drop (16 * m) xs)\<rparr>,
      hd_printed = length xs\<rparr>"

lemma hexdump_line_append:
  "16 * (i + 1) \<le> length xs \<Longrightarrow> hexdump_line indent (xs @ ys) i = hexdump_line indent xs i"
  by (simp add: hexdump_line_def)

lemma hexdump_rows_append:
  assumes "16 * m \<le> length xs"
  shows "hexdump_rows indent (xs @ ys) m = hexdump_rows indent xs m"
proof -
  have "map (\<lambda>i. hexdump_line indent (xs @ ys) i @ [newline]) [0..<m] =
      map (\<lambda>i. hexdump_line indent xs i @ [newline]) [0..<m]"
    using assms by (intro map_cong) (auto simp: hexdump_line_append)
  then show ?thesis by (simp only: hexdump_rows_def)
qed

lemma hexdump_rows_Suc:
  "hexdump_rows indent data (m + 1) = hexdump_rows indent data m @ hexdump_line indent data m @ [newline]"
  by (simp add: hexdump_rows_def)

lemma hexdump_full_line:
  assumes "length xs = 16 * (m + 1)" "16 * m < 2 ^ 32"
  shows "hexdump_line indent xs m =
    hex_row indent (16 * m) (drop (16 * m) xs) @ ''    '' @ map print_char (drop (16 * m) xs)"
proof -
  have len: "length (drop (16 * m) xs) = 16" using assms(1) by simp
  then have "drop (16 * m) xs \<noteq> []" by (metis list.size(3) zero_neq_numeral)
  from hex_row_length [OF this assms(2), of indent] len
  have "indent + 56 - length (hex_row indent (16 * m) (drop (16 * m) xs)) = 4" by simp
  moreover have "take 16 (drop (16 * m) xs) = drop (16 * m) xs" using len by simp
  moreover have "replicate 4 CHR '' '' = ''    ''" by (simp add: numeral_eq_Suc)
  ultimately show ?thesis by (simp only: hexdump_line_def Let_def)
qed

lemma hexdump_put: "length s = n \<Longrightarrow> stringstream_put \<lparr>ss_str = s, ss_pos = n\<rparr> c = \<lparr>ss_str = s @ [c], ss_pos = n + 1\<rparr>"
  by (simp add: stringstream_put_def)

lemma hexdump_put_first: "stringstream_put (stringstream_new '' '') c = \<lparr>ss_str = [c], ss_pos = 1\<rparr>"
  by (simp add: stringstream_put_def stringstream_new_def)

lemma last_row:
  assumes "0 < n" "m = (n - 1) div 16"
  shows "16 * m < n \<and> n \<le> 16 * (m + 1) \<and> (n + 15) div 16 = m + (1 :: nat)"
proof -
  define r where "r = (n - 1) mod 16"
  have r: "r < 16" by (simp add: r_def)
  have "n - 1 = 16 * m + r" unfolding assms(2) r_def by simp
  with assms(1) have n: "n = 16 * m + r + 1" by simp
  then have "n + 15 = r + (m + 1) * 16" by simp
  then have "(n + 15) div 16 = r div 16 + (m + 1)" by (simp only: div_mult_self1)
  with r n show ?thesis by simp
qed

lemma last_row_rem: "1 \<le> k \<Longrightarrow> k \<le> 16 \<Longrightarrow> (16 - (16 * m + k) mod 16) mod 16 = 16 - k" for k m :: nat
  by (cases "k = 16") auto

lemma row_width:
  assumes "1 \<le> k" "k \<le> 16"
  shows "2 * k + (k - 1) div 2 + (2 * (16 - k) + (16 - k) div 2) = (39 :: nat)"
proof -
  have "(k - 1) div 2 + (16 - k) div 2 = 7" using assms by presburger
  with assms show ?thesis by simp
qed

lemma hexdump_step_first: "hexdump_step indent hexdump_init b = hexdump_at indent [b] 0"
  using hex_cols_snoc [of "[]" b]
  by (simp add: hexdump_at_def hexdump_rows_def hexdump_init_def hexdump_step_def hexdump_put_first hex_row_def hex_col_def)

lemma hexdump_step_same_row:
  assumes "16 * m < length xs" "length xs < 16 * (m + 1)"
  shows "hexdump_step indent (hexdump_at indent xs m) b = hexdump_at indent (xs @ [b]) m"
proof -
  have "length xs mod 16 = length xs - 16 * m" using assms by (simp add: mod_nat_eqI)
  moreover have "even (length xs - 16 * m) \<longleftrightarrow> even (length xs)" using assms by simp
  ultimately show ?thesis
    using assms
    by (simp add: hexdump_rows_append hexdump_step_def hexdump_at_def hexdump_put hex_row_def hex_cols_snoc hex_col_def
        even_iff_mod_2_eq_zero)
qed

lemma hexdump_step_next_row:
  assumes "length xs = 16 * (m + 1)" "16 * m < 2 ^ 32"
  shows "hexdump_step indent (hexdump_at indent xs m) b = hexdump_at indent (xs @ [b]) (m + 1)"
proof -
  have "drop (16 * (m + 1)) (xs @ [b]) = [b]" using assms(1) by simp
  moreover have "hex_cols [b] = setw 2 CHR ''0'' (hex (unat b))"
    using hex_cols_snoc [of "[]" b] by (simp add: hex_col_def)
  moreover have "hexdump_rows indent (xs @ [b]) (m + 1) = hexdump_rows indent xs m @
      hex_row indent (16 * m) (drop (16 * m) xs) @ ''    '' @ map print_char (drop (16 * m) xs) @ [newline]"
    using hexdump_rows_append [of "m + 1" xs indent "[b]"] assms(1)
      hexdump_full_line [OF assms, of indent] by (simp add: hexdump_rows_Suc [simplified])
  ultimately show ?thesis
    unfolding hexdump_at_def hexdump_step_def using assms(1) by (simp add: hexdump_put_first hex_row_def)
qed

lemma hexdump_loop:
  "xs \<noteq> [] \<Longrightarrow> length xs < 2 ^ 31 \<Longrightarrow>
   foldl (hexdump_step indent) hexdump_init xs = hexdump_at indent xs ((length xs - 1) div 16)"
proof (induction xs rule: rev_induct)
  case (snoc b xs)
  show ?case
  proof (cases "xs = []")
    case True
    then show ?thesis by (simp add: hexdump_step_first)
  next
    case False
    define m where "m = (length xs - 1) div 16"
    from False have "0 < length xs" by simp
    note last = last_row [OF this m_def]
    have m: "16 * m < length xs" "length xs \<le> 16 * (m + 1)" using last by (blast, blast)
    have ih: "foldl (hexdump_step indent) hexdump_init xs = hexdump_at indent xs m"
      using snoc False by (simp add: m_def)
    show ?thesis
    proof (cases "length xs = 16 * (m + 1)")
      case True
      with snoc.prems have "16 * m < 2 ^ 32" by simp
      from hexdump_step_next_row [OF True this, of indent b] ih True show ?thesis by simp
    next
      case False
      with m have "length xs div 16 = m" by (intro div_nat_eqI) auto
      with hexdump_step_same_row [of m xs indent b] ih m False show ?thesis by simp
    qed
  qed
qed simp

text \<open>
  A buffer of fewer than \<open>2^31\<close> bytes is shown sixteen bytes a row; in every row the
  characters start in the same column, 56 after the indentation.
\<close>

theorem hexdump_layout:
  assumes "data \<noteq> []" "length data < 2 ^ 31"
  shows "hexdump data indent = Inr (hexdump_rows indent data ((length data + 15) div 16) @ [newline]) \<and>
    (\<forall>i<(length data + 15) div 16.
      drop (indent + 56) (hexdump_line indent data i) = map print_char (take 16 (drop (16 * i) data)))"
proof -
  define m where "m = (length data - 1) div 16"
  define chunk where "chunk = drop (16 * m) data"
  have "0 < length data" using assms(1) by simp
  note last = last_row [OF this m_def]
  have m: "16 * m < length data" "length data \<le> 16 * (m + 1)" and n: "(length data + 15) div 16 = m + 1"
    using last by (blast, blast, blast)
  have col: "length (hex_row indent (16 * i) (take 16 (drop (16 * i) data))) \<le> indent + 56"
    if "i < m + 1" for i
  proof -
    let ?c = "take 16 (drop (16 * i) data)"
    have "?c \<noteq> []" "16 * i < 2 ^ 32" using that m assms(2) by auto
    note len = hex_row_length [OF this, of indent]
    have "1 \<le> length ?c" "length ?c \<le> 16" using that m by auto
    from row_width [OF this] len show ?thesis by linarith
  qed
  have k: "length chunk = length data - 16 * m" "chunk \<noteq> []" using m by (auto simp: chunk_def)
  have k16: "1 \<le> length chunk" "length chunk \<le> 16" using m by (auto simp: k)
  have "length data = 16 * m + length chunk" using m by (simp add: k)
  then have rem: "(16 - length data mod 16) mod 16 = 16 - length chunk"
    using last_row_rem [OF k16, of m] by simp
  have "16 * m < 2 ^ 32" using m assms(2) by simp
  from hex_row_length [OF k(2) this, of indent] row_width [OF k16]
  have fill: "indent + 56 - length (hex_row indent (16 * m) chunk) =
      2 * (16 - length chunk) + (16 - length chunk) div 2 + 4" by linarith
  have "take 16 chunk = chunk" using m by (simp add: chunk_def)
  then have "hexdump_line indent data m = hex_row indent (16 * m) chunk @
      replicate (2 * (16 - length chunk) + (16 - length chunk) div 2 + 4) CHR '' '' @ map print_char chunk"
    by (simp add: hexdump_line_def Let_def fill chunk_def [symmetric])
  moreover have "foldl (hexdump_step indent) hexdump_init data = hexdump_at indent data m"
    using hexdump_loop [OF assms] by (simp add: m_def)
  then have "hexdump data indent = Inr (hexdump_rows indent data m @ hex_row indent (16 * m) chunk @
      replicate (2 * (16 - length chunk) + (16 - length chunk) div 2 + 4) CHR '' '' @
      map print_char chunk @ [newline, newline])"
    using assms(2) unfolding hexdump_def Let_def hexdump_at_def
    by (simp only: rem chunk_def [symmetric] hexdump_state.simps stringstream.simps append_assoc
        not_le [symmetric] if_False)
  ultimately have dump: "hexdump data indent = Inr (hexdump_rows indent data (m + 1) @ [newline])"
    by (simp only: hexdump_rows_Suc append_assoc append_Cons append_Nil)
  have "drop (indent + 56) (hexdump_line indent data i) = map print_char (take 16 (drop (16 * i) data))"
    if "i < m + 1" for i
    using col [OF that] by (simp add: hexdump_line_def Let_def)
  then have "\<forall>i<m + 1. drop (indent + 56) (hexdump_line indent data i) = map print_char (take 16 (drop (16 * i) data))"
    by (intro allI impI)
  with dump show ?thesis unfolding n by (rule conjI)
qed

theorem hexdump_layout_witness:
  "hexdump [0x41, 0, 0x7e] 2 = Inr (''  00000000:    4100 7e'' @ replicate 36 CHR '' '' @ ''A.~'' @ [newline, newline])"
proof -
  have rows: "hexdump_rows 2 [0x41, 0, 0x7e] ((length [0x41 :: byte, 0, 0x7e] + 15) div 16) @ [newline] =
      ''  00000000:    4100 7e'' @ replicate 36 CHR '' '' @ ''A.~'' @ [newline, newline]"
    by code_simp
  have "[0x41 :: byte, 0, 0x7e] \<noteq> []" "length [0x41 :: byte, 0, 0x7e] < 2 ^ 31" by simp_all
  from hexdump_layout [OF this, of 2] show ?thesis unfolding rows by (rule conjunct1)
qed

end
