(* ===== verification/Buffers.thy ===== *)
theory Buffers
  imports Sponge_Prelude
begin

text \<open>
  The reference-counted strings of \<open>util/buffer.hh\<close> and \<open>util/buffer.cc\<close>. A
  \<open>Buffer\<close> shares an immutable string and skips a prefix of it; since no operation writes
  through the shared pointer, sharing is not observable and the storage is a value. A
  \<open>BufferList\<close> is a deque of such buffers, a \<open>BufferViewList\<close> a deque of string views.
\<close>

section \<open>The contract of a string that loses bytes at the front\<close>

text \<open>
  Three classes have \<open>remove_prefix\<close>. Their users rely on it being \<open>drop\<close> on the
  contents, and on an exception when there are not that many bytes.
\<close>

locale droppable =
  fixes remove_prefix :: "size_t \<Rightarrow> 'b \<Rightarrow> 'b result"
    and contents :: "'b \<Rightarrow> bytes"
    and invar :: "'b \<Rightarrow> bool"
  assumes remove_ok: "invar b \<Longrightarrow> n \<le> length (contents b) \<Longrightarrow>
      \<exists>b'. remove_prefix n b = Inr b' \<and> contents b' = drop n (contents b) \<and> invar b'"
    and remove_too_many: "invar b \<Longrightarrow> length (contents b) < n \<Longrightarrow>
      remove_prefix n b = Inl OutOfRange"
begin

lemma remove_twice:
  assumes "invar b"
  shows "rel_sum (=) (\<lambda>x y. contents x = contents y)
    (bindR (remove_prefix m b) (remove_prefix n)) (remove_prefix (m + n) b)"
proof (cases "m \<le> length (contents b)")
  case False
  with assms show ?thesis by (simp add: remove_too_many)
next
  case m: True
  from remove_ok [OF assms m] obtain b1 where b1: "remove_prefix m b = Inr b1"
    "contents b1 = drop m (contents b)" "invar b1" by blast
  show ?thesis
  proof (cases "m + n \<le> length (contents b)")
    case False
    then have "length (contents b1) < n" using b1(2) m by simp
    with False b1 remove_too_many [OF b1(3), of n] remove_too_many [OF assms, of "m + n"]
    show ?thesis by auto
  next
    case True
    then have "n \<le> length (contents b1)" using b1(2) by simp
    with remove_ok [OF assms True] remove_ok [OF b1(3), of n] b1 show ?thesis
      by (auto simp: add.commute)
  qed
qed

end

section \<open>Buffer\<close>

record buffer =
  bf_storage :: "bytes option"
  bf_starting_offset :: size_t

definition Buffer_default :: buffer where
  "Buffer_default = \<lparr>bf_storage = None, bf_starting_offset = 0\<rparr>"

definition Buffer_new :: "bytes \<Rightarrow> buffer" where
  "Buffer_new str = \<lparr>bf_storage = Some str, bf_starting_offset = 0\<rparr>"

definition Buffer_str :: "buffer \<Rightarrow> bytes" where
  "Buffer_str b = (case bf_storage b of None \<Rightarrow> [] | Some s \<Rightarrow> drop (bf_starting_offset b) s)"

definition Buffer_at :: "buffer \<Rightarrow> size_t \<Rightarrow> byte result" where
  "Buffer_at b n = (if n < length (Buffer_str b) then Inr (Buffer_str b ! n) else Inl OutOfRange)"

definition Buffer_size :: "buffer \<Rightarrow> size_t" where
  "Buffer_size b = length (Buffer_str b)"

definition Buffer_copy :: "buffer \<Rightarrow> bytes" where
  "Buffer_copy b = Buffer_str b"

definition Buffer_remove_prefix :: "size_t \<Rightarrow> buffer \<Rightarrow> buffer result" where
  "Buffer_remove_prefix n b =
     (if n > length (Buffer_str b) then Inl OutOfRange
      else
        let b' = b\<lparr>bf_starting_offset := add64 (bf_starting_offset b) n\<rparr>
        in Inr (case bf_storage b' of
             None \<Rightarrow> b'
           | Some s \<Rightarrow> if bf_starting_offset b' = length s then b'\<lparr>bf_storage := None\<rparr> else b'))"

text \<open>A string fits in the address space and the offset stays inside the string.\<close>

definition buffer_ok :: "buffer \<Rightarrow> bool" where
  "buffer_ok b \<longleftrightarrow>
     (case bf_storage b of None \<Rightarrow> True
      | Some s \<Rightarrow> length s < 2 ^ 64 \<and> bf_starting_offset b \<le> length s)"

lemma Buffer_new_str [simp]: "Buffer_str (Buffer_new s) = s" "Buffer_str Buffer_default = []"
  by (simp_all add: Buffer_str_def Buffer_new_def Buffer_default_def)

lemma buffer_ok_new [simp]: "buffer_ok (Buffer_new s) \<longleftrightarrow> length s < 2 ^ 64" "buffer_ok Buffer_default"
  by (simp_all add: buffer_ok_def Buffer_new_def Buffer_default_def)

interpretation buffer: droppable Buffer_remove_prefix Buffer_str buffer_ok
proof unfold_locales
  fix b n
  assume ok: "buffer_ok b"
  show "Buffer_remove_prefix n b = Inl OutOfRange" if "length (Buffer_str b) < n"
    using that by (simp add: Buffer_remove_prefix_def)
  assume n: "n \<le> length (Buffer_str b)"
  show "\<exists>b'. Buffer_remove_prefix n b = Inr b' \<and> Buffer_str b' = drop n (Buffer_str b) \<and> buffer_ok b'"
  proof (cases "bf_storage b")
    case None
    with n show ?thesis by (auto simp: Buffer_remove_prefix_def Buffer_str_def buffer_ok_def)
  next
    case (Some s)
    with ok n have "add64 (bf_starting_offset b) n = bf_starting_offset b + n"
      "bf_starting_offset b + n \<le> length s"
      by (auto simp: buffer_ok_def Buffer_str_def add64_exact)
    with Some ok n show ?thesis
      by (auto simp: Buffer_remove_prefix_def Buffer_str_def buffer_ok_def add.commute
          Let_def)
  qed
qed

section \<open>BufferList\<close>

type_synonym buffer_list = "buffer list"

definition BufferList_of_buffer :: "buffer \<Rightarrow> buffer_list" where
  "BufferList_of_buffer b = [b]"

definition BufferList_append :: "buffer_list \<Rightarrow> buffer_list \<Rightarrow> buffer_list" where
  "BufferList_append bl other = foldl (\<lambda>bs b. bs @ [b]) bl other"

definition BufferList_new :: "bytes \<Rightarrow> buffer_list" where
  "BufferList_new str = BufferList_append [] (BufferList_of_buffer (Buffer_new str))"

definition BufferList_to_Buffer :: "buffer_list \<Rightarrow> buffer result" where
  "BufferList_to_Buffer bl =
     (case bl of [] \<Rightarrow> Inr Buffer_default | [b] \<Rightarrow> Inr b | _ \<Rightarrow> Inl RuntimeError)"

definition BufferList_concatenate :: "buffer_list \<Rightarrow> bytes" where
  "BufferList_concatenate bl = foldl (\<lambda>ret b. ret @ Buffer_str b) [] bl"

definition BufferList_size :: "buffer_list \<Rightarrow> size_t" where
  "BufferList_size bl = foldl (\<lambda>ret b. add64 ret (Buffer_size b)) 0 bl"

fun BufferList_remove_prefix :: "size_t \<Rightarrow> buffer_list \<Rightarrow> buffer_list result" where
  "BufferList_remove_prefix n [] = (if n > 0 then Inl OutOfRange else Inr [])"
| "BufferList_remove_prefix n (b # bs) =
     (if n > 0 then
        if n < length (Buffer_str b)
        then bindR (Buffer_remove_prefix n b) (\<lambda>b'. Inr (b' # bs))
        else BufferList_remove_prefix (n - length (Buffer_str b)) bs
      else Inr (b # bs))"

lemma BufferList_append_append [simp]: "BufferList_append bl other = bl @ other"
proof -
  have "foldl (\<lambda>bs b. bs @ [b]) bl other = bl @ other" by (induction other arbitrary: bl) auto
  then show ?thesis by (simp add: BufferList_append_def)
qed

lemma BufferList_concatenate_concat: "BufferList_concatenate bl = concat (map Buffer_str bl)"
proof -
  have "foldl (\<lambda>ret b. ret @ Buffer_str b) acc bl = acc @ concat (map Buffer_str bl)" for acc
    by (induction bl arbitrary: acc) auto
  then show ?thesis by (simp add: BufferList_concatenate_def)
qed

lemma BufferList_concatenate_simps [simp]:
  "BufferList_concatenate [] = []"
  "BufferList_concatenate (b # bs) = Buffer_str b @ BufferList_concatenate bs"
  "BufferList_concatenate (xs @ ys) = BufferList_concatenate xs @ BufferList_concatenate ys"
  "BufferList_concatenate (BufferList_new s) = s"
  by (simp_all add: BufferList_concatenate_concat BufferList_new_def BufferList_of_buffer_def)

lemma BufferList_size_concatenate:
  "BufferList_size bl = length (BufferList_concatenate bl) mod 2 ^ 64"
proof -
  have "foldl (\<lambda>ret b. add64 ret (Buffer_size b)) n bl =
      (if bl = [] then n else add64 n (length (BufferList_concatenate bl)))" for n
    by (induction bl arbitrary: n) (auto simp: Buffer_size_def add64_assoc)
  then show ?thesis by (auto simp: BufferList_size_def add64_def)
qed

definition buffer_list_ok :: "buffer_list \<Rightarrow> bool" where
  "buffer_list_ok bl \<longleftrightarrow> (\<forall>b \<in> set bl. buffer_ok b)"

lemma BufferList_remove_prefix_drop:
  "buffer_list_ok bl \<Longrightarrow> n \<le> length (BufferList_concatenate bl) \<Longrightarrow>
   \<exists>bl'. BufferList_remove_prefix n bl = Inr bl' \<and>
     BufferList_concatenate bl' = drop n (BufferList_concatenate bl) \<and> buffer_list_ok bl'"
proof (induction bl arbitrary: n)
  case (Cons b bs)
  show ?case
  proof (cases "n = 0 \<or> length (Buffer_str b) \<le> n")
    case True
    with Cons show ?thesis by (auto simp: buffer_list_ok_def)
  next
    case False
    with buffer.remove_ok [of b n] Cons.prems show ?thesis by (auto simp: buffer_list_ok_def)
  qed
qed (simp add: buffer_list_ok_def)

interpretation buffer_list: droppable BufferList_remove_prefix BufferList_concatenate buffer_list_ok
proof unfold_locales
  fix bl n
  show "\<exists>bl'. BufferList_remove_prefix n bl = Inr bl' \<and>
      BufferList_concatenate bl' = drop n (BufferList_concatenate bl) \<and> buffer_list_ok bl'"
    if "buffer_list_ok bl" "n \<le> length (BufferList_concatenate bl)"
    using that by (rule BufferList_remove_prefix_drop)
  show "BufferList_remove_prefix n bl = Inl OutOfRange" if "length (BufferList_concatenate bl) < n"
    using that by (induction bl arbitrary: n) auto
qed

section \<open>BufferViewList\<close>

type_synonym buffer_view_list = "bytes list"

definition BufferViewList_of_string :: "bytes \<Rightarrow> buffer_view_list" where
  "BufferViewList_of_string str = [str]"

definition BufferViewList_new :: "buffer_list \<Rightarrow> buffer_view_list" where
  "BufferViewList_new buffers = foldl (\<lambda>vs x. vs @ [Buffer_str x]) [] buffers"

fun BufferViewList_remove_prefix :: "size_t \<Rightarrow> buffer_view_list \<Rightarrow> buffer_view_list result" where
  "BufferViewList_remove_prefix n [] = (if n > 0 then Inl OutOfRange else Inr [])"
| "BufferViewList_remove_prefix n (v # vs) =
     (if n > 0 then
        if n < length v then Inr (drop n v # vs)
        else BufferViewList_remove_prefix (n - length v) vs
      else Inr (v # vs))"

definition BufferViewList_size :: "buffer_view_list \<Rightarrow> size_t" where
  "BufferViewList_size vl = foldl (\<lambda>ret v. add64 ret (length v)) 0 vl"

text \<open>An \<open>iovec\<close> is the memory a pointer and a length delimit.\<close>

definition BufferViewList_as_iovecs :: "buffer_view_list \<Rightarrow> (bytes \<times> size_t) list" where
  "BufferViewList_as_iovecs vl = foldl (\<lambda>ret x. ret @ [(x, length x)]) [] vl"

lemma BufferViewList_new_map: "BufferViewList_new bl = map Buffer_str bl"
proof -
  have "foldl (\<lambda>vs x. vs @ [Buffer_str x]) acc bl = acc @ map Buffer_str bl" for acc
    by (induction bl arbitrary: acc) auto
  then show ?thesis by (simp add: BufferViewList_new_def)
qed

interpretation buffer_view_list: droppable BufferViewList_remove_prefix concat "\<lambda>_. True"
proof unfold_locales
  fix vl n
  show "\<exists>vl'. BufferViewList_remove_prefix n vl = Inr vl' \<and> concat vl' = drop n (concat vl) \<and> True"
    if "n \<le> length (concat vl)"
    using that by (induction vl arbitrary: n) auto
  show "BufferViewList_remove_prefix n vl = Inl OutOfRange" if "length (concat vl) < n"
    using that by (induction vl arbitrary: n) auto
qed

section \<open>Properties\<close>

text \<open>
  C15: a list of buffers is one string. Appending concatenates, the size is the length (in
  \<open>size_t\<close>), and removing a prefix is \<open>drop\<close> across buffer boundaries, or an
  exception that leaves no result when there are too few bytes. A view of the list behaves
  in the same way.
\<close>

theorem buffer_list_is_a_string:
  assumes "buffer_list_ok bl"
  shows "BufferList_concatenate (BufferList_append bl other) =
      BufferList_concatenate bl @ BufferList_concatenate other \<and>
    BufferList_size bl = length (BufferList_concatenate bl) mod 2 ^ 64 \<and>
    map_sum id BufferList_concatenate (BufferList_remove_prefix n bl) =
      substr_from (BufferList_concatenate bl) n \<and>
    map_sum id concat (BufferViewList_remove_prefix n (BufferViewList_new bl)) =
      substr_from (BufferList_concatenate bl) n"
proof -
  have "map_sum id BufferList_concatenate (BufferList_remove_prefix n bl) =
      substr_from (BufferList_concatenate bl) n"
    using buffer_list.remove_ok [OF assms, of n] buffer_list.remove_too_many [OF assms, of n]
    by (cases "n \<le> length (BufferList_concatenate bl)") (auto simp: substr_from_def)
  moreover have "concat (BufferViewList_new bl) = BufferList_concatenate bl"
    by (simp add: BufferViewList_new_map BufferList_concatenate_concat)
  then have "map_sum id concat (BufferViewList_remove_prefix n (BufferViewList_new bl)) =
      substr_from (BufferList_concatenate bl) n"
    using buffer_view_list.remove_ok [of n "BufferViewList_new bl"]
      buffer_view_list.remove_too_many [of "BufferViewList_new bl" n]
    by (cases "n \<le> length (BufferList_concatenate bl)") (auto simp: substr_from_def)
  ultimately show ?thesis by (simp add: BufferList_size_concatenate)
qed

theorem buffer_list_is_a_string_witness:
  "map_sum id BufferList_concatenate
     (BufferList_remove_prefix 3 [Buffer_new [1, 2], Buffer_new [3, 4]]) = Inr [4]"
  using buffer_list_is_a_string [of "[Buffer_new [1, 2], Buffer_new [3, 4]]" "[]" 3]
  by (simp add: buffer_list_ok_def substr_from_def)

end
