(* ===== verification/Net_Parser.thy ===== *)
theory Net_Parser
  imports Buffers "HOL-Library.State_Monad"
begin

text \<open>
  Parsing and printing of integers in network byte order: \<open>util/parser.hh\<close> and
  \<open>util/parser.cc\<close>. A member function of \<open>NetParser\<close> is a computation of the state
  monad over the parser; the error field sticks, as in the code.
\<close>

unbundle bit_operations_syntax

section \<open>Parse results\<close>

datatype ParseResult =
  NoError | BadChecksum | PacketTooShort | WrongIPVersion | HeaderTooShort | TruncatedPacket
| Unsupported

fun ParseResult_index :: "ParseResult \<Rightarrow> nat" where
  "ParseResult_index NoError = 0"
| "ParseResult_index BadChecksum = 1"
| "ParseResult_index PacketTooShort = 2"
| "ParseResult_index WrongIPVersion = 3"
| "ParseResult_index HeaderTooShort = 4"
| "ParseResult_index TruncatedPacket = 5"
| "ParseResult_index Unsupported = 6"

text \<open>The table of names; reading behind its end is undefined.\<close>

definition as_string :: "ParseResult \<Rightarrow> string result" where
  "as_string r =
     (let names = [''NoError'', ''BadChecksum'', ''PacketTooShort'', ''WrongIPVersion'',
                   ''HeaderTooShort'', ''TruncatedPacket'']
      in if ParseResult_index r < length names then Inr (names ! ParseResult_index r)
         else Inl UndefinedBehaviour)"

section \<open>NetParser\<close>

record net_parser =
  np_buffer :: buffer
  np_error :: ParseResult

type_synonym 'a parser = "(net_parser, 'a) state"

definition NetParser_new :: "buffer \<Rightarrow> net_parser" where
  "NetParser_new buffer = \<lparr>np_buffer = buffer, np_error = NoError\<rparr>"

definition NetParser_buffer :: "buffer parser" where
  "NetParser_buffer = do { p \<leftarrow> State_Monad.get; State_Monad.return (np_buffer p) }"

definition NetParser_get_error :: "ParseResult parser" where
  "NetParser_get_error = do { p \<leftarrow> State_Monad.get; State_Monad.return (np_error p) }"

definition NetParser_set_error :: "ParseResult \<Rightarrow> unit parser" where
  "NetParser_set_error res = do { p \<leftarrow> State_Monad.get; State_Monad.set (p\<lparr>np_error := res\<rparr>) }"

definition NetParser_error :: "bool parser" where
  "NetParser_error = do { e \<leftarrow> NetParser_get_error; State_Monad.return (e \<noteq> NoError) }"

definition NetParser_check_size :: "size_t \<Rightarrow> unit parser" where
  "NetParser_check_size n = do {
     b \<leftarrow> NetParser_buffer;
     if n > Buffer_size b then NetParser_set_error PacketTooShort else State_Monad.return () }"

text \<open>
  The value of a call that may throw in general but is guarded here, so that the exception
  cannot occur (\<open>guarded_at\<close> and \<open>guarded_remove_prefix\<close> below).
\<close>

fun guarded :: "'a \<Rightarrow> 'a result \<Rightarrow> 'a" where
  "guarded other (Inr v) = v"
| "guarded other (Inl e) = other"

definition NetParser_parse_int :: "'a::len word parser" where
  "NetParser_parse_int = do {
     let len = LENGTH('a) div 8;
     NetParser_check_size len;
     err \<leftarrow> NetParser_error;
     if err then State_Monad.return 0
     else do {
       p \<leftarrow> State_Monad.get;
       let ret = foldl (\<lambda>ret i. push_bit 8 ret + ucast (guarded 0 (Buffer_at (np_buffer p) i)))
                   0 [0..<len];
       State_Monad.set (p\<lparr>np_buffer := guarded (np_buffer p) (Buffer_remove_prefix len (np_buffer p))\<rparr>);
       State_Monad.return ret } }"

definition NetParser_remove_prefix :: "size_t \<Rightarrow> unit parser" where
  "NetParser_remove_prefix n = do {
     NetParser_check_size n;
     err \<leftarrow> NetParser_error;
     if err then State_Monad.return ()
     else do {
       p \<leftarrow> State_Monad.get;
       State_Monad.set
         (p\<lparr>np_buffer := guarded (np_buffer p) (Buffer_remove_prefix n (np_buffer p))\<rparr>) } }"

definition NetParser_u32 :: "uint32 parser" where
  "NetParser_u32 = NetParser_parse_int"

definition NetParser_u16 :: "uint16 parser" where
  "NetParser_u16 = NetParser_parse_int"

definition NetParser_u8 :: "byte parser" where
  "NetParser_u8 = NetParser_parse_int"

section \<open>NetUnparser\<close>

definition NetUnparser_unparse_int :: "bytes \<Rightarrow> 'a::len word \<Rightarrow> bytes" where
  "NetUnparser_unparse_int s val =
     (let len = LENGTH('a) div 8
      in foldl (\<lambda>s i. s @ [ucast (drop_bit ((len - i - 1) * 8) val AND 0xff)]) s [0..<len])"

definition NetUnparser_u32 :: "bytes \<Rightarrow> uint32 \<Rightarrow> bytes" where
  "NetUnparser_u32 s val = NetUnparser_unparse_int s val"

definition NetUnparser_u16 :: "bytes \<Rightarrow> uint16 \<Rightarrow> bytes" where
  "NetUnparser_u16 s val = NetUnparser_unparse_int s val"

definition NetUnparser_u8 :: "bytes \<Rightarrow> byte \<Rightarrow> bytes" where
  "NetUnparser_u8 s val = NetUnparser_unparse_int s val"

section \<open>Bytes of an integer\<close>

definition be_bytes :: "'a::len word \<Rightarrow> bytes" where
  "be_bytes val = NetUnparser_unparse_int [] val"

definition be_value :: "bytes \<Rightarrow> 'a::len word" where
  "be_value bs = foldl (\<lambda>ret b. push_bit 8 ret + ucast b) 0 bs"

lemma foldl_snoc: "foldl (\<lambda>s i. s @ [f i]) s xs = s @ map f xs"
  by (induction xs arbitrary: s) auto

lemma unparse_int_append: "NetUnparser_unparse_int s val = s @ be_bytes val"
  by (simp add: NetUnparser_unparse_int_def be_bytes_def Let_def foldl_snoc)

lemma NetUnparser_append [simp]:
  "NetUnparser_u8 s a = s @ be_bytes a"
  "NetUnparser_u16 s b = s @ be_bytes b"
  "NetUnparser_u32 s c = s @ be_bytes c"
  by (simp_all only: NetUnparser_u8_def NetUnparser_u16_def NetUnparser_u32_def unparse_int_append)

lemma be_bytes_length [simp]: "length (be_bytes (val :: 'a::len word)) = LENGTH('a) div 8"
  by (simp add: be_bytes_def NetUnparser_unparse_int_def Let_def foldl_snoc)

lemma low_byte: "(0xff :: 'a::len word) = mask 8"
  by (simp add: mask_eq_exp_minus_1)

lemma upt_sizes: "[0..<1] = [0]" "[0..<2] = [0, 1]" "[0..<4] = [0, 1, 2, 3]"
  by (simp_all add: upt_rec)

lemma be_bytes_8 [simp]: "be_bytes (a :: byte) = [a]"
  by (simp add: be_bytes_def NetUnparser_unparse_int_def low_byte)
     (auto intro!: bit_word_eqI simp: bit_simps)

lemma be_bytes_16: "be_bytes (b :: uint16) = [ucast (drop_bit 8 b), ucast b]"
  by (simp add: be_bytes_def NetUnparser_unparse_int_def low_byte upt_sizes)
     (auto intro!: bit_word_eqI simp: bit_simps)

lemma be_bytes_32:
  "be_bytes (c :: uint32) =
     [ucast (drop_bit 24 c), ucast (drop_bit 16 c), ucast (drop_bit 8 c), ucast c]"
  by (simp add: be_bytes_def NetUnparser_unparse_int_def low_byte upt_sizes)
     (auto intro!: bit_word_eqI simp: bit_simps)

lemma shift_add_byte:
  "push_bit 8 x + ucast (b :: byte) = (push_bit 8 x OR ucast b :: 'a::len word)"
  by (rule disjunctive_add_eq_or) (auto simp: bit_eq_iff bit_simps dest: bit_imp_le_length)

lemma be_value_bytes [simp]:
  "be_value (be_bytes (a :: byte)) = a"
  "be_value (be_bytes (b :: uint16)) = b"
  "be_value (be_bytes (c :: uint32)) = c"
proof -
  show "be_value (be_bytes a) = a" by (simp add: be_value_def)
  show "be_value (be_bytes b) = b"
    unfolding be_value_def be_bytes_16 foldl.simps shift_add_byte
    by (rule bit_word_eqI) (auto simp: bit_simps)
  show "be_value (be_bytes c) = c"
    unfolding be_value_def be_bytes_32 foldl.simps shift_add_byte
  proof (rule bit_word_eqI)
    fix n :: nat
    consider "n < 8" | "8 \<le> n" "n < 16" | "16 \<le> n" "n < 24" | "24 \<le> n" by linarith
    then show "bit (push_bit 8 (push_bit 8 (push_bit 8 (push_bit 8 (0 :: uint32) OR
        ucast (ucast (drop_bit 24 c) :: byte)) OR ucast (ucast (drop_bit 16 c) :: byte)) OR
        ucast (ucast (drop_bit 8 c) :: byte)) OR ucast (ucast c :: byte)) n = bit c n"
      if "n < LENGTH(32)"
      using that by cases (auto simp: bit_simps)
  qed
qed

section \<open>Running a parser\<close>

text \<open>A parser in good order with the bytes \<open>bs\<close> before it.\<close>

definition parser_at :: "bytes \<Rightarrow> net_parser \<Rightarrow> bool" where
  "parser_at bs p \<longleftrightarrow>
     buffer_ok (np_buffer p) \<and> Buffer_str (np_buffer p) = bs \<and> np_error p = NoError"

lemma parser_at_new [simp]:
  "parser_at bs (NetParser_new b) \<longleftrightarrow> buffer_ok b \<and> Buffer_str b = bs"
  by (simp add: parser_at_def NetParser_new_def)

lemma guarded_at: "n < Buffer_size b \<Longrightarrow> Buffer_at b n = Inr (guarded d (Buffer_at b n))"
  by (simp add: Buffer_at_def Buffer_size_def)

lemma guarded_remove_prefix:
  "buffer_ok b \<Longrightarrow> n \<le> Buffer_size b \<Longrightarrow>
   Buffer_remove_prefix n b = Inr (guarded d (Buffer_remove_prefix n b))"
  using buffer.remove_ok [of b n] by (auto simp: Buffer_size_def)

lemma guarded_removed:
  assumes "buffer_ok b" "n \<le> Buffer_size b"
  shows "Buffer_str (guarded d (Buffer_remove_prefix n b)) = drop n (Buffer_str b)"
    and "buffer_ok (guarded d (Buffer_remove_prefix n b))"
  using buffer.remove_ok [of b n] assms by (auto simp: Buffer_size_def)

lemmas parser_defs =
  NetParser_buffer_def NetParser_get_error_def NetParser_set_error_def NetParser_error_def
  NetParser_check_size_def

lemma run_check_size:
  "run_state (NetParser_check_size n) p =
     ((), if n > Buffer_size (np_buffer p) then p\<lparr>np_error := PacketTooShort\<rparr> else p)"
  by (simp add: parser_defs)

lemma run_error: "run_state NetParser_error p = (np_error p \<noteq> NoError, p)"
  by (simp add: parser_defs)

lemma run_get_error: "run_state NetParser_get_error p = (np_error p, p)"
  by (simp add: parser_defs)

lemma run_buffer: "run_state NetParser_buffer p = (np_buffer p, p)"
  by (simp add: parser_defs)

lemma run_parse_int:
  fixes p :: net_parser
  defines "n \<equiv> LENGTH('a::len) div 8"
  shows "run_state (NetParser_parse_int :: 'a word parser) p =
    (if n > Buffer_size (np_buffer p) then (0, p\<lparr>np_error := PacketTooShort\<rparr>)
     else if np_error p \<noteq> NoError then (0, p)
     else (be_value (take n (Buffer_str (np_buffer p))),
       p\<lparr>np_buffer := guarded (np_buffer p) (Buffer_remove_prefix n (np_buffer p))\<rparr>))"
proof -
  have "foldl (\<lambda>ret i. push_bit 8 ret + ucast (guarded 0 (Buffer_at (np_buffer p) i))) 0 [0..<n] =
      be_value (take n (Buffer_str (np_buffer p)))" if "n \<le> Buffer_size (np_buffer p)"
  proof -
    have "take n (Buffer_str (np_buffer p)) = map (\<lambda>i. guarded 0 (Buffer_at (np_buffer p) i)) [0..<n]"
      using that by (intro nth_equalityI) (auto simp: Buffer_size_def Buffer_at_def)
    then show ?thesis by (simp add: be_value_def foldl_map)
  qed
  then show ?thesis
    by (auto simp: NetParser_parse_int_def Let_def run_check_size run_error not_less n_def)
qed

lemma run_remove_prefix:
  "run_state (NetParser_remove_prefix n) p =
    ((), if n > Buffer_size (np_buffer p) then p\<lparr>np_error := PacketTooShort\<rparr>
     else if np_error p \<noteq> NoError then p
     else p\<lparr>np_buffer := guarded (np_buffer p) (Buffer_remove_prefix n (np_buffer p))\<rparr>)"
  by (simp add: NetParser_remove_prefix_def run_check_size run_error)

section \<open>A calculus of parsing\<close>

text \<open>
  \<open>parses m bs x bs'\<close>: on the bytes \<open>bs\<close> the parser returns \<open>x\<close> without an
  error and leaves \<open>bs'\<close>. \<open>needs k m\<close>: without an error before, the parser either
  consumes exactly \<open>k\<close> bytes or reports \<open>PacketTooShort\<close>, and never clears an error.
\<close>

named_theorems parsing \<open>introduction rules for parses and needs\<close>

definition parses :: "'a parser \<Rightarrow> bytes \<Rightarrow> 'a \<Rightarrow> bytes \<Rightarrow> bool" where
  "parses m bs x bs' \<longleftrightarrow>
     (\<forall>p. parser_at bs p \<longrightarrow> (\<exists>p'. run_state m p = (x, p') \<and> parser_at bs' p'))"

definition needs :: "nat \<Rightarrow> 'a parser \<Rightarrow> bool" where
  "needs k m \<longleftrightarrow>
     (\<forall>p. buffer_ok (np_buffer p) \<longrightarrow>
       (let p' = snd (run_state m p)
        in buffer_ok (np_buffer p') \<and>
           (np_error p = NoError \<and> k \<le> Buffer_size (np_buffer p) \<longrightarrow>
              np_error p' = NoError \<and>
              Buffer_str (np_buffer p') = drop k (Buffer_str (np_buffer p))) \<and>
           (np_error p = NoError \<and> Buffer_size (np_buffer p) < k \<or> np_error p = PacketTooShort \<longrightarrow>
              np_error p' = PacketTooShort)))"

lemma parses_bind [parsing]:
  "parses m bs x bs1 \<Longrightarrow> parses (f x) bs1 y bs' \<Longrightarrow> parses (State_Monad.bind m f) bs y bs'"
  unfolding parses_def by (simp add: split_def) (metis fst_conv snd_conv)

lemma parses_return [parsing]: "x = y \<Longrightarrow> parses (State_Monad.return x) bs y bs"
  by (simp add: parses_def)

lemma parses_buffer:
  assumes "\<And>b. buffer_ok b \<Longrightarrow> Buffer_str b = bs \<Longrightarrow> parses (f b) bs y bs'"
  shows "parses (State_Monad.bind NetParser_buffer f) bs y bs'"
  using assms by (auto simp: parses_def run_buffer parser_at_def)

lemma parses_parse_int:
  assumes "length d = LENGTH('a::len) div 8"
  shows "parses (NetParser_parse_int :: 'a word parser) (d @ bs) (be_value d) bs"
proof -
  have "\<exists>p'. run_state (NetParser_parse_int :: 'a word parser) p = (be_value d, p') \<and> parser_at bs p'"
    if "parser_at (d @ bs) p" for p
    using that assms buffer.remove_ok [of "np_buffer p" "length d"]
    by (auto simp: run_parse_int parser_at_def Buffer_size_def)
  then show ?thesis by (simp add: parses_def)
qed

lemma parses_ints:
  "parses NetParser_u8 (a # bs) a bs"
  "parses NetParser_u16 (be_bytes b @ bs) b bs"
  "parses NetParser_u32 (be_bytes c @ bs) c bs"
  using parses_parse_int [where 'a = 8, of "be_bytes a" bs]
    parses_parse_int [where 'a = 16, of "be_bytes b" bs]
    parses_parse_int [where 'a = 32, of "be_bytes c" bs]
  unfolding be_value_bytes
  by (simp_all add: NetParser_u8_def NetParser_u16_def NetParser_u32_def)

text \<open>The same on arbitrary bytes.\<close>

lemma parses_any:
  "1 \<le> length bs \<Longrightarrow> parses NetParser_u8 bs (hd bs) (drop 1 bs)"
  "2 \<le> length bs \<Longrightarrow> parses NetParser_u16 bs (be_value (take 2 bs)) (drop 2 bs)"
  "4 \<le> length bs \<Longrightarrow> parses NetParser_u32 bs (be_value (take 4 bs)) (drop 4 bs)"
proof -
  show "parses NetParser_u8 bs (hd bs) (drop 1 bs)" if "1 \<le> length bs"
    using that parses_ints(1) [of "hd bs" "tl bs"] by (cases bs) auto
  show "parses NetParser_u16 bs (be_value (take 2 bs)) (drop 2 bs)" if "2 \<le> length bs"
    using that parses_parse_int [where 'a = 16, of "take 2 bs" "drop 2 bs"]
    by (simp add: NetParser_u16_def)
  show "parses NetParser_u32 bs (be_value (take 4 bs)) (drop 4 bs)" if "4 \<le> length bs"
    using that parses_parse_int [where 'a = 32, of "take 4 bs" "drop 4 bs"]
    by (simp add: NetParser_u32_def)
qed

lemma parses_remove_prefix:
  assumes "n = length d"
  shows "parses (NetParser_remove_prefix n) (d @ bs) () bs"
proof -
  have "\<exists>p'. run_state (NetParser_remove_prefix n) p = ((), p') \<and> parser_at bs p'"
    if "parser_at (d @ bs) p" for p
    using that assms buffer.remove_ok [of "np_buffer p" "length d"]
    by (auto simp: run_remove_prefix parser_at_def Buffer_size_def)
  then show ?thesis by (simp add: parses_def)
qed

lemma parses_remove_prefix_any:
  "n \<le> length bs \<Longrightarrow> parses (NetParser_remove_prefix n) bs () (drop n bs)"
  using parses_remove_prefix [of n "take n bs" "drop n bs"] by simp

lemma parses_error:
  "parses NetParser_error bs False bs"
  "parses NetParser_get_error bs NoError bs"
  by (simp_all add: parses_def run_error run_get_error parser_at_def)

lemma needs_bind [parsing]:
  assumes "needs k m" "\<And>x. needs l (f x)"
  shows "needs (k + l) (State_Monad.bind m f)"
proof -
  have "let p' = snd (run_state (State_Monad.bind m f) p)
      in buffer_ok (np_buffer p') \<and>
         (np_error p = NoError \<and> k + l \<le> Buffer_size (np_buffer p) \<longrightarrow>
            np_error p' = NoError \<and> Buffer_str (np_buffer p') = drop (k + l) (Buffer_str (np_buffer p))) \<and>
         (np_error p = NoError \<and> Buffer_size (np_buffer p) < k + l \<or> np_error p = PacketTooShort \<longrightarrow>
            np_error p' = PacketTooShort)"
    if ok: "buffer_ok (np_buffer p)" for p
  proof -
    obtain x p1 where m: "run_state m p = (x, p1)" by fastforce
    with assms(1) ok have p1: "buffer_ok (np_buffer p1)"
      "np_error p = NoError \<and> k \<le> Buffer_size (np_buffer p) \<longrightarrow>
         np_error p1 = NoError \<and> Buffer_str (np_buffer p1) = drop k (Buffer_str (np_buffer p))"
      "np_error p = NoError \<and> Buffer_size (np_buffer p) < k \<or> np_error p = PacketTooShort \<longrightarrow>
         np_error p1 = PacketTooShort"
      by (auto simp: needs_def Let_def dest!: spec [of _ p])
    note p2 = assms(2) [of x, unfolded needs_def Let_def, rule_format, OF p1(1)]
    show ?thesis using m p1 p2 by (auto simp: Let_def Buffer_size_def add.commute)
  qed
  then show ?thesis by (simp add: needs_def)
qed

lemma needs_return [parsing]: "needs 0 (State_Monad.return x)"
  by (simp add: needs_def Let_def)

lemma needs_parse_int: "needs (LENGTH('a) div 8) (NetParser_parse_int :: 'a::len word parser)"
  by (auto simp: needs_def Let_def run_parse_int guarded_removed)

lemma needs_ints [parsing]:
  "needs 1 NetParser_u8" "needs 2 NetParser_u16" "needs 4 NetParser_u32"
  using needs_parse_int [where 'a = 8] needs_parse_int [where 'a = 16] needs_parse_int [where 'a = 32]
  by (simp_all add: NetParser_u8_def NetParser_u16_def NetParser_u32_def)

lemma needs_remove_prefix: "needs n (NetParser_remove_prefix n)"
  by (auto simp: needs_def Let_def run_remove_prefix guarded_removed)

text \<open>
  \<open>fails_below k m\<close>: with fewer than \<open>k\<close> bytes, or after an earlier shortage, the
  parser ends with \<open>PacketTooShort\<close>.
\<close>

definition fails_below :: "nat \<Rightarrow> 'a parser \<Rightarrow> bool" where
  "fails_below k m \<longleftrightarrow>
     (\<forall>p. buffer_ok (np_buffer p) \<longrightarrow>
        np_error p = NoError \<and> Buffer_size (np_buffer p) < k \<or> np_error p = PacketTooShort \<longrightarrow>
        np_error (snd (run_state m p)) = PacketTooShort)"

lemma fails_below_bind:
  assumes "needs k m" "\<And>x. fails_below l (f x)"
  shows "fails_below (k + l) (State_Monad.bind m f)"
proof -
  have "np_error (snd (run_state (State_Monad.bind m f) p)) = PacketTooShort"
    if ok: "buffer_ok (np_buffer p)"
      and short: "np_error p = NoError \<and> Buffer_size (np_buffer p) < k + l \<or> np_error p = PacketTooShort"
    for p
  proof -
    obtain x p1 where m: "run_state m p = (x, p1)" by fastforce
    with assms(1) ok short have "buffer_ok (np_buffer p1)"
      "np_error p1 = NoError \<and> Buffer_size (np_buffer p1) < l \<or> np_error p1 = PacketTooShort"
      by (auto simp: needs_def Let_def Buffer_size_def not_less dest!: spec [of _ p])
    with assms(2) [of x] m show ?thesis by (auto simp: fails_below_def)
  qed
  then show ?thesis by (simp add: fails_below_def)
qed

lemma fails_below_mono: "fails_below k m \<Longrightarrow> l \<le> k \<Longrightarrow> fails_below l m"
  by (auto simp: fails_below_def)

lemma fails_below_return: "fails_below 0 (State_Monad.return x)"
  by (simp add: fails_below_def)

lemma run_parses: "parses m bs x bs' \<Longrightarrow> parser_at bs p \<Longrightarrow>
  \<exists>p'. run_state m p = (x, p') \<and> parser_at bs' p'"
  by (simp add: parses_def)

section \<open>Properties\<close>

text \<open>
  Network byte order round trip. Printing an 8, 16 or 32 bit integer appends exactly its
  bytes, and parsing what was printed returns the integer, reports no error and leaves the parser
  before whatever followed.
\<close>

theorem parse_unparse_int:
  "parses NetParser_u8 (NetUnparser_u8 [] a @ rest) a rest \<and>
   parses NetParser_u16 (NetUnparser_u16 [] b @ rest) b rest \<and>
   parses NetParser_u32 (NetUnparser_u32 [] c @ rest) c rest \<and>
   length (NetUnparser_u8 s a) = length s + 1 \<and> length (NetUnparser_u16 s b) = length s + 2 \<and>
   length (NetUnparser_u32 s c) = length s + 4"
  using parses_ints by simp

text \<open>
  The names of the parse results. \<open>as_string\<close> has six names for seven results: it
  reads behind its table exactly for \<open>Unsupported\<close>, and otherwise no two results share
  a name.
\<close>

theorem as_string_unsupported:
  "(as_string r = Inl UndefinedBehaviour \<longleftrightarrow> r = Unsupported) \<and> (as_string r = as_string r' \<longleftrightarrow> r = r')"
  by (cases r; cases r') (simp_all add: as_string_def)

end
