(* ===== verification/Address.thy ===== *)
theory Address
  imports Text_Format Net_Parser
begin

text \<open>
  Socket addresses: the class \<open>Address\<close> of \<open>util/address.hh\<close> and \<open>util/address.cc\<close>.
  A \<open>sockaddr\<close> is its bytes; a \<open>sockaddr_in\<close> has the family (two bytes, least significant
  first), the port (two bytes, most significant first), the IPv4 address (four bytes, most significant
  first) and eight bytes of padding. The resolver functions \<open>getaddrinfo\<close> and
  \<open>getnameinfo\<close> are parameters.
\<close>

section \<open>The model\<close>

record address =
  ad_size :: size_t
  ad_storage :: bytes

definition AF_INET :: uint16 where
  "AF_INET = 2"

definition sizeof_sockaddr_in :: size_t where
  "sizeof_sockaddr_in = 16"

definition sizeof_sockaddr_storage :: size_t where
  "sizeof_sockaddr_storage = 128"

text \<open>Copying \<open>size\<close> bytes from fewer is undefined.\<close>

definition Address_of_sockaddr :: "bytes \<Rightarrow> size_t \<Rightarrow> address result" where
  "Address_of_sockaddr addr sz =
     (if sz > sizeof_sockaddr_storage then Inl RuntimeError
      else if length addr < sz then Inl UndefinedBehaviour
      else Inr \<lparr>ad_size = sz,
                ad_storage = take sz addr @ replicate (sizeof_sockaddr_storage - sz) 0\<rparr>)"

record addrinfo =
  ai_flags :: int
  ai_family :: int

definition make_hints :: "int \<Rightarrow> int \<Rightarrow> addrinfo" where
  "make_hints flags family = \<lparr>ai_flags = flags, ai_family = family\<rparr>"

definition AI_NUMERICHOST :: int where "AI_NUMERICHOST = 4"
definition AI_ALL :: int where "AI_ALL = 16"
definition AI_NUMERICSERV :: int where "AI_NUMERICSERV = 1024"

text \<open>
  \<open>getaddrinfo\<close> returns an error code and the first result, if there is one; the result is a
  \<open>sockaddr\<close> with its length.
\<close>

type_synonym getaddrinfo = "string \<Rightarrow> string \<Rightarrow> addrinfo \<Rightarrow> int \<times> bytes option"

definition Address_resolve :: "getaddrinfo \<Rightarrow> string \<Rightarrow> string \<Rightarrow> addrinfo \<Rightarrow> address result" where
  "Address_resolve gai node service hints =
     (let (gai_ret, resolved_address) = gai node service hints
      in if gai_ret \<noteq> 0
         then Inl (TaggedError Gai_error_category (''getaddrinfo('' @ node @ '', '' @ service @ '')'') gai_ret)
         else case resolved_address of
             None \<Rightarrow> Inl RuntimeError
           | Some addr \<Rightarrow> Address_of_sockaddr addr (length addr))"

definition Address_of_host :: "getaddrinfo \<Rightarrow> string \<Rightarrow> string \<Rightarrow> address result" where
  "Address_of_host gai hostname service =
     Address_resolve gai hostname service (make_hints AI_ALL (uint AF_INET))"

text \<open>The two flags have no bit in common, so that \<open>|\<close> adds them.\<close>

definition Address_of_ip :: "getaddrinfo \<Rightarrow> string \<Rightarrow> uint16 \<Rightarrow> address result" where
  "Address_of_ip gai ip port =
     Address_resolve gai ip (dec (unat port)) (make_hints (AI_NUMERICHOST + AI_NUMERICSERV) (uint AF_INET))"

text \<open>\<open>getnameinfo\<close> returns an error code, the host and the service as text.\<close>

type_synonym getnameinfo = "bytes \<Rightarrow> int \<times> string \<times> string"

definition Address_ip_port :: "getnameinfo \<Rightarrow> address \<Rightarrow> (string \<times> uint16) result" where
  "Address_ip_port gni a =
     (let (gni_ret, ip, port) = gni (take (ad_size a) (ad_storage a))
      in if gni_ret \<noteq> 0 then Inl (TaggedError Gai_error_category ''getnameinfo'' gni_ret)
         else bindR (stoi port) (\<lambda>p. Inr (ip, word_of_int p)))"

definition Address_ip :: "getnameinfo \<Rightarrow> address \<Rightarrow> string result" where
  "Address_ip gni a = bindR (Address_ip_port gni a) (\<lambda>(ip, port). Inr ip)"

definition Address_port :: "getnameinfo \<Rightarrow> address \<Rightarrow> uint16 result" where
  "Address_port gni a = bindR (Address_ip_port gni a) (\<lambda>(ip, port). Inr port)"

definition Address_to_string :: "getnameinfo \<Rightarrow> address \<Rightarrow> string result" where
  "Address_to_string gni a =
     bindR (Address_ip_port gni a) (\<lambda>(ip, port). Inr (ip @ '':'' @ dec (unat port)))"

definition ss_family :: "address \<Rightarrow> uint16" where
  "ss_family a = be_value [ad_storage a ! 1, ad_storage a ! 0]"

definition Address_ipv4_numeric :: "address \<Rightarrow> uint32 result" where
  "Address_ipv4_numeric a =
     (if ss_family a \<noteq> AF_INET \<or> ad_size a \<noteq> sizeof_sockaddr_in then Inl RuntimeError
      else Inr (be_value (take 4 (drop 4 (ad_storage a)))))"

text \<open>
  The constructor that copies the \<open>sockaddr_in\<close> throws only for a size above that of the storage;
  the object is the one it makes for the sixteen bytes.
\<close>

definition sockaddr_in :: "uint32 \<Rightarrow> bytes" where
  "sockaddr_in ip_address = rev (be_bytes AF_INET) @ [0, 0] @ be_bytes ip_address @ replicate 8 0"

definition Address_from_ipv4_numeric :: "uint32 \<Rightarrow> address result" where
  "Address_from_ipv4_numeric ip_address = Address_of_sockaddr (sockaddr_in ip_address) sizeof_sockaddr_in"

definition Address_equal :: "address \<Rightarrow> address \<Rightarrow> bool" where
  "Address_equal a other \<longleftrightarrow>
     (if ad_size a \<noteq> ad_size other then False
      else take (ad_size a) (ad_storage a) = take (ad_size a) (ad_storage other))"

definition inet_ntoa :: "uint32 \<Rightarrow> string" where
  "inet_ntoa ip = join ''.'' (map (\<lambda>b. dec (unat b)) (be_bytes ip))"

section \<open>Numeric addresses\<close>

definition address_of_ipv4 :: "uint32 \<Rightarrow> address" where
  "address_of_ipv4 ip = \<lparr>ad_size = 16, ad_storage = sockaddr_in ip @ replicate 112 0\<rparr>"

lemma sockaddr_in_length [simp]: "length (sockaddr_in ip) = 16"
  by (simp add: sockaddr_in_def)

lemma from_ipv4_numeric [simp]: "Address_from_ipv4_numeric ip = Inr (address_of_ipv4 ip)"
  by (simp add: Address_from_ipv4_numeric_def Address_of_sockaddr_def address_of_ipv4_def
      sizeof_sockaddr_in_def sizeof_sockaddr_storage_def)

lemma ipv4_numeric [simp]: "Address_ipv4_numeric (address_of_ipv4 ip) = Inr ip"
proof -
  have "take 4 (be_bytes ip @ xs) = be_bytes ip" for xs by simp
  then show ?thesis
    by (simp add: Address_ipv4_numeric_def address_of_ipv4_def ss_family_def sockaddr_in_def
        sizeof_sockaddr_in_def be_bytes_16 be_value_def [where 'a = 16] AF_INET_def)
qed

lemma address_of_ipv4_inject: "Address_equal (address_of_ipv4 a) (address_of_ipv4 b) \<longleftrightarrow> a = b"
proof
  assume "Address_equal (address_of_ipv4 a) (address_of_ipv4 b)"
  then have "be_bytes a = be_bytes b"
    by (simp add: Address_equal_def address_of_ipv4_def sockaddr_in_def)
  then have "be_value (be_bytes a) = (be_value (be_bytes b) :: uint32)" by (rule arg_cong)
  then show "a = b" by simp
qed (simp add: Address_equal_def)

section \<open>Dotted quads\<close>

lemma dec_no_dot: "CHR ''.'' \<notin> set (dec n)"
  using dec_isdigit [of "CHR ''.''" n] by (auto simp: isdigit_def)

lemma split_at_char:
  "c \<notin> set xs \<Longrightarrow> c \<notin> set ys \<Longrightarrow> xs @ c # us = ys @ c # vs \<Longrightarrow> xs = ys \<and> us = vs"
proof (induction xs arbitrary: ys)
  case Nil
  then show ?case by (cases ys) auto
next
  case (Cons x xs)
  then show ?case by (cases ys) auto
qed

lemma inet_ntoa_quad:
  "inet_ntoa ip = dec (unat (be_bytes ip ! 0)) @ CHR ''.'' # dec (unat (be_bytes ip ! 1)) @
    CHR ''.'' # dec (unat (be_bytes ip ! 2)) @ CHR ''.'' # dec (unat (be_bytes ip ! 3))"
  by (simp add: inet_ntoa_def join_def be_bytes_32)

lemma inet_ntoa_inject: "inet_ntoa a = inet_ntoa b \<longleftrightarrow> a = b"
proof
  assume eq: "inet_ntoa a = inet_ntoa b"
  have d: "dec (unat x) = dec (unat y) \<longleftrightarrow> x = y" for x y :: byte
    by (simp add: digits_inject word_unat_eq_iff)
  note split = split_at_char [OF dec_no_dot dec_no_dot]
  from split [OF eq [unfolded inet_ntoa_quad]] have 0: "be_bytes a ! 0 = be_bytes b ! 0"
    and r: "dec (unat (be_bytes a ! 1)) @ CHR ''.'' # dec (unat (be_bytes a ! 2)) @
        CHR ''.'' # dec (unat (be_bytes a ! 3)) =
      dec (unat (be_bytes b ! 1)) @ CHR ''.'' # dec (unat (be_bytes b ! 2)) @
        CHR ''.'' # dec (unat (be_bytes b ! 3))"
    by (simp_all only: d)
  from split [OF r] have 1: "be_bytes a ! 1 = be_bytes b ! 1"
    and r': "dec (unat (be_bytes a ! 2)) @ CHR ''.'' # dec (unat (be_bytes a ! 3)) =
      dec (unat (be_bytes b ! 2)) @ CHR ''.'' # dec (unat (be_bytes b ! 3))"
    by (simp_all only: d)
  from split [OF r'] have 2: "be_bytes a ! 2 = be_bytes b ! 2" and 3: "be_bytes a ! 3 = be_bytes b ! 3"
    by (simp_all only: d)
  from 0 1 2 3 have "be_bytes a = be_bytes b" by (simp add: be_bytes_32)
  then have "be_value (be_bytes a) = (be_value (be_bytes b) :: uint32)" by (rule arg_cong)
  then show "a = b" by simp
qed simp

lemma dec_byte_length: "length (dec (unat (b :: byte))) \<le> 3"
proof -
  have "unat b < 10 ^ 3" using unsigned_less [of b, where 'a = nat] by simp
  then show ?thesis by (intro digits_length) simp_all
qed

lemma inet_ntoa_length: "length (inet_ntoa ip) \<le> 15"
  using dec_byte_length [of "be_bytes ip ! 0"] dec_byte_length [of "be_bytes ip ! 1"]
    dec_byte_length [of "be_bytes ip ! 2"] dec_byte_length [of "be_bytes ip ! 3"]
  by (simp add: inet_ntoa_quad)

section \<open>Properties\<close>

text \<open>
  Numeric addresses. An address made from a 32-bit number gives that number back, and two such
  addresses compare equal only for the same number. An address that is not IPv4 is refused.
\<close>

theorem address_numeric:
  "(\<exists>a. Address_from_ipv4_numeric ip = Inr a \<and> Address_ipv4_numeric a = Inr ip \<and>
    (\<exists>b. Address_from_ipv4_numeric ip' = Inr b \<and> (Address_equal a b \<longleftrightarrow> ip = ip')) \<and>
    Address_ipv4_numeric (a\<lparr>ad_size := 28\<rparr>) = Inl RuntimeError)"
  by (simp add: address_of_ipv4_inject)
     (simp add: Address_ipv4_numeric_def sizeof_sockaddr_in_def)

text \<open>
  Printing a port and reading it back. When \<open>getnameinfo\<close> writes the numeric form of the port,
  as it does under \<open>NI_NUMERICSERV\<close>, the port of an address is the number it was given, and
  \<open>to_string\<close> shows the host and that number.
\<close>

theorem address_ip_port:
  assumes "gni (take (ad_size a) (ad_storage a)) = (0, host, dec (unat (p :: uint16)))"
  shows "Address_ip_port gni a = Inr (host, p) \<and> Address_to_string gni a = Inr (host @ '':'' @ dec (unat p))"
proof -
  have "unat p < 2 ^ 31" using unsigned_less [of p, where 'a = nat] by simp
  then have "stoi (dec (unat p)) = Inr (int (unat p))" using stoi_dec [of "unat p" "[]"] by simp
  then show ?thesis using assms by (simp add: Address_ip_port_def Address_to_string_def)
qed

theorem address_ip_port_witness:
  "Address_to_string (\<lambda>_. (0, ''10.0.0.1'', ''443'')) (address_of_ipv4 0x0a000001) = Inr ''10.0.0.1:443''"
proof -
  have "dec 443 = ''443''" by code_simp
  with address_ip_port [of "\<lambda>_. (0, ''10.0.0.1'', ''443'')" "address_of_ipv4 0x0a000001" "''10.0.0.1''" 443]
  show ?thesis by simp
qed

end
