(* ===== verification/Checksum.thy ===== *)
theory Checksum
  imports Net_Parser
begin

text \<open>
  The Internet checksum of \<open>util/util.hh\<close> and \<open>util/util.cc\<close>: a running 32-bit sum
  of 16-bit big-endian words, fed byte by byte with a parity bit, folded to 16 bits and
  complemented.
\<close>

section \<open>The class\<close>

record internet_checksum =
  ic_sum :: uint32
  ic_parity :: bool

definition InternetChecksum_new :: "uint32 \<Rightarrow> internet_checksum" where
  "InternetChecksum_new initial_sum = \<lparr>ic_sum = initial_sum, ic_parity = False\<rparr>"

definition InternetChecksum_add :: "internet_checksum \<Rightarrow> bytes \<Rightarrow> internet_checksum" where
  "InternetChecksum_add c data =
     foldl (\<lambda>c b. let val = ucast b :: uint16;
                      val' = (if \<not> ic_parity c then push_bit 8 val else val)
                  in c\<lparr>ic_sum := ic_sum c + ucast val', ic_parity := \<not> ic_parity c\<rparr>) c data"

lemma fold_step_less:
  fixes ret :: uint32
  assumes "0xffff < ret"
  shows "unat (drop_bit 16 ret + (ret AND 0xffff)) = unat ret div 65536 + unat ret mod 65536"
    and "unat ret div 65536 + unat ret mod 65536 < unat ret"
proof -
  have mask: "(0xffff :: uint32) = mask 16" by (simp add: mask_eq_exp_minus_1)
  have "unat (ret AND 0xffff) = unat ret mod 65536"
    unfolding mask take_bit_eq_mask [symmetric]
    by (simp add: unsigned_take_bit_eq) (simp add: take_bit_eq_mod)
  moreover have "unat (drop_bit 16 ret) = unat ret div 65536"
    by (simp only: unat_drop_bit_eq) (simp add: drop_bit_eq_div)
  moreover have r: "unat ret < 2 ^ 32" using unsigned_less [of ret, where 'a = nat] by simp
  then have "unat ret div 65536 + unat ret mod 65536 < 2 ^ 32"
    by (simp add: div_less_dividend)
  ultimately show "unat (drop_bit 16 ret + (ret AND 0xffff)) = unat ret div 65536 + unat ret mod 65536"
    by (simp add: unat_word_ariths)
  have "65535 < unat ret" using assms by (simp add: word_less_nat_alt)
  then have "0 < unat ret div 65536" by (simp add: div_greater_zero_iff)
  moreover have "unat ret = 65536 * (unat ret div 65536) + unat ret mod 65536" by simp
  ultimately show "unat ret div 65536 + unat ret mod 65536 < unat ret" by linarith
qed

function InternetChecksum_fold :: "uint32 \<Rightarrow> uint32" where
  "InternetChecksum_fold ret =
     (if ret > 0xffff then InternetChecksum_fold (drop_bit 16 ret + (ret AND 0xffff)) else ret)"
  by pat_completeness auto
termination
  by (relation "measure unat") (simp_all add: fold_step_less)

declare InternetChecksum_fold.simps [simp del]

definition InternetChecksum_value :: "internet_checksum \<Rightarrow> uint16" where
  "InternetChecksum_value c = ucast (NOT (InternetChecksum_fold (ic_sum c)))"

section \<open>The sum as a natural number\<close>

fun word_sum :: "bool \<Rightarrow> bytes \<Rightarrow> nat" where
  "word_sum parity [] = 0"
| "word_sum parity (b # bs) = (if parity then unat b else 256 * unat b) + word_sum (\<not> parity) bs"

lemma word_sum_append:
  "word_sum parity (xs @ ys) = word_sum parity xs + word_sum (parity \<noteq> odd (length xs)) ys"
proof (induction xs arbitrary: parity)
  case (Cons x xs)
  have "((\<not> parity) \<noteq> odd (length xs)) = (parity \<noteq> odd (length (x # xs)))" by auto
  with Cons [of "\<not> parity"] show ?case by (simp only: append_Cons word_sum.simps)
qed simp

lemma word_sum_update:
  "i < length data \<Longrightarrow>
   int (word_sum parity (data[i := b])) - int (word_sum parity data) =
     (if parity \<noteq> odd i then 1 else 256) * (int (unat b) - int (unat (data ! i)))"
proof (induction data arbitrary: i parity)
  case (Cons x data)
  show ?case
  proof (cases i)
    case 0
    then show ?thesis by (simp add: right_diff_distrib)
  next
    case (Suc j)
    with Cons.IH [of j "\<not> parity"] Cons.prems show ?thesis
      by (cases parity) (auto simp: algebra_simps)
  qed
qed simp

lemma word_sum_bound: "word_sum parity bs \<le> 65280 * length bs"
proof (induction bs arbitrary: parity)
  case (Cons b bs)
  have "unat b \<le> 255" using unsigned_less [of b, where 'a = nat] by simp
  with Cons [of "\<not> parity"] show ?case by auto
qed simp

lemma add_append:
  "InternetChecksum_add c (xs @ ys) = InternetChecksum_add (InternetChecksum_add c xs) ys"
  by (simp add: InternetChecksum_add_def)

lemma add_sum:
  "unat (ic_sum c) + word_sum (ic_parity c) bs < 2 ^ 32 \<Longrightarrow>
   unat (ic_sum (InternetChecksum_add c bs)) = unat (ic_sum c) + word_sum (ic_parity c) bs"
proof (induction bs arbitrary: c)
  case Nil
  then show ?case by (simp add: InternetChecksum_add_def)
next
  case (Cons b bs)
  define val where "val = (if \<not> ic_parity c then push_bit 8 (ucast b) else ucast b :: uint16)"
  have "unat b < 256" using unsigned_less [of b, where 'a = nat] by simp
  then have v: "unat val = (if ic_parity c then unat b else 256 * unat b)"
    by (simp add: val_def unsigned_push_bit_eq unsigned_ucast_eq take_bit_eq_mod push_bit_eq_mult
        unat_word_ariths)
  define c' where "c' = c\<lparr>ic_sum := ic_sum c + ucast val, ic_parity := \<not> ic_parity c\<rparr>"
  have add: "InternetChecksum_add c (b # bs) = InternetChecksum_add c' bs"
    by (simp add: InternetChecksum_add_def c'_def val_def Let_def)
  have val: "unat (ucast val :: uint32) = unat val" 
    using unsigned_less [of val, where 'a = nat] by (simp add: unsigned_ucast_eq take_bit_eq_mod)
  then have "unat (ic_sum c') = unat (ic_sum c) + unat val"
    using Cons.prems v by (simp add: c'_def unat_word_ariths split: if_splits)
  with Cons.IH [of c'] Cons.prems v show ?case by (simp add: add c'_def)
qed

lemma add_parity: "ic_parity (InternetChecksum_add c bs) = (ic_parity c \<noteq> odd (length bs))"
  by (induction bs arbitrary: c) (auto simp: InternetChecksum_add_def Let_def)

text \<open>Folding keeps the sum modulo \<open>2^16 - 1\<close>.\<close>

lemma fold_mod:
  "unat (InternetChecksum_fold s) \<le> 65535 \<and>
   unat (InternetChecksum_fold s) mod 65535 = unat s mod 65535 \<and>
   (InternetChecksum_fold s = 0 \<longleftrightarrow> s = 0)"
proof (induction s rule: InternetChecksum_fold.induct)
  case (1 s)
  show ?case
  proof (cases "s > 0xffff")
    case True
    note step = fold_step_less [OF True]
    let ?s = "drop_bit 16 s + (s AND 0xffff)"
    have "unat s = 65535 * (unat s div 65536) + (unat s div 65536 + unat s mod 65536)"
      by (simp add: algebra_simps flip: add_mult_distrib2)
    then have "unat ?s mod 65535 = unat s mod 65535"
      unfolding step(1) by (metis mod_mult_self4)
    moreover have "65535 < unat s" using True by (simp add: word_less_nat_alt)
    then have "0 < unat s div 65536" by (simp add: div_greater_zero_iff)
    with step(1) have "?s \<noteq> 0" by (metis add_is_0 not_less0 unsigned_0)
    ultimately show ?thesis using 1 [OF True] True
      by (simp add: InternetChecksum_fold.simps [of s]) (auto simp: unat_eq_zero)
  next
    case False
    then have "InternetChecksum_fold s = s" by (simp add: InternetChecksum_fold.simps [of s])
    with False show ?thesis by (simp add: word_le_nat_alt not_less)
  qed
qed

lemma value_nat:
  "unat (InternetChecksum_value c) = 65535 - unat (InternetChecksum_fold (ic_sum c))"
proof -
  let ?f = "InternetChecksum_fold (ic_sum c)"
  have f: "unat ?f \<le> 65535" using fold_mod by blast
  have "InternetChecksum_value c = NOT (ucast ?f :: uint16)"
    by (auto simp: InternetChecksum_value_def bit_simps intro!: bit_word_eqI)
  also have "\<dots> = - 1 - ucast ?f" by (simp add: not_eq_complement)
  finally have "unat (InternetChecksum_value c) = unat (- 1 :: uint16) - unat (ucast ?f :: uint16)"
    by (simp add: unat_sub word_order.extremum)
  moreover have "unat (- 1 :: uint16) = 65535" by (simp add: unsigned_minus_1_eq_mask mask_eq_exp_minus_1)
  ultimately have "unat (InternetChecksum_value c) = 65535 - unat (ucast ?f :: uint16)" by simp
  also have "unat (ucast ?f :: uint16) = unat ?f"
    using f by (simp add: unsigned_ucast_eq take_bit_eq_mod)
  finally show ?thesis by simp
qed

lemma value_zero_iff:
  "InternetChecksum_value c = 0 \<longleftrightarrow> ic_sum c \<noteq> 0 \<and> unat (ic_sum c) mod 65535 = 0"
proof -
  let ?f = "InternetChecksum_fold (ic_sum c)"
  have f: "unat ?f \<le> 65535" "unat ?f mod 65535 = unat (ic_sum c) mod 65535" "?f = 0 \<longleftrightarrow> ic_sum c = 0"
    using fold_mod by blast+
  have "InternetChecksum_value c = 0 \<longleftrightarrow> unat ?f = 65535"
    using value_nat [of c] f(1) by (simp add: unat_eq_zero [symmetric] del: unat_eq_zero)
  also have "\<dots> \<longleftrightarrow> unat ?f \<noteq> 0 \<and> unat ?f mod 65535 = 0"
    using f(1) by (cases "unat ?f = 65535") auto
  finally show ?thesis using f by (simp add: unat_eq_zero)
qed

lemma value_mod:
  "(unat (ic_sum c) + unat (InternetChecksum_value c)) mod 65535 = 0"
  "0 < unat (ic_sum c) + unat (InternetChecksum_value c)"
proof -
  let ?f = "InternetChecksum_fold (ic_sum c)"
  have f: "unat ?f \<le> 65535" "unat ?f mod 65535 = unat (ic_sum c) mod 65535" "?f = 0 \<longleftrightarrow> ic_sum c = 0"
    using fold_mod by blast+
  have "(unat (ic_sum c) + (65535 - unat ?f)) mod 65535 = (unat ?f + (65535 - unat ?f)) mod 65535"
    using f(2) by (metis mod_add_left_eq)
  with f(1) show "(unat (ic_sum c) + unat (InternetChecksum_value c)) mod 65535 = 0"
    by (simp add: value_nat)
  show "0 < unat (ic_sum c) + unat (InternetChecksum_value c)"
    using f(3) by (cases "ic_sum c = 0") (simp_all add: value_nat unat_gt_0 trans_less_add1)
qed

lemma byte_bound: "unat (b :: byte) < 256"
  using unsigned_less [of b, where 'a = nat] by simp

lemma small_change:
  fixes a b x y :: nat and k :: int
  assumes "a mod 65535 = b mod 65535" "int a - int b = k * (int x - int y)"
    and "k = 1 \<or> k = 256" "x < 256" "y < 256"
  shows "x = y"
proof (rule ccontr)
  assume "x \<noteq> y"
  have "int a mod 65535 = int b mod 65535" using assms(1) by (metis of_nat_mod of_nat_numeral)
  then have "65535 dvd k * (int x - int y)" by (simp add: mod_eq_dvd_iff flip: assms(2))
  moreover have "\<bar>k * (int x - int y)\<bar> \<le> 65280" "k * (int x - int y) \<noteq> 0"
    using assms(3-5) \<open>x \<noteq> y\<close> by auto
  ultimately show False using dvd_imp_le_int [of "k * (int x - int y)" 65535] by simp
qed

text \<open>Inserting the checksum computed over a zero field at an even offset makes the check pass.\<close>

lemma checksum_inserted:
  assumes even: "even (length xs)"
    and fits: "unat init + 65280 * (length xs + length ys + 2) < 2 ^ 32"
    and ck: "ck = InternetChecksum_value (InternetChecksum_add (InternetChecksum_new init) (xs @ [0, 0] @ ys))"
  shows "InternetChecksum_value (InternetChecksum_add (InternetChecksum_new init) (xs @ be_bytes ck @ ys)) = 0"
proof -
  let ?c0 = "InternetChecksum_new init"
  let ?zero = "InternetChecksum_add ?c0 (xs @ [0, 0] @ ys)"
  let ?full = "InternetChecksum_add ?c0 (xs @ be_bytes ck @ ys)"
  define s where "s = unat init + word_sum False xs + word_sum False ys"
  have ck_split: "256 * unat (ucast (drop_bit 8 ck) :: byte) + unat (ucast ck :: byte) = unat ck"
  proof -
    have "unat (ucast (drop_bit 8 ck) :: byte) = unat ck div 256"
      using unsigned_less [of ck, where 'a = nat]
      by (simp only: unsigned_ucast_eq unat_drop_bit_eq) (simp add: drop_bit_eq_div take_bit_eq_mod)
    moreover have "unat (ucast ck :: byte) = unat ck mod 256"
      by (simp add: unsigned_ucast_eq take_bit_eq_mod)
    ultimately show ?thesis by simp
  qed
  have sum0: "word_sum False (xs @ [0, 0] @ ys) = word_sum False xs + word_sum False ys"
    and sum1: "word_sum False (xs @ be_bytes ck @ ys) = word_sum False xs + unat ck + word_sum False ys"
    using even ck_split by (simp_all add: word_sum_append be_bytes_16)
  have "unat ck \<le> 65535" using unsigned_less [of ck, where 'a = nat] by simp
  then have "s + unat ck < 2 ^ 32"
    using fits word_sum_bound [of False xs] word_sum_bound [of False ys] by (simp add: s_def)
  then have z: "unat (ic_sum ?zero) = s" and f: "unat (ic_sum ?full) = s + unat ck"
    using add_sum [of ?c0 "xs @ [0, 0] @ ys"] add_sum [of ?c0 "xs @ be_bytes ck @ ys"] sum0 sum1
    by (simp_all add: InternetChecksum_new_def s_def)
  from value_mod [of ?zero] z have "(s + unat ck) mod 65535 = 0" "0 < s + unat ck"
    by (simp_all add: ck)
  with f show ?thesis by (simp add: value_zero_iff flip: unat_gt_0)
qed

section \<open>Properties\<close>

text \<open>
  C16: the checksum verifies. When the field at an even offset is filled with the value computed
  while the field was zero, recomputing over the whole gives 0, for every initial sum and every
  message short enough for the 32-bit accumulator (in particular any IPv4 payload).
\<close>

theorem checksum_verifies:
  assumes "even (length xs)" "unat init + 65280 * (length xs + length ys + 2) < 2 ^ 32"
  shows "InternetChecksum_value
    (InternetChecksum_add (InternetChecksum_new init)
       (NetUnparser_u16 xs
          (InternetChecksum_value
             (InternetChecksum_add (InternetChecksum_new init) (xs @ [0, 0] @ ys))) @ ys)) = 0"
  using checksum_inserted [OF assms refl] by simp

theorem checksum_verifies_witness:
  "InternetChecksum_value
    (InternetChecksum_add (InternetChecksum_new 7)
       (NetUnparser_u16 [0x45, 0]
          (InternetChecksum_value
             (InternetChecksum_add (InternetChecksum_new 7) ([0x45, 0] @ [0, 0] @ [1, 2, 3]))) @
        [1, 2, 3])) = 0"
  by (rule checksum_verifies) simp_all

text \<open>
  The checksum detects every change of a single byte, whatever its position.
\<close>

theorem checksum_detects_byte:
  assumes "i < length data" "b \<noteq> data ! i" "unat init + 65280 * length data < 2 ^ 32"
  shows "InternetChecksum_value (InternetChecksum_add (InternetChecksum_new init) (data[i := b])) \<noteq>
    InternetChecksum_value (InternetChecksum_add (InternetChecksum_new init) data)"
proof
  let ?c0 = "InternetChecksum_new init"
  let ?a = "ic_sum (InternetChecksum_add ?c0 (data[i := b]))"
  let ?b = "ic_sum (InternetChecksum_add ?c0 data)"
  assume eq: "InternetChecksum_value (InternetChecksum_add ?c0 (data[i := b])) =
    InternetChecksum_value (InternetChecksum_add ?c0 data)"
  have fold: "unat (InternetChecksum_fold ?a) \<le> 65535" "unat (InternetChecksum_fold ?b) \<le> 65535"
    "unat (InternetChecksum_fold ?a) mod 65535 = unat ?a mod 65535"
    "unat (InternetChecksum_fold ?b) mod 65535 = unat ?b mod 65535"
    using fold_mod [of ?a] fold_mod [of ?b] by simp_all
  have "unat (InternetChecksum_fold ?a) = unat (InternetChecksum_fold ?b)"
    using arg_cong [OF eq, of unat] fold(1,2) unfolding value_nat by linarith
  with fold(3,4) have "unat ?a mod 65535 = unat ?b mod 65535" by simp
  moreover have "unat ?b = unat init + word_sum False data"
    "unat ?a = unat init + word_sum False (data[i := b])"
    using add_sum [of ?c0 data] add_sum [of ?c0 "data[i := b]"] assms(3)
      word_sum_bound [of False data] word_sum_bound [of False "data[i := b]"]
    by (simp_all add: InternetChecksum_new_def)
  then have "int (unat ?a) - int (unat ?b) =
      (if odd i then 1 else 256) * (int (unat b) - int (unat (data ! i)))"
    using word_sum_update [OF assms(1), of False b] by (simp only: of_nat_add add_diff_cancel_left simp_thms)
  ultimately have "unat b = unat (data ! i)"
    by (rule small_change) (simp_all only: byte_bound split: if_split, blast)
  with assms(2) show False by (simp only: word_unat_eq_iff)
qed

theorem checksum_detects_byte_witness:
  "InternetChecksum_value (InternetChecksum_add (InternetChecksum_new 0) ([1, 2, 3][1 := 9])) \<noteq>
    InternetChecksum_value (InternetChecksum_add (InternetChecksum_new 0) [1, 2, 3])"
  by (rule checksum_detects_byte) simp_all

end
