(* ===== verification/Wrapping_Integers.thy ===== *)
theory Wrapping_Integers
  imports Sponge_Prelude
begin

text \<open>
  Sequence numbers (\<open>wrapping_integers.hh\<close>, \<open>wrapping_integers.cc\<close>): a 32-bit number
  relative to an arbitrary initial sequence number, and the conversions between it and the 64-bit
  absolute sequence numbers the stack computes with.
\<close>

unbundle bit_operations_syntax

section \<open>Definitions\<close>

datatype WrappingInt32 = WrappingInt32 (raw_value: uint32)

definition wi_diff :: "WrappingInt32 \<Rightarrow> WrappingInt32 \<Rightarrow> uint32" where
  "wi_diff a b = raw_value a - raw_value b"

definition wi_plus :: "WrappingInt32 \<Rightarrow> uint32 \<Rightarrow> WrappingInt32" where
  "wi_plus a b = WrappingInt32 (raw_value a + b)"

definition wi_minus :: "WrappingInt32 \<Rightarrow> uint32 \<Rightarrow> WrappingInt32" where
  "wi_minus a b = wi_plus a (- b)"

definition wrap :: "uint64 \<Rightarrow> WrappingInt32 \<Rightarrow> WrappingInt32" where
  "wrap n isn =
     (let n' = n + ucast (raw_value isn);
          tmp = ucast (drop_bit 32 (push_bit 32 n'))
      in WrappingInt32 tmp)"

definition unwrap :: "WrappingInt32 \<Rightarrow> WrappingInt32 \<Rightarrow> uint64 \<Rightarrow> uint64" where
  "unwrap n isn checkpoint =
     (let absolute = ucast (wi_diff n isn)
      in if checkpoint \<le> absolute then absolute
         else
           let size_period = push_bit 32 1;
               absolute = absolute + (checkpoint AND 0xffffffff00000000);
               diff = max checkpoint absolute - min checkpoint absolute
           in if diff \<le> size_period div 2 then absolute
              else if checkpoint \<le> absolute then
                (if absolute \<ge> push_bit 32 1 then absolute - push_bit 32 1 else absolute)
              else absolute + push_bit 32 1)"

section \<open>The conversions as arithmetic on natural numbers\<close>

lemma unat_low_half:
  "unat (ucast (drop_bit 32 (push_bit 32 (n :: uint64))) :: uint32) = unat n mod 2 ^ 32"
proof -
  have "unat (ucast (drop_bit 32 (push_bit 32 n)) :: uint32)
      = (unat n * 2 ^ 32) mod (2 ^ 32 * 2 ^ 32) div 2 ^ 32 mod 2 ^ 32"
    by (simp only: unsigned_ucast_eq unsigned_drop_bit_eq unsigned_push_bit_eq) 
     (simp add: take_bit_eq_mod drop_bit_eq_div push_bit_eq_mult)
  also have "\<dots> = unat n mod 2 ^ 32"
    by (simp only: mod_mult_mult2) simp
  finally show ?thesis .
qed

lemma div_less_high:
  fixes c :: nat
  assumes "c < 2 ^ 64 - 2 ^ 32"
  shows "c - c mod 2 ^ 32 \<le> 2 ^ 64 - 2 * 2 ^ 32"
proof -
  have "c < (2 ^ 32 - 1) * 2 ^ 32" using assms by simp
  then have "c div 2 ^ 32 < 2 ^ 32 - 1" by (rule less_mult_imp_div_less)
  then have "c div 2 ^ 32 * 2 ^ 32 \<le> (2 ^ 32 - 2) * 2 ^ 32" by (intro mult_le_mono1) simp
  then show ?thesis by (simp add: minus_mod_eq_div_mult)
qed

lemma unat_high_half: "unat ((c :: uint64) AND 0xffffffff00000000) = unat c - unat c mod 2 ^ 32"
proof -
  have c: "unat c < 2 ^ 64" using unsigned_less [of c, where 'a = nat] by simp
  have m: "(0xffffffff00000000 :: uint64) = NOT (mask 32)"
    by (simp add: mask_eq_exp_minus_1 not_eq_complement)
  have "c AND NOT (mask 32) = push_bit 32 (drop_bit 32 c)"
    by (rule bit_eqI) (auto simp: bit_simps)
  then have "unat (c AND 0xffffffff00000000) = take_bit 64 (push_bit 32 (drop_bit 32 (unat c)))"
    unfolding m by (simp only: unsigned_drop_bit_eq unsigned_push_bit_eq)
      (use c in \<open>simp add: take_bit_nat_eq_self\<close>)
  also have "\<dots> = (unat c div 2 ^ 32 * 2 ^ 32) mod 2 ^ 64"
    by (simp only: take_bit_eq_mod drop_bit_eq_div push_bit_eq_mult)
  also have "unat c div 2 ^ 32 * 2 ^ 32 = unat c - unat c mod 2 ^ 32"
    by (simp add: minus_mod_eq_div_mult)
  also have "(unat c - unat c mod 2 ^ 32) mod 2 ^ 64 = unat c - unat c mod 2 ^ 32"
    using c by (simp add: mod_less)
  finally show ?thesis .
qed

lemma unat_ucast_32_64 [simp]: "unat (ucast (w :: uint32) :: uint64) = unat w"
  using unsigned_less [of w, where 'a = nat]
  by (simp add: unsigned_ucast_eq take_bit_nat_eq_self)

lemma unat_wrap: "unat (raw_value (wrap n isn)) = (unat n + unat (raw_value isn)) mod 2 ^ 32"
proof -
  have "unat (n + ucast (raw_value isn)) mod 2 ^ 32
      = (unat n + unat (raw_value isn)) mod 2 ^ 64 mod 2 ^ 32"
    by (simp add: unat_word_ariths)
  also have "\<dots> = (unat n + unat (raw_value isn)) mod 2 ^ 32"
    by (simp add: mod_mod_cancel)
  finally show ?thesis by (simp add: wrap_def unat_low_half Let_def)
qed

lemma wrap_eq_iff: "wrap y isn = n \<longleftrightarrow> unat y mod 2 ^ 32 = unat (wi_diff n isn)"
proof -
  let ?i = "raw_value isn"
  have u: "unat (ucast y :: uint32) = unat y mod 2 ^ 32"
    by (simp add: unsigned_ucast_eq take_bit_eq_mod)
  have w: "ucast y + ?i = raw_value (wrap y isn)"
    by (rule word_unat_eq_iff [THEN iffD2]) (simp add: unat_wrap unat_word_ariths u mod_add_left_eq)
  have "wrap y isn = n \<longleftrightarrow> raw_value (wrap y isn) = raw_value n"
    by (auto intro: WrappingInt32.expand)
  also have "\<dots> \<longleftrightarrow> (ucast y :: uint32) = wi_diff n isn"
    by (simp add: wi_diff_def eq_diff_eq flip: w)
  also have "\<dots> \<longleftrightarrow> unat y mod 2 ^ 32 = unat (wi_diff n isn)"
    by (simp add: word_unat_eq_iff u)
  finally show ?thesis .
qed

text \<open>The computation of \<^const>\<open>unwrap\<close> on natural numbers.\<close>

definition unwrap_nat :: "nat \<Rightarrow> nat \<Rightarrow> nat" where
  "unwrap_nat a c =
     (if c \<le> a then a
      else let b = a + (c - c mod 2 ^ 32)
           in if max c b - min c b \<le> 2 ^ 31 then b
              else if c \<le> b then (if b \<ge> 2 ^ 32 then b - 2 ^ 32 else b) else b + 2 ^ 32)"

lemma unat_unwrap:
  assumes ck: "unat ck < 2 ^ 64 - 2 ^ 32"
  shows "unat (unwrap n isn ck) = unwrap_nat (unat (wi_diff n isn)) (unat ck)"
proof -
  define a where "a = (ucast (wi_diff n isn) :: uint64)"
  define b where "b = a + (ck AND 0xffffffff00000000)"
  have a: "unat a = unat (wi_diff n isn)" "unat a < 2 ^ 32"
    using unsigned_less [of "wi_diff n isn", where 'a = nat] by (simp_all add: a_def)
  then have "unat a + (unat ck - unat ck mod 2 ^ 32) < 2 ^ 64 - 2 ^ 32"
    using div_less_high [OF ck] by simp
  then have b: "unat b = unat a + (unat ck - unat ck mod 2 ^ 32)" "unat b < 2 ^ 64 - 2 ^ 32"
    by (simp_all add: b_def unat_word_ariths unat_high_half)
  have p: "unat (push_bit 32 1 :: uint64) = 2 ^ 32" "unat (push_bit 32 1 div 2 :: uint64) = 2 ^ 31"
    by simp_all
  have diff: "unat (max ck b - min ck b) = max (unat ck) (unat b) - min (unat ck) (unat b)"
    by (auto simp: max_def min_def word_le_nat_alt unat_sub)
  have up: "unat (b + push_bit 32 1) = unat b + 2 ^ 32"
    using b(2) by (simp add: unat_word_ariths)
  have down: "push_bit 32 1 \<le> b \<Longrightarrow> unat (b - push_bit 32 1) = unat b - 2 ^ 32"
    by (simp add: unat_sub)
  have "unwrap n isn ck =
      (if ck \<le> a then a
       else if max ck b - min ck b \<le> push_bit 32 1 div 2 then b
       else if ck \<le> b then (if push_bit 32 1 \<le> b then b - push_bit 32 1 else b)
       else b + push_bit 32 1)"
    by (simp only: unwrap_def Let_def a_def b_def)
  moreover have "unwrap_nat (unat a) (unat ck) =
      (if unat ck \<le> unat a then unat a
       else if max (unat ck) (unat b) - min (unat ck) (unat b) \<le> 2 ^ 31 then unat b
       else if unat ck \<le> unat b then (if 2 ^ 32 \<le> unat b then unat b - 2 ^ 32 else unat b)
       else unat b + 2 ^ 32)"
    by (simp only: unwrap_nat_def Let_def b(1))
  ultimately show ?thesis
    unfolding a(1) [symmetric] using up down by (simp only: word_le_nat_alt diff p split: if_split) simp
qed

lemma unwrap_nat_near:
  assumes "a < 2 ^ 32"
  shows "unwrap_nat a c mod 2 ^ 32 = a \<and>
    (unwrap_nat a c = a \<and> c \<le> a \<or> \<bar>int (unwrap_nat a c) - int c\<bar> \<le> 2 ^ 31)"
proof (cases "c \<le> a")
  case True
  with assms show ?thesis by (simp add: unwrap_nat_def)
next
  case False
  define h l where "h = c div 2 ^ 32" and "l = c mod 2 ^ 32"
  have c: "c = 2 ^ 32 * h + l" "l < 2 ^ 32" "c - c mod 2 ^ 32 = 2 ^ 32 * h"
    by (simp_all add: h_def l_def minus_mod_eq_mult_div)
  have "\<exists>k. unwrap_nat a c = a + 2 ^ 32 * k"
  proof -
    have "unwrap_nat a c = a + 2 ^ 32 * h \<or> unwrap_nat a c = a + 2 ^ 32 * (h - 1) \<or>
        unwrap_nat a c = a + 2 ^ 32 * (h + 1)"
      using False assms unfolding unwrap_nat_def Let_def c(3) by (cases h) auto
    then show ?thesis by blast
  qed
  moreover have "\<bar>int (unwrap_nat a c) - int c\<bar> \<le> 2 ^ 31"
    using False assms c unfolding unwrap_nat_def Let_def c(3)
    by (cases h) (auto simp: max_def min_def)
  ultimately show ?thesis using assms by auto
qed

lemma same_mod_apart:
  fixes u y m :: nat
  assumes "u mod m = y mod m"
  shows "y = u \<or> y + m \<le> u \<or> u + m \<le> y"
proof -
  have "m \<le> y - u" if "u < y"
    using that assms by (intro dvd_imp_le) (auto simp: mod_eq_dvd_iff_nat dest: sym)
  moreover have "m \<le> u - y" if "y < u"
    using that assms by (intro dvd_imp_le) (auto simp: mod_eq_dvd_iff_nat)
  ultimately show ?thesis by (cases u y rule: linorder_cases) auto
qed

lemma unwrap_nat_closest:
  assumes "a < 2 ^ 32" "y mod 2 ^ 32 = a"
  shows "\<bar>int (unwrap_nat a c) - int c\<bar> \<le> \<bar>int y - int c\<bar>"
proof -
  define u where "u = unwrap_nat a c"
  note near = unwrap_nat_near [OF assms(1), of c, folded u_def]
  have "y = u \<or> y + 2 ^ 32 \<le> u \<or> u + 2 ^ 32 \<le> y"
    using near assms(2) by (intro same_mod_apart) simp
  then show ?thesis
    using near assms unfolding u_def [symmetric] by auto
qed
section \<open>Sequence numbers as a codec\<close>

text \<open>
  The stack converts its 64-bit counters at the point of use: \<open>wrap_abs\<close> and
  \<open>unwrap_abs\<close> are \<^const>\<open>wrap\<close> and \<^const>\<open>unwrap\<close> between counters.
\<close>

definition wrap_abs :: "size_t \<Rightarrow> WrappingInt32 \<Rightarrow> WrappingInt32" where
  "wrap_abs n isn = wrap (of_nat n) isn"

definition unwrap_abs :: "WrappingInt32 \<Rightarrow> WrappingInt32 \<Rightarrow> size_t \<Rightarrow> size_t" where
  "unwrap_abs n isn checkpoint = unat (unwrap n isn (of_nat checkpoint))"

lemma raw_wrap_abs: "raw_value (wrap_abs n isn) = of_nat n + raw_value isn"
proof -
  have "unat (raw_value (wrap_abs n isn)) = (n mod 2 ^ 64 + unat (raw_value isn)) mod 2 ^ 32"
    by (simp add: wrap_abs_def unat_wrap unat_of_nat)
  also have "\<dots> = (n mod 2 ^ 64 mod 2 ^ 32 + unat (raw_value isn)) mod 2 ^ 32"
    by (simp only: mod_add_left_eq)
  also have "n mod 2 ^ 64 mod 2 ^ 32 = n mod 2 ^ 32"
    by (simp add: mod_mod_cancel)
  finally show ?thesis
    by (simp add: word_unat_eq_iff unat_word_ariths unat_of_nat mod_add_left_eq)
qed

lemma wrap_abs_zero: "wrap_abs 0 isn = isn"
  by (rule WrappingInt32.expand) (simp add: raw_wrap_abs)

lemma wi_plus_wrap_abs: "wi_plus (wrap_abs n isn) (of_nat k) = wrap_abs (n + k) isn"
  by (rule WrappingInt32.expand) (simp add: wi_plus_def raw_wrap_abs)

text \<open>
  What the sender and the receiver rely on: decoding near a checkpoint inverts encoding.
\<close>

locale seqno_codec =
  fixes enc :: "size_t \<Rightarrow> 'i \<Rightarrow> 'w" and dec :: "'w \<Rightarrow> 'i \<Rightarrow> size_t \<Rightarrow> size_t" and lim :: size_t
  assumes dec_enc: "x < lim \<Longrightarrow> c < lim \<Longrightarrow> x < c + 2 ^ 31 \<Longrightarrow> c < x + 2 ^ 31 \<Longrightarrow> dec (enc x i) i c = x"
begin

lemma enc_inj_near:
  assumes "x < lim" "y < lim" "x < y + 2 ^ 31" "y < x + 2 ^ 31" "enc x i = enc y i"
  shows "x = y"
proof -
  from assms(1) have "x = dec (enc x i) i x" by (simp add: dec_enc)
  also have "\<dots> = dec (enc y i) i x" by (simp add: assms(5))
  also have "\<dots> = y" using assms by (simp add: dec_enc)
  finally show ?thesis .
qed

end

lemma unwrap_wrap_near:
  assumes "unat ck < 2 ^ 64 - 2 ^ 32" "unat x < unat ck + 2 ^ 31" "unat ck < unat x + 2 ^ 31"
  shows "unwrap (wrap x isn) isn ck = x"
proof -
  define a u where "a = unat (wi_diff (wrap x isn) isn)" and "u = unwrap_nat a (unat ck)"
  have a: "unat x mod 2 ^ 32 = a" "a < 2 ^ 32"
    using wrap_eq_iff [of x isn "wrap x isn"] unfolding a_def
    by (simp_all add: unsigned_less [where 'b = 32 and 'a = nat, simplified])
  note near = unwrap_nat_near [OF a(2), of "unat ck", folded u_def]
  have "unat x = u \<or> unat x + 2 ^ 32 \<le> u \<or> u + 2 ^ 32 \<le> unat x"
    using near a(1) by (intro same_mod_apart) simp
  then have "unat x = u" using near assms a by (auto simp del: of_nat_unat)
  then show ?thesis
    using unat_unwrap [OF assms(1), of "wrap x isn" isn] by (simp add: word_unat_eq_iff u_def a_def)
qed

interpretation seqno: seqno_codec wrap_abs unwrap_abs "2 ^ 64 - 2 ^ 32"
proof unfold_locales
  fix x c :: nat and i
  assume "x < 2 ^ 64 - 2 ^ 32" "c < 2 ^ 64 - 2 ^ 32" "x < c + 2 ^ 31" "c < x + 2 ^ 31"
  then show "unwrap_abs (wrap_abs x i) i c = x"
    using unwrap_wrap_near [of "of_nat c" "of_nat x" i]
    by (simp add: unwrap_abs_def wrap_abs_def unat_of_nat)
qed

section \<open>Properties\<close>

text \<open>
  C12: the \<^const>\<open>unwrap\<close> function returns an absolute sequence number that wraps to the given
  one, and no other such number is closer to the checkpoint. The checkpoint lies below the last
  period of the 64-bit range, where the neighbouring candidates exist.
\<close>

theorem unwrap_closest:
  assumes "unat ck < 2 ^ 64 - 2 ^ 32"
  shows "wrap (unwrap n isn ck) isn = n \<and>
    (\<forall>y. wrap y isn = n \<longrightarrow>
      \<bar>uint (unwrap n isn ck) - uint ck\<bar> \<le> \<bar>uint y - uint ck\<bar>)"
proof -
  have a: "unat (wi_diff n isn) < 2 ^ 32"
    using unsigned_less [of "wi_diff n isn", where 'a = nat] by simp
  have u: "int (unat (unwrap n isn ck)) = int (unwrap_nat (unat (wi_diff n isn)) (unat ck))"
    by (simp only: unat_unwrap [OF assms])
  have "wrap (unwrap n isn ck) isn = n"
    using unwrap_nat_near [OF a, of "unat ck"] by (simp only: wrap_eq_iff unat_unwrap [OF assms])
  moreover have "\<bar>uint (unwrap n isn ck) - uint ck\<bar> \<le> \<bar>uint y - uint ck\<bar>" if "wrap y isn = n" for y
    using unwrap_nat_closest [OF a that [unfolded wrap_eq_iff], of "unat ck"] u by simp
  ultimately show ?thesis by blast
qed

theorem unwrap_closest_witness:
  "wrap (unwrap (WrappingInt32 5) (WrappingInt32 0xfffffff0) 0x300000000)
     (WrappingInt32 0xfffffff0) = WrappingInt32 5 \<and>
   unwrap (WrappingInt32 5) (WrappingInt32 0xfffffff0) 0x300000000 = 0x300000015"
  using unwrap_closest [of "0x300000000" "WrappingInt32 5" "WrappingInt32 0xfffffff0"]
  by (simp add: unwrap_def wi_diff_def Let_def)

text \<open>
  Sequence numbers survive the wire. Encoding an absolute sequence number and decoding it
  against any checkpoint less than half a period (2 GiB) away gives it back, whatever the initial
  sequence number.
\<close>

theorem unwrap_wrap_roundtrip:
  assumes "unat ck < 2 ^ 64 - 2 ^ 32" and "\<bar>uint x - uint ck\<bar> < 2 ^ 31"
  shows "unwrap (wrap x isn) isn ck = x"
proof (rule unwrap_wrap_near [OF assms(1)])
  have "\<bar>int (unat x) - int (unat ck)\<bar> < 2 ^ 31" using assms(2) by simp
  then show "unat x < unat ck + 2 ^ 31" and "unat ck < unat x + 2 ^ 31"
    by (auto simp del: of_nat_unat)
qed

theorem unwrap_wrap_roundtrip_witness:
  "unwrap (wrap 0x3fffffff0 (WrappingInt32 77)) (WrappingInt32 77) 0x400000005 = 0x3fffffff0"
  using unwrap_wrap_roundtrip [of "0x400000005" "0x3fffffff0" "WrappingInt32 77"] by simp

end
