(* ===== verification/TCP_Segment.thy ===== *)
theory TCP_Segment
  imports Checksum Wrapping_Integers
begin

text \<open>
  TCP headers and segments: \<open>tcp_helpers/tcp_header.hh\<close>, \<open>tcp_header.cc\<close>,
  \<open>tcp_segment.hh\<close> and \<open>tcp_segment.cc\<close>.
\<close>

section \<open>Headers\<close>

record tcp_header =
  th_sport :: uint16
  th_dport :: uint16
  th_seqno :: WrappingInt32
  th_ackno :: WrappingInt32
  th_doff :: byte
  th_urg :: bool
  th_ack :: bool
  th_psh :: bool
  th_rst :: bool
  th_syn :: bool
  th_fin :: bool
  th_win :: uint16
  th_cksum :: uint16
  th_uptr :: uint16

definition TCPHeader_LENGTH :: size_t where
  "TCPHeader_LENGTH = 20"

definition TCPHeader_default :: tcp_header where
  "TCPHeader_default =
     \<lparr>th_sport = 0, th_dport = 0, th_seqno = WrappingInt32 0, th_ackno = WrappingInt32 0,
      th_doff = of_nat (TCPHeader_LENGTH div 4), th_urg = False, th_ack = False, th_psh = False,
      th_rst = False, th_syn = False, th_fin = False, th_win = 0, th_cksum = 0, th_uptr = 0\<rparr>"

definition TCPHeader_parse :: "(tcp_header \<times> ParseResult) parser" where
  "TCPHeader_parse = do {
     sport \<leftarrow> NetParser_u16;
     dport \<leftarrow> NetParser_u16;
     seqno \<leftarrow> NetParser_u32;
     ackno \<leftarrow> NetParser_u32;
     off_b \<leftarrow> NetParser_u8;
     fl_b \<leftarrow> NetParser_u8;
     win \<leftarrow> NetParser_u16;
     cksum \<leftarrow> NetParser_u16;
     uptr \<leftarrow> NetParser_u16;
     let doff = drop_bit 4 off_b;
     let h = \<lparr>th_sport = sport, th_dport = dport, th_seqno = WrappingInt32 seqno,
              th_ackno = WrappingInt32 ackno, th_doff = doff,
              th_urg = (fl_b AND 0x20 \<noteq> 0), th_ack = (fl_b AND 0x10 \<noteq> 0),
              th_psh = (fl_b AND 0x08 \<noteq> 0), th_rst = (fl_b AND 0x04 \<noteq> 0),
              th_syn = (fl_b AND 0x02 \<noteq> 0), th_fin = (fl_b AND 0x01 \<noteq> 0),
              th_win = win, th_cksum = cksum, th_uptr = uptr\<rparr>;
     if doff < 5 then State_Monad.return (h, HeaderTooShort)
     else do {
       NetParser_remove_prefix (unat doff * 4 - TCPHeader_LENGTH);
       err \<leftarrow> NetParser_error;
       if err then do { res \<leftarrow> NetParser_get_error; State_Monad.return (h, res) }
       else State_Monad.return (h, NoError) } }"

definition TCPHeader_serialize :: "tcp_header \<Rightarrow> bytes result" where
  "TCPHeader_serialize h =
     (if th_doff h < 5 then Inl RuntimeError
      else
        let ret = NetUnparser_u16 [] (th_sport h);
            ret = NetUnparser_u16 ret (th_dport h);
            ret = NetUnparser_u32 ret (raw_value (th_seqno h));
            ret = NetUnparser_u32 ret (raw_value (th_ackno h));
            ret = NetUnparser_u8 ret (push_bit 4 (th_doff h));
            fl_b = (if th_urg h then 0x20 else 0) OR (if th_ack h then 0x10 else 0) OR
                   (if th_psh h then 0x08 else 0) OR (if th_rst h then 0x04 else 0) OR
                   (if th_syn h then 0x02 else 0) OR (if th_fin h then 0x01 else 0);
            ret = NetUnparser_u8 ret fl_b;
            ret = NetUnparser_u16 ret (th_win h);
            ret = NetUnparser_u16 ret (th_cksum h);
            ret = NetUnparser_u16 ret (th_uptr h)
        in Inr (string_resize (4 * unat (th_doff h)) ret))"

definition TCPHeader_eq :: "tcp_header \<Rightarrow> tcp_header \<Rightarrow> bool" where
  "TCPHeader_eq h other \<longleftrightarrow>
     th_seqno h = th_seqno other \<and> th_ackno h = th_ackno other \<and> th_doff h = th_doff other \<and>
     th_urg h = th_urg other \<and> th_ack h = th_ack other \<and> th_psh h = th_psh other \<and>
     th_rst h = th_rst other \<and> th_syn h = th_syn other \<and> th_fin h = th_fin other \<and>
     th_win h = th_win other \<and> th_uptr h = th_uptr other"

section \<open>Segments\<close>

record tcp_segment =
  ts_header :: tcp_header
  ts_payload :: buffer

definition TCPSegment_default :: tcp_segment where
  "TCPSegment_default = \<lparr>ts_header = TCPHeader_default, ts_payload = Buffer_default\<rparr>"

definition TCPSegment_length_in_sequence_space :: "tcp_segment \<Rightarrow> size_t" where
  "TCPSegment_length_in_sequence_space seg =
     length (Buffer_str (ts_payload seg)) + (if th_syn (ts_header seg) then 1 else 0) +
       (if th_fin (ts_header seg) then 1 else 0)"

definition TCPSegment_parse ::
  "tcp_segment \<Rightarrow> buffer \<Rightarrow> uint32 \<Rightarrow> tcp_segment \<times> ParseResult" where
  "TCPSegment_parse seg buffer datagram_layer_checksum =
     (let check = InternetChecksum_add (InternetChecksum_new datagram_layer_checksum)
                    (Buffer_str buffer)
      in if InternetChecksum_value check \<noteq> 0 then (seg, BadChecksum)
         else
           let ((h, res), p) = run_state TCPHeader_parse (NetParser_new buffer)
           in (seg\<lparr>ts_header := h, ts_payload := np_buffer p\<rparr>, np_error p))"

definition TCPSegment_serialize :: "tcp_segment \<Rightarrow> uint32 \<Rightarrow> buffer_list result" where
  "TCPSegment_serialize seg datagram_layer_checksum =
     (let header_out = (ts_header seg)\<lparr>th_cksum := 0\<rparr>
      in bindR (TCPHeader_serialize header_out)
           (\<lambda>s0.
             let check = InternetChecksum_add (InternetChecksum_new datagram_layer_checksum) s0;
                 check = InternetChecksum_add check (Buffer_str (ts_payload seg));
                 header_out = header_out\<lparr>th_cksum := InternetChecksum_value check\<rparr>
             in bindR (TCPHeader_serialize header_out)
                  (\<lambda>s1. Inr (BufferList_append (BufferList_append [] (BufferList_new s1))
                              (BufferList_of_buffer (ts_payload seg))))))"

section \<open>The bytes of a header\<close>

definition flag_byte :: "tcp_header \<Rightarrow> byte" where
  "flag_byte h =
     (if th_urg h then 0x20 else 0) OR (if th_ack h then 0x10 else 0) OR
     (if th_psh h then 0x08 else 0) OR (if th_rst h then 0x04 else 0) OR
     (if th_syn h then 0x02 else 0) OR (if th_fin h then 0x01 else 0)"

text \<open>The 16 bytes before the checksum field.\<close>

definition header_prefix :: "tcp_header \<Rightarrow> bytes" where
  "header_prefix h =
     be_bytes (th_sport h) @ be_bytes (th_dport h) @ be_bytes (raw_value (th_seqno h)) @
     be_bytes (raw_value (th_ackno h)) @ push_bit 4 (th_doff h) # flag_byte h #
     be_bytes (th_win h)"

definition header_padding :: "tcp_header \<Rightarrow> bytes" where
  "header_padding h = replicate (4 * unat (th_doff h) - 20) 0"

lemma header_prefix_length [simp]: "length (header_prefix h) = 16"
  by (simp add: header_prefix_def)

lemma flag_byte_bits [simp]:
  "flag_byte h AND 0x20 \<noteq> 0 \<longleftrightarrow> th_urg h" "flag_byte h AND 0x10 \<noteq> 0 \<longleftrightarrow> th_ack h"
  "flag_byte h AND 0x08 \<noteq> 0 \<longleftrightarrow> th_psh h" "flag_byte h AND 0x04 \<noteq> 0 \<longleftrightarrow> th_rst h"
  "flag_byte h AND 0x02 \<noteq> 0 \<longleftrightarrow> th_syn h" "flag_byte h AND 1 \<noteq> 0 \<longleftrightarrow> th_fin h"
  unfolding flag_byte_def
  by (cases "th_urg h"; cases "th_ack h"; cases "th_psh h"; cases "th_rst h"; cases "th_syn h";
      cases "th_fin h"; simp)+

lemma doff_nibble: "d < (16 :: byte) \<Longrightarrow> drop_bit 4 (push_bit 4 d) = d"
proof -
  assume "d < 16"
  then have "unat d < 16" by (simp add: word_less_nat_alt)
  then have "unat (drop_bit 4 (push_bit 4 d)) = unat d"
    by (simp only: unat_drop_bit_eq unsigned_push_bit_eq)
       (simp add: drop_bit_eq_div push_bit_eq_mult take_bit_eq_mod)
  then show ?thesis by (simp only: word_unat_eq_iff)
qed

lemma TCPHeader_serialize_bytes:
  assumes "\<not> th_doff h < 5"
  shows "TCPHeader_serialize h =
    Inr (header_prefix h @ be_bytes (th_cksum h) @ be_bytes (th_uptr h) @ header_padding h)"
proof -
  have "5 \<le> unat (th_doff h)" using assms by (simp add: word_less_nat_alt not_less)
  then show ?thesis
    using assms
    by (simp add: TCPHeader_serialize_def Let_def string_resize_grow header_prefix_def
        header_padding_def flag_byte_def)
qed

lemma header_prefix_cksum [simp]:
  "header_prefix (h\<lparr>th_cksum := c\<rparr>) = header_prefix h"
  "header_padding (h\<lparr>th_cksum := c\<rparr>) = header_padding h"
  by (simp_all add: header_prefix_def header_padding_def flag_byte_def)

lemma TCPHeader_parse_bytes:
  assumes "\<not> th_doff h < 5" "th_doff h < 16"
  shows "parses TCPHeader_parse
    (header_prefix h @ be_bytes (th_cksum h) @ be_bytes (th_uptr h) @ header_padding h @ rest)
    (h, NoError) rest"
proof -
  have pad: "parses (NetParser_remove_prefix (unat (th_doff h) * 4 - TCPHeader_LENGTH))
      (header_padding h @ rest) () rest"
    by (rule parses_remove_prefix) (simp add: header_padding_def TCPHeader_LENGTH_def)
  show ?thesis
    unfolding TCPHeader_parse_def header_prefix_def append.assoc append_Cons
    apply ((rule parses_bind, rule parses_ints)+)
    apply (simp only: Let_def doff_nibble [OF assms(2)] assms(1) if_False flag_byte_bits)
    apply (rule parses_bind, rule pad)
    apply (rule parses_bind, rule parses_error)
    apply (simp only: if_False, rule parses_return, simp)
    done
qed


section \<open>Round trip\<close>

lemma TCPSegment_serialize_bytes:
  assumes "\<not> th_doff (ts_header seg) < 5"
    and fits: "unat ck + 65280 * (4 * unat (th_doff (ts_header seg)) +
      length (Buffer_str (ts_payload seg))) < 2 ^ 32"
  shows "\<exists>(cksum :: uint16) bl. TCPSegment_serialize seg ck = Inr bl \<and>
    BufferList_concatenate bl =
      header_prefix (ts_header seg) @ be_bytes cksum @ be_bytes (th_uptr (ts_header seg)) @
      header_padding (ts_header seg) @ Buffer_str (ts_payload seg) \<and>
    InternetChecksum_value (InternetChecksum_add (InternetChecksum_new ck)
      (BufferList_concatenate bl)) = 0"
proof -
  let ?h = "ts_header seg" and ?d = "Buffer_str (ts_payload seg)"
  let ?ys = "be_bytes (th_uptr ?h) @ header_padding ?h @ ?d"
  define cksum where "cksum = InternetChecksum_value
    (InternetChecksum_add (InternetChecksum_new ck) (header_prefix ?h @ [0, 0] @ ?ys))"
  have "5 \<le> unat (th_doff ?h)" using assms(1) by (simp add: word_less_nat_alt not_less)
  then have "length (header_prefix ?h) + length ?ys + 2 = 4 * unat (th_doff ?h) + length ?d"
    by (simp add: header_padding_def)
  with fits have "InternetChecksum_value (InternetChecksum_add (InternetChecksum_new ck)
      (header_prefix ?h @ be_bytes cksum @ ?ys)) = 0"
    by (intro checksum_inserted [OF _ _ cksum_def]) (simp_all only: header_prefix_length, simp)
  moreover have zero: "be_bytes (0 :: uint16) = [0, 0]" by (simp add: be_bytes_16)
  have "TCPSegment_serialize seg ck = Inr (BufferList_new (header_prefix ?h @ be_bytes cksum @
      be_bytes (th_uptr ?h) @ header_padding ?h) @ [ts_payload seg])"
    using assms(1)
    by (simp add: TCPSegment_serialize_def TCPHeader_serialize_bytes Let_def zero cksum_def
        BufferList_of_buffer_def flip: add_append)
  ultimately show ?thesis
    by (intro exI [of _ cksum]) auto
qed

lemma TCPSegment_parse_ok:
  assumes "InternetChecksum_value (InternetChecksum_add (InternetChecksum_new ck) (Buffer_str b)) = 0"
    and "parses TCPHeader_parse (Buffer_str b) (h, r) d" "buffer_ok b"
  shows "\<exists>payload. TCPSegment_parse seg b ck = (seg\<lparr>ts_header := h, ts_payload := payload\<rparr>, NoError) \<and>
    Buffer_str payload = d \<and> buffer_ok payload"
proof -
  from assms(2,3) obtain p where "run_state TCPHeader_parse (NetParser_new b) = ((h, r), p)"
    "parser_at d p" by (auto simp: parses_def dest!: spec [of _ "NetParser_new b"])
  with assms(1) show ?thesis by (auto simp: TCPSegment_parse_def parser_at_def)
qed

section \<open>Arbitrary input\<close>

text \<open>The parser in two parts: the fixed fields, then the options.\<close>

definition TCPHeader_fields :: "tcp_header parser" where
  "TCPHeader_fields = do {
     sport \<leftarrow> NetParser_u16;
     dport \<leftarrow> NetParser_u16;
     seqno \<leftarrow> NetParser_u32;
     ackno \<leftarrow> NetParser_u32;
     off_b \<leftarrow> NetParser_u8;
     fl_b \<leftarrow> NetParser_u8;
     win \<leftarrow> NetParser_u16;
     cksum \<leftarrow> NetParser_u16;
     uptr \<leftarrow> NetParser_u16;
     State_Monad.return
       \<lparr>th_sport = sport, th_dport = dport, th_seqno = WrappingInt32 seqno,
        th_ackno = WrappingInt32 ackno, th_doff = drop_bit 4 off_b,
        th_urg = (fl_b AND 0x20 \<noteq> 0), th_ack = (fl_b AND 0x10 \<noteq> 0),
        th_psh = (fl_b AND 0x08 \<noteq> 0), th_rst = (fl_b AND 0x04 \<noteq> 0),
        th_syn = (fl_b AND 0x02 \<noteq> 0), th_fin = (fl_b AND 0x01 \<noteq> 0),
        th_win = win, th_cksum = cksum, th_uptr = uptr\<rparr> }"

definition TCPHeader_options :: "tcp_header \<Rightarrow> (tcp_header \<times> ParseResult) parser" where
  "TCPHeader_options h =
     (if th_doff h < 5 then State_Monad.return (h, HeaderTooShort)
      else do {
        NetParser_remove_prefix (unat (th_doff h) * 4 - TCPHeader_LENGTH);
        err \<leftarrow> NetParser_error;
        if err then do { res \<leftarrow> NetParser_get_error; State_Monad.return (h, res) }
        else State_Monad.return (h, NoError) })"

lemma TCPHeader_parse_split:
  "TCPHeader_parse = State_Monad.bind TCPHeader_fields TCPHeader_options"
  by (simp only: TCPHeader_parse_def TCPHeader_fields_def TCPHeader_options_def Let_def
      State_Monad.bind_assoc State_Monad.bind_left_identity tcp_header.select_convs)

lemma needs_fields: "needs 20 TCPHeader_fields"
proof -
  have "needs (2 + (2 + (4 + (4 + (1 + (1 + (2 + (2 + (2 + 0))))))))) TCPHeader_fields"
    unfolding TCPHeader_fields_def by (intro parsing)
  then show ?thesis by simp
qed

lemma run_options:
  "run_state (TCPHeader_options h) p =
    (if th_doff h < 5 then ((h, HeaderTooShort), p)
     else let p' = snd (run_state (NetParser_remove_prefix (unat (th_doff h) * 4 - 20)) p)
          in ((h, np_error p'), p'))"
  by (simp add: TCPHeader_options_def run_error run_get_error split_def Let_def TCPHeader_LENGTH_def)

lemma fails_below_parse: "fails_below 20 TCPHeader_parse"
proof -
  have "fails_below 0 (TCPHeader_options h)" for h
    using needs_remove_prefix [of "unat (th_doff h) * 4 - 20"]
    by (auto simp: fails_below_def run_options needs_def Let_def)
  from fails_below_bind [OF needs_fields this] show ?thesis by (simp add: TCPHeader_parse_split)
qed

lemma parses_fields:
  assumes "20 \<le> length bs"
  shows "\<exists>h. parses TCPHeader_fields bs h (drop 20 bs) \<and> th_doff h = drop_bit 4 (bs ! 12)"
proof -
  have "\<exists>h. parses TCPHeader_fields bs h
    (drop 2 (drop 2 (drop 2 (drop 1 (drop 1 (drop 4 (drop 4 (drop 2 (drop 2 bs))))))))) \<and>
    th_doff h = drop_bit 4 (hd (drop 4 (drop 4 (drop 2 (drop 2 bs)))))"
    unfolding TCPHeader_fields_def
    apply (rule exI, rule conjI)
     apply (rule parses_bind, rule parses_any, use assms in simp)+
     apply (rule parses_return, rule refl)
    apply simp
    done
  then show ?thesis using assms by (simp add: hd_drop_conv_nth)
qed

lemma parse_error_cases:
  assumes "buffer_ok b"
  defines "doff \<equiv> drop_bit 4 (Buffer_str b ! 12)"
  shows "np_error (snd (run_state TCPHeader_parse (NetParser_new b))) =
    (if length (Buffer_str b) < 20 then PacketTooShort
     else if doff < 5 then NoError
     else if length (Buffer_str b) < 4 * unat doff then PacketTooShort else NoError)"
proof (cases "length (Buffer_str b) < 20")
  case True
  with fails_below_parse assms(1) show ?thesis
    by (simp add: fails_below_def NetParser_new_def Buffer_size_def)
next
  case False
  then obtain h where h: "parses TCPHeader_fields (Buffer_str b) h (drop 20 (Buffer_str b))"
    "th_doff h = doff" using parses_fields [of "Buffer_str b"] by (auto simp: doff_def)
  have "parser_at (Buffer_str b) (NetParser_new b)" using assms(1) by simp
  from run_parses [OF h(1) this] obtain p where
    p: "run_state TCPHeader_fields (NetParser_new b) = (h, p)" "parser_at (drop 20 (Buffer_str b)) p"
    by blast
  have "5 \<le> unat doff" if "\<not> doff < 5" using that by (simp add: word_less_nat_alt not_less)
  with False p h(2) show ?thesis
    by (auto simp: TCPHeader_parse_split run_options run_remove_prefix parser_at_def Buffer_size_def)
qed

text \<open>The bytes of a serialized segment, in whatever buffer they arrive.\<close>

lemma TCPSegment_parse_serialized:
  assumes "5 \<le> unat (th_doff (ts_header seg))" "unat (th_doff (ts_header seg)) < 16"
    and "unat ck + 65280 * (4 * unat (th_doff (ts_header seg)) +
      length (Buffer_str (ts_payload seg))) < 2 ^ 32"
  shows "\<exists>bl cksum. TCPSegment_serialize seg ck = Inr bl \<and>
    length (BufferList_concatenate bl) = 4 * unat (th_doff (ts_header seg)) + length (Buffer_str (ts_payload seg)) \<and>
    (\<forall>b. buffer_ok b \<longrightarrow> Buffer_str b = BufferList_concatenate bl \<longrightarrow>
      (\<exists>seg'. TCPSegment_parse seg0 b ck = (seg', NoError) \<and>
        ts_header seg' = (ts_header seg)\<lparr>th_cksum := cksum\<rparr> \<and>
        Buffer_str (ts_payload seg') = Buffer_str (ts_payload seg)))"
proof -
  let ?h = "ts_header seg" and ?d = "Buffer_str (ts_payload seg)"
  have doff: "\<not> th_doff ?h < 5" "th_doff ?h < 16"
    using assms(1,2) by (simp_all add: word_less_nat_alt)
  from TCPSegment_serialize_bytes [OF doff(1) assms(3)] obtain cksum bl where
    s: "TCPSegment_serialize seg ck = Inr bl"
    and bytes: "BufferList_concatenate bl = header_prefix ?h @ be_bytes (cksum :: uint16) @
      be_bytes (th_uptr ?h) @ header_padding ?h @ ?d"
    and check: "InternetChecksum_value (InternetChecksum_add (InternetChecksum_new ck)
      (BufferList_concatenate bl)) = 0" by blast
  have p: "parses TCPHeader_parse (BufferList_concatenate bl) (?h\<lparr>th_cksum := cksum\<rparr>, NoError) ?d"
    using TCPHeader_parse_bytes [of "?h\<lparr>th_cksum := cksum\<rparr>" ?d] doff by (simp add: bytes)
  have "\<exists>seg'. TCPSegment_parse seg0 b ck = (seg', NoError) \<and> ts_header seg' = ?h\<lparr>th_cksum := cksum\<rparr> \<and>
      Buffer_str (ts_payload seg') = ?d"
    if "buffer_ok b" "Buffer_str b = BufferList_concatenate bl" for b
    using TCPSegment_parse_ok [of ck b "?h\<lparr>th_cksum := cksum\<rparr>" NoError ?d seg0] check p that by auto
  moreover have "length (BufferList_concatenate bl) = 4 * unat (th_doff ?h) + length ?d"
    using assms(1) by (simp add: bytes header_padding_def)
  ultimately show ?thesis using s by blast
qed

section \<open>Properties\<close>

text \<open>
  C17: serialize and parse. A segment whose data offset is legal, and which is short enough for the
  32-bit checksum accumulator, serializes without an exception; parsing the bytes with the same
  pseudo-header checksum reports no error and returns the same header (up to the checksum field,
  which serialization fills in) and the same payload.
\<close>

theorem tcp_segment_roundtrip:
  assumes "5 \<le> unat (th_doff (ts_header seg))" "unat (th_doff (ts_header seg)) < 16"
    and "unat ck + 65280 * (4 * unat (th_doff (ts_header seg)) +
      length (Buffer_str (ts_payload seg))) < 2 ^ 32"
  shows "\<exists>bl seg' cksum. TCPSegment_serialize seg ck = Inr bl \<and>
    TCPSegment_parse seg0 (Buffer_new (BufferList_concatenate bl)) ck = (seg', NoError) \<and>
    ts_header seg' = (ts_header seg)\<lparr>th_cksum := cksum\<rparr> \<and>
    Buffer_str (ts_payload seg') = Buffer_str (ts_payload seg)"
proof -
  from TCPSegment_parse_serialized [OF assms, of seg0] obtain bl cksum where
    bl: "TCPSegment_serialize seg ck = Inr bl"
    "length (BufferList_concatenate bl) = 4 * unat (th_doff (ts_header seg)) + length (Buffer_str (ts_payload seg))"
    "\<forall>b. buffer_ok b \<longrightarrow> Buffer_str b = BufferList_concatenate bl \<longrightarrow>
      (\<exists>seg'. TCPSegment_parse seg0 b ck = (seg', NoError) \<and>
        ts_header seg' = (ts_header seg)\<lparr>th_cksum := cksum\<rparr> \<and>
        Buffer_str (ts_payload seg') = Buffer_str (ts_payload seg))" by blast
  have "buffer_ok (Buffer_new (BufferList_concatenate bl))" using bl(2) assms(3) by simp
  with bl(3) have "\<exists>seg'. TCPSegment_parse seg0 (Buffer_new (BufferList_concatenate bl)) ck = (seg', NoError) \<and>
      ts_header seg' = (ts_header seg)\<lparr>th_cksum := cksum\<rparr> \<and>
      Buffer_str (ts_payload seg') = Buffer_str (ts_payload seg)" by simp
  with bl(1) show ?thesis by blast
qed

theorem tcp_segment_roundtrip_witness:
  "\<exists>bl seg' cksum. TCPSegment_serialize
      \<lparr>ts_header = TCPHeader_default\<lparr>th_seqno := WrappingInt32 77, th_syn := True\<rparr>,
       ts_payload = Buffer_new [1, 2, 3]\<rparr> 11 = Inr bl \<and>
    TCPSegment_parse TCPSegment_default (Buffer_new (BufferList_concatenate bl)) 11 = (seg', NoError) \<and>
    ts_header seg' = TCPHeader_default\<lparr>th_seqno := WrappingInt32 77, th_syn := True, th_cksum := cksum\<rparr> \<and>
    Buffer_str (ts_payload seg') = [1, 2, 3]"
  using tcp_segment_roundtrip [of "\<lparr>ts_header = TCPHeader_default\<lparr>th_seqno := WrappingInt32 77,
    th_syn := True\<rparr>, ts_payload = Buffer_new [1, 2, 3]\<rparr>" 11 TCPSegment_default]
  by (simp add: TCPHeader_default_def TCPHeader_LENGTH_def)

text \<open>
  What parsing reports, on every input. A bad checksum leaves the segment as it was; otherwise
  a header that is cut off, or shorter than its data offset claims, is \<open>PacketTooShort\<close>.
  A data offset below the minimum is not reported: \<open>TCPSegment::parse\<close> drops the
  \<open>HeaderTooShort\<close> its header parser returns.
\<close>

theorem tcp_segment_parse_outcome:
  assumes "buffer_ok b"
  shows "snd (TCPSegment_parse seg b ck) =
    (if InternetChecksum_value (InternetChecksum_add (InternetChecksum_new ck) (Buffer_str b)) \<noteq> 0
     then BadChecksum
     else if length (Buffer_str b) < 20 then PacketTooShort
     else if drop_bit 4 (Buffer_str b ! 12) < 5 then NoError
     else if length (Buffer_str b) < 4 * unat (drop_bit 4 (Buffer_str b ! 12)) then PacketTooShort
     else NoError)"
  using parse_error_cases [OF assms] by (simp add: TCPSegment_parse_def split_def Let_def)

theorem tcp_segment_parse_outcome_witness:
  "snd (TCPSegment_parse TCPSegment_default (Buffer_new [0xff, 0xff]) 0) = PacketTooShort"
proof -
  have "InternetChecksum_value (InternetChecksum_add (InternetChecksum_new 0) [0xff, 0xff]) = 0"
    by (simp add: value_zero_iff InternetChecksum_add_def InternetChecksum_new_def Let_def)
  with tcp_segment_parse_outcome [of "Buffer_new [0xff, 0xff]" TCPSegment_default 0]
  show ?thesis by simp
qed

end
