(* ===== verification/IPv4.thy ===== *)
theory IPv4
  imports TCP_Segment
begin

text \<open>
  IPv4 headers and datagrams: \<open>tcp_helpers/ipv4_header.hh\<close>, \<open>ipv4_header.cc\<close>,
  \<open>ipv4_datagram.hh\<close> and \<open>ipv4_datagram.cc\<close>.
\<close>

section \<open>Headers\<close>

record ipv4_header =
  ip_ver :: byte
  ip_hlen :: byte
  ip_tos :: byte
  ip_len :: uint16
  ip_id :: uint16
  ip_df :: bool
  ip_mf :: bool
  ip_offset :: uint16
  ip_ttl :: byte
  ip_proto :: byte
  ip_cksum :: uint16
  ip_src :: uint32
  ip_dst :: uint32

definition IPv4Header_LENGTH :: size_t where
  "IPv4Header_LENGTH = 20"

definition IPv4Header_DEFAULT_TTL :: byte where
  "IPv4Header_DEFAULT_TTL = 128"

definition IPv4Header_PROTO_TCP :: byte where
  "IPv4Header_PROTO_TCP = 6"

definition IPv4Header_default :: ipv4_header where
  "IPv4Header_default =
     \<lparr>ip_ver = 4, ip_hlen = of_nat (IPv4Header_LENGTH div 4), ip_tos = 0, ip_len = 0, ip_id = 0,
      ip_df = True, ip_mf = False, ip_offset = 0, ip_ttl = IPv4Header_DEFAULT_TTL,
      ip_proto = IPv4Header_PROTO_TCP, ip_cksum = 0, ip_src = 0, ip_dst = 0\<rparr>"

definition IPv4Header_parse :: "ipv4_header \<Rightarrow> (ipv4_header \<times> ParseResult) parser" where
  "IPv4Header_parse h0 = do {
     original_serialized_version \<leftarrow> NetParser_buffer;
     let data_size = Buffer_size original_serialized_version;
     if data_size < IPv4Header_LENGTH then State_Monad.return (h0, PacketTooShort)
     else do {
       first_byte \<leftarrow> NetParser_u8;
       tos \<leftarrow> NetParser_u8;
       len \<leftarrow> NetParser_u16;
       id \<leftarrow> NetParser_u16;
       fo_val \<leftarrow> NetParser_u16;
       ttl \<leftarrow> NetParser_u8;
       proto \<leftarrow> NetParser_u8;
       cksum \<leftarrow> NetParser_u16;
       src \<leftarrow> NetParser_u32;
       dst \<leftarrow> NetParser_u32;
       let ver = drop_bit 4 first_byte;
       let hlen = first_byte AND 0x0f;
       let h = \<lparr>ip_ver = ver, ip_hlen = hlen, ip_tos = tos, ip_len = len, ip_id = id,
                ip_df = (fo_val AND 0x4000 \<noteq> 0), ip_mf = (fo_val AND 0x2000 \<noteq> 0),
                ip_offset = fo_val AND 0x1fff, ip_ttl = ttl, ip_proto = proto,
                ip_cksum = cksum, ip_src = src, ip_dst = dst\<rparr>;
       if data_size < 4 * unat hlen then State_Monad.return (h, PacketTooShort)
       else if ver \<noteq> 4 then State_Monad.return (h, WrongIPVersion)
       else if hlen < 5 then State_Monad.return (h, HeaderTooShort)
       else if data_size \<noteq> unat len then State_Monad.return (h, TruncatedPacket)
       else do {
         NetParser_remove_prefix (unat hlen * 4 - IPv4Header_LENGTH);
         err \<leftarrow> NetParser_error;
         if err then do { res \<leftarrow> NetParser_get_error; State_Monad.return (h, res) }
         else
           let check = InternetChecksum_add (InternetChecksum_new 0)
                         (take (4 * unat hlen) (Buffer_str original_serialized_version))
           in if InternetChecksum_value check \<noteq> 0 then State_Monad.return (h, BadChecksum)
              else State_Monad.return (h, NoError) } } }"

definition IPv4Header_serialize :: "ipv4_header \<Rightarrow> bytes result" where
  "IPv4Header_serialize h =
     (if ip_ver h \<noteq> 4 then Inl RuntimeError
      else if 4 * unat (ip_hlen h) < IPv4Header_LENGTH then Inl RuntimeError
      else
        let first_byte = push_bit 4 (ip_ver h) OR (ip_hlen h AND 0xf);
            ret = NetUnparser_u8 [] first_byte;
            ret = NetUnparser_u8 ret (ip_tos h);
            ret = NetUnparser_u16 ret (ip_len h);
            ret = NetUnparser_u16 ret (ip_id h);
            fo_val = (if ip_df h then 0x4000 else 0) OR (if ip_mf h then 0x2000 else 0) OR
                     (ip_offset h AND 0x1fff);
            ret = NetUnparser_u16 ret fo_val;
            ret = NetUnparser_u8 ret (ip_ttl h);
            ret = NetUnparser_u8 ret (ip_proto h);
            ret = NetUnparser_u16 ret (ip_cksum h);
            ret = NetUnparser_u32 ret (ip_src h);
            ret = NetUnparser_u32 ret (ip_dst h)
        in Inr (string_resize (4 * unat (ip_hlen h)) ret))"

definition IPv4Header_payload_length :: "ipv4_header \<Rightarrow> uint16" where
  "IPv4Header_payload_length h = ip_len h - 4 * ucast (ip_hlen h)"

definition IPv4Header_pseudo_cksum :: "ipv4_header \<Rightarrow> uint32" where
  "IPv4Header_pseudo_cksum h =
     (let pcksum = drop_bit 16 (ip_src h) + (ip_src h AND 0xffff);
          pcksum = pcksum + (drop_bit 16 (ip_dst h) + (ip_dst h AND 0xffff));
          pcksum = pcksum + ucast (ip_proto h)
      in pcksum + ucast (IPv4Header_payload_length h))"

section \<open>Datagrams\<close>

record ipv4_datagram =
  dg_header :: ipv4_header
  dg_payload :: buffer_list

definition IPv4Datagram_default :: ipv4_datagram where
  "IPv4Datagram_default = \<lparr>dg_header = IPv4Header_default, dg_payload = []\<rparr>"

definition IPv4Datagram_parse :: "ipv4_datagram \<Rightarrow> buffer \<Rightarrow> ipv4_datagram \<times> ParseResult" where
  "IPv4Datagram_parse dg buffer =
     (let ((h, res), p) = run_state (IPv4Header_parse (dg_header dg)) (NetParser_new buffer);
          dg' = dg\<lparr>dg_header := h, dg_payload := BufferList_of_buffer (np_buffer p)\<rparr>
      in if BufferList_size (dg_payload dg') \<noteq> unat (IPv4Header_payload_length h)
         then (dg', PacketTooShort) else (dg', np_error p))"

definition IPv4Datagram_serialize :: "ipv4_datagram \<Rightarrow> buffer_list result" where
  "IPv4Datagram_serialize dg =
     (if BufferList_size (dg_payload dg) \<noteq> unat (IPv4Header_payload_length (dg_header dg))
      then Inl RuntimeError
      else
        let header_out = (dg_header dg)\<lparr>ip_cksum := 0\<rparr>
        in bindR (IPv4Header_serialize header_out)
             (\<lambda>header_zero_checksum.
               let check = InternetChecksum_add (InternetChecksum_new 0) header_zero_checksum;
                   header_out = header_out\<lparr>ip_cksum := InternetChecksum_value check\<rparr>
               in bindR (IPv4Header_serialize header_out)
                    (\<lambda>s. Inr (BufferList_append (BufferList_append [] (BufferList_new s))
                                (dg_payload dg)))))"

section \<open>The bytes of a header\<close>

definition fo_word :: "ipv4_header \<Rightarrow> uint16" where
  "fo_word h = (if ip_df h then 0x4000 else 0) OR (if ip_mf h then 0x2000 else 0) OR
     (ip_offset h AND 0x1fff)"

definition ip_first_byte :: "ipv4_header \<Rightarrow> byte" where
  "ip_first_byte h = push_bit 4 (ip_ver h) OR (ip_hlen h AND 0xf)"

text \<open>The 10 bytes before the checksum field.\<close>

definition ip_prefix :: "ipv4_header \<Rightarrow> bytes" where
  "ip_prefix h =
     ip_first_byte h # ip_tos h # be_bytes (ip_len h) @ be_bytes (ip_id h) @
     be_bytes (fo_word h) @ [ip_ttl h, ip_proto h]"

definition ip_padding :: "ipv4_header \<Rightarrow> bytes" where
  "ip_padding h = replicate (4 * unat (ip_hlen h) - 20) 0"

text \<open>The headers whose fields fit in their places on the wire.\<close>

definition ip_header_ok :: "ipv4_header \<Rightarrow> bool" where
  "ip_header_ok h \<longleftrightarrow>
     ip_ver h = 4 \<and> 5 \<le> unat (ip_hlen h) \<and> unat (ip_hlen h) < 16 \<and> unat (ip_offset h) < 0x2000"

lemma ip_prefix_length [simp]: "length (ip_prefix h) = 10"
  by (simp add: ip_prefix_def)

lemma ip_first_byte_fields:
  assumes "ip_header_ok h"
  shows "drop_bit 4 (ip_first_byte h) = ip_ver h" "ip_first_byte h AND 0x0f = ip_hlen h"
proof -
  have mask: "(0x0f :: byte) = mask 4" by (simp add: mask_eq_exp_minus_1)
  have h: "take_bit 4 (ip_hlen h) = ip_hlen h"
    using assms by (intro take_bit_self) (simp add: ip_header_ok_def)
  have "ip_first_byte h AND 0x0f = take_bit 4 (ip_hlen h)"
    unfolding ip_first_byte_def mask by (rule bit_word_eqI) (auto simp: bit_simps)
  with h show "ip_first_byte h AND 0x0f = ip_hlen h" by simp
  have v: "ip_ver h = 4" using assms by (simp add: ip_header_ok_def)
  show "drop_bit 4 (ip_first_byte h) = ip_ver h"
    unfolding ip_first_byte_def mask v by (rule bit_word_eqI) (auto simp: bit_simps)
qed

lemma fo_word_fields:
  assumes "ip_header_ok h"
  shows "fo_word h AND 0x4000 \<noteq> 0 \<longleftrightarrow> ip_df h" "fo_word h AND 0x2000 \<noteq> 0 \<longleftrightarrow> ip_mf h"
    "fo_word h AND 0x1fff = ip_offset h"
proof -
  have w: "(0x4000 :: uint16) = 2 ^ 14" "(0x2000 :: uint16) = 2 ^ 13" "(0x1fff :: uint16) = mask 13"
    by (simp_all add: mask_eq_exp_minus_1)
  have o: "take_bit 13 (ip_offset h) = ip_offset h"
    using assms by (intro take_bit_self) (simp add: ip_header_ok_def)
  have one: "bit (0x4000 :: uint16) n \<longleftrightarrow> n = 14" "bit (0x2000 :: uint16) n \<longleftrightarrow> n = 13" for n
    unfolding w(1,2) bit_exp_iff by auto
  have bits: "bit (fo_word h) n \<longleftrightarrow>
      n = 14 \<and> ip_df h \<or> n = 13 \<and> ip_mf h \<or> n < 13 \<and> bit (ip_offset h) n" for n
    unfolding fo_word_def by (auto simp: bit_or_iff bit_and_iff bit_mask_iff one w(3)
        simp del: bit_numeral_word_iff)
  show "fo_word h AND 0x4000 \<noteq> 0 \<longleftrightarrow> ip_df h" "fo_word h AND 0x2000 \<noteq> 0 \<longleftrightarrow> ip_mf h"
    unfolding w and_exp_eq_0_iff_not_bit by (simp_all add: bits)
  have "fo_word h AND 0x1fff = take_bit 13 (ip_offset h)"
    unfolding w by (rule bit_word_eqI) (auto simp: bits bit_simps)
  with o show "fo_word h AND 0x1fff = ip_offset h" by simp
qed

lemma IPv4Header_serialize_bytes:
  assumes "ip_header_ok h"
  shows "IPv4Header_serialize h =
    Inr (ip_prefix h @ be_bytes (ip_cksum h) @ be_bytes (ip_src h) @ be_bytes (ip_dst h) @ ip_padding h)"
  using assms
  by (simp add: IPv4Header_serialize_def Let_def string_resize_grow ip_prefix_def ip_padding_def
      ip_header_ok_def IPv4Header_LENGTH_def ip_first_byte_def fo_word_def)

lemma ip_prefix_cksum [simp]:
  "ip_prefix (h\<lparr>ip_cksum := c\<rparr>) = ip_prefix h" "ip_padding (h\<lparr>ip_cksum := c\<rparr>) = ip_padding h"
  "ip_header_ok (h\<lparr>ip_cksum := c\<rparr>) = ip_header_ok h"
  "IPv4Header_payload_length (h\<lparr>ip_cksum := c\<rparr>) = IPv4Header_payload_length h"
  by (simp_all add: ip_prefix_def ip_padding_def ip_first_byte_def fo_word_def ip_header_ok_def
      IPv4Header_payload_length_def)

section \<open>Parsing\<close>

text \<open>The parser in two parts: the fixed fields, then the checks and the options.\<close>

definition IPv4Header_fields :: "ipv4_header parser" where
  "IPv4Header_fields = do {
     first_byte \<leftarrow> NetParser_u8;
     tos \<leftarrow> NetParser_u8;
     len \<leftarrow> NetParser_u16;
     id \<leftarrow> NetParser_u16;
     fo_val \<leftarrow> NetParser_u16;
     ttl \<leftarrow> NetParser_u8;
     proto \<leftarrow> NetParser_u8;
     cksum \<leftarrow> NetParser_u16;
     src \<leftarrow> NetParser_u32;
     dst \<leftarrow> NetParser_u32;
     State_Monad.return
       \<lparr>ip_ver = drop_bit 4 first_byte, ip_hlen = first_byte AND 0x0f, ip_tos = tos, ip_len = len,
        ip_id = id, ip_df = (fo_val AND 0x4000 \<noteq> 0), ip_mf = (fo_val AND 0x2000 \<noteq> 0),
        ip_offset = fo_val AND 0x1fff, ip_ttl = ttl, ip_proto = proto, ip_cksum = cksum,
        ip_src = src, ip_dst = dst\<rparr> }"

definition IPv4Header_checks :: "bytes \<Rightarrow> ipv4_header \<Rightarrow> (ipv4_header \<times> ParseResult) parser" where
  "IPv4Header_checks bs h =
     (if length bs < 4 * unat (ip_hlen h) then State_Monad.return (h, PacketTooShort)
      else if ip_ver h \<noteq> 4 then State_Monad.return (h, WrongIPVersion)
      else if ip_hlen h < 5 then State_Monad.return (h, HeaderTooShort)
      else if length bs \<noteq> unat (ip_len h) then State_Monad.return (h, TruncatedPacket)
      else do {
        NetParser_remove_prefix (unat (ip_hlen h) * 4 - IPv4Header_LENGTH);
        err \<leftarrow> NetParser_error;
        if err then do { res \<leftarrow> NetParser_get_error; State_Monad.return (h, res) }
        else
          let check = InternetChecksum_add (InternetChecksum_new 0) (take (4 * unat (ip_hlen h)) bs)
          in if InternetChecksum_value check \<noteq> 0 then State_Monad.return (h, BadChecksum)
             else State_Monad.return (h, NoError) })"

lemma IPv4Header_parse_split:
  "IPv4Header_parse h0 = State_Monad.bind NetParser_buffer
     (\<lambda>b. if Buffer_size b < IPv4Header_LENGTH then State_Monad.return (h0, PacketTooShort)
          else State_Monad.bind IPv4Header_fields (IPv4Header_checks (Buffer_str b)))"
  by (simp only: IPv4Header_parse_def IPv4Header_fields_def IPv4Header_checks_def Let_def
      State_Monad.bind_assoc State_Monad.bind_left_identity ipv4_header.select_convs Buffer_size_def)

lemma parses_ip_fields:
  assumes "ip_header_ok h"
  shows "parses IPv4Header_fields
    (ip_prefix h @ be_bytes (ip_cksum h) @ be_bytes (ip_src h) @ be_bytes (ip_dst h) @ rest) h rest"
  unfolding IPv4Header_fields_def ip_prefix_def append.assoc append_Cons append_Nil
  apply ((rule parses_bind, rule parses_ints)+)
  apply (rule parses_return)
  apply (simp add: ip_first_byte_fields [OF assms] fo_word_fields [OF assms])
  done

lemma parses_ip_fields_any:
  assumes "20 \<le> length bs"
  shows "\<exists>h. parses IPv4Header_fields bs h (drop 20 bs) \<and> ip_ver h = drop_bit 4 (bs ! 0) \<and>
    ip_hlen h = bs ! 0 AND 0x0f \<and> ip_len h = be_value (take 2 (drop 2 bs))"
proof -
  have "\<exists>h. parses IPv4Header_fields bs h
    (drop 4 (drop 4 (drop 2 (drop 1 (drop 1 (drop 2 (drop 2 (drop 2 (drop 1 (drop 1 bs)))))))))) \<and>
    ip_ver h = drop_bit 4 (hd bs) \<and> ip_hlen h = hd bs AND 0x0f \<and>
    ip_len h = be_value (take 2 (drop 1 (drop 1 bs)))"
    unfolding IPv4Header_fields_def
    apply (rule exI, rule conjI)
     apply (rule parses_bind, rule parses_any, use assms in simp)+
     apply (rule parses_return, rule refl)
    apply simp
    done
  moreover have "hd bs = bs ! 0" using assms by (cases bs) auto
  ultimately show ?thesis by (simp add: numeral_2_eq_2)
qed

lemma parses_ip_checks:
  assumes "ip_header_ok h" "length bs = unat (ip_len h)" "4 * unat (ip_hlen h) \<le> length bs"
    and "InternetChecksum_value
      (InternetChecksum_add (InternetChecksum_new 0) (take (4 * unat (ip_hlen h)) bs)) = 0"
  shows "parses (IPv4Header_checks bs h) (ip_padding h @ rest) (h, NoError) rest"
proof -
  have "\<not> ip_hlen h < 5" "ip_ver h = 4"
    using assms(1) by (simp_all add: ip_header_ok_def word_less_nat_alt)
  then have run: "IPv4Header_checks bs h = State_Monad.bind
      (NetParser_remove_prefix (unat (ip_hlen h) * 4 - IPv4Header_LENGTH))
      (\<lambda>_. State_Monad.bind NetParser_error
        (\<lambda>err. if err then State_Monad.bind NetParser_get_error (\<lambda>res. State_Monad.return (h, res))
               else State_Monad.return (h, NoError)))"
    using assms(2-4) by (simp add: IPv4Header_checks_def Let_def cong: if_cong)
  have "parses (NetParser_remove_prefix (unat (ip_hlen h) * 4 - IPv4Header_LENGTH))
      (ip_padding h @ rest) () rest"
    by (rule parses_remove_prefix) (simp add: ip_padding_def IPv4Header_LENGTH_def)
  then show ?thesis
    unfolding run by (rule parses_bind) (rule parses_bind, rule parses_error, simp add: parses_return)
qed

text \<open>A well-formed datagram: the length field covers the header and the payload.\<close>

definition datagram_ok :: "ipv4_datagram \<Rightarrow> bool" where
  "datagram_ok dg \<longleftrightarrow>
     ip_header_ok (dg_header dg) \<and>
     unat (ip_len (dg_header dg)) =
       4 * unat (ip_hlen (dg_header dg)) + length (BufferList_concatenate (dg_payload dg))"

lemma datagram_payload_length:
  assumes "datagram_ok dg"
  shows "unat (IPv4Header_payload_length (dg_header dg)) =
    length (BufferList_concatenate (dg_payload dg))"
proof -
  let ?h = "dg_header dg"
  have len: "unat (ip_len ?h) = 4 * unat (ip_hlen ?h) + length (BufferList_concatenate (dg_payload dg))"
    and hl: "unat (ip_hlen ?h) < 16" using assms by (auto simp: datagram_ok_def ip_header_ok_def)
  have "unat (4 * ucast (ip_hlen ?h) :: uint16) = 4 * unat (ip_hlen ?h)"
    using hl by (simp add: unat_word_ariths unsigned_ucast_eq take_bit_eq_mod)
  moreover from this len have "(4 * ucast (ip_hlen ?h) :: uint16) \<le> ip_len ?h"
    by (simp add: word_le_nat_alt)
  ultimately show ?thesis using len by (simp add: IPv4Header_payload_length_def unat_sub)
qed

lemma IPv4Header_parse_bytes:
  assumes "ip_header_ok h" "length bs = unat (ip_len h)"
    and "bs = ip_prefix h @ be_bytes (ip_cksum h) @ be_bytes (ip_src h) @ be_bytes (ip_dst h) @
      ip_padding h @ rest"
    and "InternetChecksum_value
      (InternetChecksum_add (InternetChecksum_new 0) (take (4 * unat (ip_hlen h)) bs)) = 0"
  shows "parses (IPv4Header_parse h0) bs (h, NoError) rest"
  unfolding IPv4Header_parse_split
proof (rule parses_buffer)
  fix b
  assume b: "Buffer_str b = bs"
  have hl: "5 \<le> unat (ip_hlen h)" using assms(1) by (simp add: ip_header_ok_def)
  then have len: "4 * unat (ip_hlen h) \<le> length bs" by (simp add: assms(3) ip_padding_def)
  have "parses (State_Monad.bind IPv4Header_fields (IPv4Header_checks bs)) bs (h, NoError) rest"
    unfolding assms(3)
    by (rule parses_bind, rule parses_ip_fields [OF assms(1)])
       (use parses_ip_checks [OF assms(1,2) len assms(4)] in \<open>simp add: assms(3)\<close>)
  with b len hl show "parses (if Buffer_size b < IPv4Header_LENGTH
        then State_Monad.return (h0, PacketTooShort)
        else State_Monad.bind IPv4Header_fields (IPv4Header_checks (Buffer_str b)))
      bs (h, NoError) rest"
    by (simp add: Buffer_size_def IPv4Header_LENGTH_def)
qed

lemma IPv4Datagram_serialize_bytes:
  assumes "datagram_ok dg"
  shows "\<exists>(cksum :: uint16) bl. IPv4Datagram_serialize dg = Inr bl \<and>
    BufferList_concatenate bl =
      ip_prefix (dg_header dg) @ be_bytes cksum @ be_bytes (ip_src (dg_header dg)) @
      be_bytes (ip_dst (dg_header dg)) @ ip_padding (dg_header dg) @
      BufferList_concatenate (dg_payload dg) \<and>
    InternetChecksum_value (InternetChecksum_add (InternetChecksum_new 0)
      (take (4 * unat (ip_hlen (dg_header dg))) (BufferList_concatenate bl))) = 0"
proof -
  let ?h = "dg_header dg" and ?d = "BufferList_concatenate (dg_payload dg)"
  let ?ys = "be_bytes (ip_src ?h) @ be_bytes (ip_dst ?h) @ ip_padding ?h"
  define cksum where "cksum = InternetChecksum_value
    (InternetChecksum_add (InternetChecksum_new 0) (ip_prefix ?h @ [0, 0] @ ?ys))"
  have ok: "ip_header_ok ?h" "5 \<le> unat (ip_hlen ?h)" "unat (ip_hlen ?h) < 16"
    using assms by (auto simp: datagram_ok_def ip_header_ok_def)
  have len: "length (ip_prefix ?h) + length ?ys + 2 = 4 * unat (ip_hlen ?h)"
    using ok(2) by (simp add: ip_padding_def)
  have "InternetChecksum_value (InternetChecksum_add (InternetChecksum_new 0)
      (ip_prefix ?h @ be_bytes cksum @ ?ys)) = 0"
    by (rule checksum_inserted [OF _ _ cksum_def]) (use len ok(3) in simp_all)
  moreover have "take (4 * unat (ip_hlen ?h)) (ip_prefix ?h @ be_bytes cksum @ ?ys @ ?d) =
      ip_prefix ?h @ be_bytes cksum @ ?ys"
    using len by simp
  moreover have zero: "be_bytes (0 :: uint16) = [0, 0]" by (simp add: be_bytes_16)
  have "length ?d < 65536"
    using assms unsigned_less [of "ip_len ?h", where 'a = nat] by (simp add: datagram_ok_def)
  then have "IPv4Datagram_serialize dg = Inr (BufferList_new
      (ip_prefix ?h @ be_bytes cksum @ ?ys) @ dg_payload dg)"
    using ok(1) datagram_payload_length [OF assms]
    by (simp add: IPv4Datagram_serialize_def IPv4Header_serialize_bytes Let_def zero cksum_def
        BufferList_size_concatenate)
  ultimately show ?thesis by (intro exI [of _ cksum]) auto
qed

section \<open>Arbitrary input\<close>

lemma run_ip_checks:
  assumes "parser_at (drop 20 bs) p" "20 \<le> length bs"
  shows "run_state (IPv4Header_checks bs h) p =
    (if length bs < 4 * unat (ip_hlen h) then ((h, PacketTooShort), p)
     else if ip_ver h \<noteq> 4 then ((h, WrongIPVersion), p)
     else if ip_hlen h < 5 then ((h, HeaderTooShort), p)
     else if length bs \<noteq> unat (ip_len h) then ((h, TruncatedPacket), p)
     else ((h, if InternetChecksum_value (InternetChecksum_add (InternetChecksum_new 0)
                    (take (4 * unat (ip_hlen h)) bs)) \<noteq> 0 then BadChecksum else NoError),
           snd (run_state (NetParser_remove_prefix (unat (ip_hlen h) * 4 - 20)) p)))"
proof -
  have "np_error (snd (run_state (NetParser_remove_prefix (unat (ip_hlen h) * 4 - 20)) p)) = NoError"
    if "4 * unat (ip_hlen h) \<le> length bs"
  proof -
    have "unat (ip_hlen h) * 4 - 20 \<le> length (drop 20 bs)" using that by simp
    from run_parses [OF parses_remove_prefix_any [OF this] assms(1)] show ?thesis
      by (auto simp: parser_at_def)
  qed
  then show ?thesis
    by (simp add: IPv4Header_checks_def IPv4Header_LENGTH_def run_error split_def Let_def)
qed

lemma run_ip_parse:
  assumes "buffer_ok b" "20 \<le> length (Buffer_str b)"
  shows "\<exists>h p. run_state (IPv4Header_parse h0) (NetParser_new b) =
      run_state (IPv4Header_checks (Buffer_str b) h) p \<and>
    parser_at (drop 20 (Buffer_str b)) p \<and> ip_ver h = drop_bit 4 (Buffer_str b ! 0) \<and>
    ip_hlen h = Buffer_str b ! 0 AND 0x0f \<and> ip_len h = be_value (take 2 (drop 2 (Buffer_str b)))"
proof -
  from parses_ip_fields_any [OF assms(2)] obtain h where
    h: "parses IPv4Header_fields (Buffer_str b) h (drop 20 (Buffer_str b))"
    "ip_ver h = drop_bit 4 (Buffer_str b ! 0)" "ip_hlen h = Buffer_str b ! 0 AND 0x0f"
    "ip_len h = be_value (take 2 (drop 2 (Buffer_str b)))" by blast
  have "parser_at (Buffer_str b) (NetParser_new b)" using assms(1) by simp
  from run_parses [OF h(1) this] obtain p where
    "run_state IPv4Header_fields (NetParser_new b) = (h, p)" "parser_at (drop 20 (Buffer_str b)) p"
    by blast
  with assms(2) h(2-) show ?thesis
    by (intro exI [of _ h] exI [of _ p])
       (simp add: IPv4Header_parse_split run_buffer NetParser_new_def Buffer_size_def
        IPv4Header_LENGTH_def)
qed

lemma IPv4Datagram_parse_serialized:
  assumes "datagram_ok dg"
  shows "\<exists>bl b cksum. IPv4Datagram_serialize dg = Inr bl \<and>
    IPv4Datagram_parse dg0 (Buffer_new (BufferList_concatenate bl)) =
      (dg0\<lparr>dg_header := (dg_header dg)\<lparr>ip_cksum := cksum\<rparr>, dg_payload := [b]\<rparr>, NoError) \<and>
    parses (IPv4Header_parse h0) (BufferList_concatenate bl) ((dg_header dg)\<lparr>ip_cksum := cksum\<rparr>, NoError)
      (BufferList_concatenate (dg_payload dg)) \<and>
    buffer_ok b \<and> Buffer_str b = BufferList_concatenate (dg_payload dg)"
proof -
  let ?h = "dg_header dg" and ?d = "BufferList_concatenate (dg_payload dg)"
  from IPv4Datagram_serialize_bytes [OF assms] obtain cksum bl where
    s: "IPv4Datagram_serialize dg = Inr bl"
    and bytes: "BufferList_concatenate bl = ip_prefix ?h @ be_bytes (cksum :: uint16) @
      be_bytes (ip_src ?h) @ be_bytes (ip_dst ?h) @ ip_padding ?h @ ?d"
    and check: "InternetChecksum_value (InternetChecksum_add (InternetChecksum_new 0)
      (take (4 * unat (ip_hlen ?h)) (BufferList_concatenate bl))) = 0" by blast
  have ok: "ip_header_ok ?h" "5 \<le> unat (ip_hlen ?h)"
    "unat (ip_len ?h) = 4 * unat (ip_hlen ?h) + length ?d"
    using assms by (auto simp: datagram_ok_def ip_header_ok_def)
  have len: "length (BufferList_concatenate bl) = unat (ip_len ?h)"
    using ok by (simp add: bytes ip_padding_def)
  have p: "parses (IPv4Header_parse h) (BufferList_concatenate bl)
      (?h\<lparr>ip_cksum := cksum\<rparr>, NoError) ?d" for h
    by (rule IPv4Header_parse_bytes) (use ok(1) len check in \<open>simp_all add: bytes\<close>)
  have small: "unat (ip_len ?h) < 65536"
    using unsigned_less [of "ip_len ?h", where 'a = nat] by simp
  with len have "parser_at (BufferList_concatenate bl)
      (NetParser_new (Buffer_new (BufferList_concatenate bl)))" by simp
  from run_parses [OF p [of "dg_header dg0"] this] obtain p' where
    "run_state (IPv4Header_parse (dg_header dg0))
      (NetParser_new (Buffer_new (BufferList_concatenate bl))) = ((?h\<lparr>ip_cksum := cksum\<rparr>, NoError), p')"
    "parser_at ?d p'" by blast
  with datagram_payload_length [OF assms] small ok(3)
  have "IPv4Datagram_parse dg0 (Buffer_new (BufferList_concatenate bl)) =
      (dg0\<lparr>dg_header := ?h\<lparr>ip_cksum := cksum\<rparr>, dg_payload := [np_buffer p']\<rparr>, NoError)"
    and "buffer_ok (np_buffer p')" "Buffer_str (np_buffer p') = ?d"
    by (simp_all add: IPv4Datagram_parse_def parser_at_def BufferList_of_buffer_def
        BufferList_size_concatenate)
  with s p [of h0] show ?thesis by blast
qed

section \<open>Properties\<close>

text \<open>
  C18: serialize and parse. A datagram whose fields fit in their places and whose length field
  covers header and payload serializes without an exception; its bytes parse without an error, the
  header (whose checksum verifies) comes back unchanged up to the checksum field and the payload
  byte for byte.
\<close>

theorem ipv4_datagram_roundtrip:
  assumes "datagram_ok dg"
  shows "\<exists>bl dg' cksum. IPv4Datagram_serialize dg = Inr bl \<and>
    IPv4Datagram_parse dg0 (Buffer_new (BufferList_concatenate bl)) = (dg', NoError) \<and>
    parses (IPv4Header_parse h0) (BufferList_concatenate bl) (dg_header dg', NoError)
      (BufferList_concatenate (dg_payload dg)) \<and>
    dg_header dg' = (dg_header dg)\<lparr>ip_cksum := cksum\<rparr> \<and>
    BufferList_concatenate (dg_payload dg') = BufferList_concatenate (dg_payload dg)"
  using IPv4Datagram_parse_serialized [OF assms, of dg0 h0] by auto

definition sample_datagram :: ipv4_datagram where
  "sample_datagram =
     \<lparr>dg_header = IPv4Header_default\<lparr>ip_len := 23, ip_src := 0x0a000001, ip_dst := 0x0a000002\<rparr>,
      dg_payload = [Buffer_new [1, 2, 3]]\<rparr>"

lemma sample_datagram_ok: "datagram_ok sample_datagram"
  by (simp add: datagram_ok_def sample_datagram_def ip_header_ok_def IPv4Header_default_def
      IPv4Header_LENGTH_def)

theorem ipv4_datagram_roundtrip_witness:
  "\<exists>bl dg'. IPv4Datagram_serialize sample_datagram = Inr bl \<and>
    IPv4Datagram_parse IPv4Datagram_default (Buffer_new (BufferList_concatenate bl)) = (dg', NoError) \<and>
    BufferList_concatenate (dg_payload dg') = [1, 2, 3]"
  using ipv4_datagram_roundtrip
    [OF sample_datagram_ok, of IPv4Datagram_default IPv4Header_default]
  by (auto simp: sample_datagram_def)

text \<open>
  The errors the header parser reports, on every input, in the order of the code: a packet
  shorter than the minimal or the claimed header, another version, a header length below the
  minimum, a length field different from the packet's size, a bad header checksum.
\<close>

theorem ipv4_header_parse_outcome:
  assumes "buffer_ok b"
  shows "snd (fst (run_state (IPv4Header_parse h0) (NetParser_new b))) =
    (if length (Buffer_str b) < 20 then PacketTooShort
     else if length (Buffer_str b) < 4 * unat (Buffer_str b ! 0 AND 0x0f) then PacketTooShort
     else if drop_bit 4 (Buffer_str b ! 0) \<noteq> 4 then WrongIPVersion
     else if Buffer_str b ! 0 AND 0x0f < 5 then HeaderTooShort
     else if length (Buffer_str b) \<noteq> unat (be_value (take 2 (drop 2 (Buffer_str b))) :: uint16)
       then TruncatedPacket
     else if InternetChecksum_value (InternetChecksum_add (InternetChecksum_new 0)
               (take (4 * unat (Buffer_str b ! 0 AND 0x0f)) (Buffer_str b))) \<noteq> 0
       then BadChecksum
     else NoError)"
proof (cases "length (Buffer_str b) < 20")
  case True
  then show ?thesis
    by (simp add: IPv4Header_parse_split run_buffer NetParser_new_def Buffer_size_def
        IPv4Header_LENGTH_def)
next
  case False
  then have len: "20 \<le> length (Buffer_str b)" by simp
  from run_ip_parse [OF assms this, of h0] obtain h p where
    p: "run_state (IPv4Header_parse h0) (NetParser_new b) =
        run_state (IPv4Header_checks (Buffer_str b) h) p" "parser_at (drop 20 (Buffer_str b)) p"
    and h: "ip_ver h = drop_bit 4 (Buffer_str b ! 0)" "ip_hlen h = Buffer_str b ! 0 AND 0x0f"
      "ip_len h = be_value (take 2 (drop 2 (Buffer_str b)))" by blast
  show ?thesis
    unfolding p(1) run_ip_checks [OF p(2) len] h
    by (simp only: False if_False if_distrib [of "\<lambda>x. snd (fst x)"] fst_conv snd_conv)
qed

theorem ipv4_header_parse_outcome_witness:
  "snd (fst (run_state (IPv4Header_parse IPv4Header_default)
     (NetParser_new (Buffer_new (0x65 # replicate 19 0))))) = WrongIPVersion"
  using ipv4_header_parse_outcome [of "Buffer_new (0x65 # replicate 19 0)" IPv4Header_default]
  by simp

text \<open>
  C19: \<open>IPv4Datagram::parse\<close> does not look at that result. For a packet with a minimal
  header it reports no error as soon as the length field agrees with the packet's size,
  whatever the version and the header checksum are.
\<close>

theorem ipv4_datagram_parse_ignores_header_errors:
  assumes "buffer_ok b" "20 \<le> length (Buffer_str b)" "length (Buffer_str b) < 2 ^ 16"
    and "Buffer_str b ! 0 AND 0x0f = 5"
  shows "snd (IPv4Datagram_parse dg b) =
    (if length (Buffer_str b) = unat (be_value (take 2 (drop 2 (Buffer_str b))) :: uint16)
     then NoError else PacketTooShort)"
proof -
  let ?bs = "Buffer_str b"
  from run_ip_parse [OF assms(1,2), of "dg_header dg"] obtain h p where
    p: "run_state (IPv4Header_parse (dg_header dg)) (NetParser_new b) =
        run_state (IPv4Header_checks ?bs h) p" "parser_at (drop 20 ?bs) p"
      "ip_hlen h = 5" "ip_len h = be_value (take 2 (drop 2 ?bs))"
    using assms(4) by auto
  have "parser_at (drop 20 ?bs) (snd (run_state (NetParser_remove_prefix 0) p))"
    using run_parses [OF parses_remove_prefix_any [of 0 "drop 20 ?bs"] p(2)] by auto
  then have r: "parser_at (drop 20 ?bs) (snd (run_state (IPv4Header_checks ?bs h) p))"
    "fst (fst (run_state (IPv4Header_checks ?bs h) p)) = h"
    unfolding run_ip_checks [OF p(2) assms(2)] using p(2,3) assms(2)
    by (simp_all only: split: if_split) simp_all
  have "length ?bs - 20 = unat (ip_len h - 20) \<longleftrightarrow> length ?bs = unat (ip_len h)"
  proof -
    have "length ?bs = unat (of_nat (length ?bs) :: uint16)"
      using assms(3) by (simp add: unsigned_of_nat take_bit_eq_mod)
    moreover have "unat (of_nat (length ?bs) - 20 :: uint16) = length ?bs - 20"
      using assms(2) calculation by (subst unat_sub) (simp_all add: word_le_nat_alt)
    moreover have "of_nat (length ?bs) - 20 = ip_len h - 20 \<longleftrightarrow> of_nat (length ?bs) = ip_len h"
      by simp
    ultimately show ?thesis by (simp only: word_unat_eq_iff)
  qed
  moreover have "snd (IPv4Datagram_parse dg b) =
      (if length ?bs - 20 = unat (ip_len h - 20) then NoError else PacketTooShort)"
    using r p(1,3) assms(2,3)
    by (simp add: IPv4Datagram_parse_def BufferList_of_buffer_def BufferList_size_concatenate
        IPv4Header_payload_length_def parser_at_def split_def)
  ultimately show ?thesis by (simp add: p(4))
qed

theorem ipv4_datagram_parse_ignores_header_errors_witness:
  "snd (IPv4Datagram_parse IPv4Datagram_default
     (Buffer_new (0x65 # 0 # 0 # 20 # replicate 16 0))) = NoError"
  using ipv4_datagram_parse_ignores_header_errors
    [of "Buffer_new (0x65 # 0 # 0 # 20 # replicate 16 0)" IPv4Datagram_default]
  by (simp add: be_value_def)

end
