(* ===== verification/Link_Layer.thy ===== *)
theory Link_Layer
  imports IPv4
begin

text \<open>
  Ethernet frames and ARP messages: \<open>tcp_helpers/ethernet_header\<close>,
  \<open>tcp_helpers/ethernet_frame\<close> and \<open>tcp_helpers/arp_message\<close>
  (\<open>.hh\<close> and \<open>.cc\<close>). An \<open>EthernetAddress\<close> is an array of six bytes,
  here a list whose length the well-formedness predicates fix.
\<close>

section \<open>Ethernet headers\<close>

type_synonym ethernet_address = bytes

definition ETHERNET_BROADCAST :: ethernet_address where
  "ETHERNET_BROADCAST = [0xff, 0xff, 0xff, 0xff, 0xff, 0xff]"

record ethernet_header =
  eh_dst :: ethernet_address
  eh_src :: ethernet_address
  eh_type :: uint16

definition EthernetHeader_LENGTH :: size_t where
  "EthernetHeader_LENGTH = 14"

definition EthernetHeader_TYPE_IPv4 :: uint16 where
  "EthernetHeader_TYPE_IPv4 = 0x800"

definition EthernetHeader_TYPE_ARP :: uint16 where
  "EthernetHeader_TYPE_ARP = 0x806"

definition EthernetHeader_default :: ethernet_header where
  "EthernetHeader_default = \<lparr>eh_dst = replicate 6 0, eh_src = replicate 6 0, eh_type = 0\<rparr>"

text \<open>The loop \<open>for (auto &byte : a) byte = p.u8();\<close> over an array.\<close>

fun NetParser_fill :: "bytes \<Rightarrow> bytes parser" where
  "NetParser_fill [] = State_Monad.return []"
| "NetParser_fill (_ # a) = do {
     b \<leftarrow> NetParser_u8;
     bs \<leftarrow> NetParser_fill a;
     State_Monad.return (b # bs) }"

definition EthernetHeader_parse :: "ethernet_header \<Rightarrow> (ethernet_header \<times> ParseResult) parser" where
  "EthernetHeader_parse h0 = do {
     b \<leftarrow> NetParser_buffer;
     if Buffer_size b < EthernetHeader_LENGTH then State_Monad.return (h0, PacketTooShort)
     else do {
       dst \<leftarrow> NetParser_fill (eh_dst h0);
       src \<leftarrow> NetParser_fill (eh_src h0);
       type \<leftarrow> NetParser_u16;
       err \<leftarrow> NetParser_get_error;
       State_Monad.return (\<lparr>eh_dst = dst, eh_src = src, eh_type = type\<rparr>, err) } }"

definition EthernetHeader_serialize :: "ethernet_header \<Rightarrow> bytes" where
  "EthernetHeader_serialize h =
     (let ret = foldl NetUnparser_u8 [] (eh_dst h);
          ret = foldl NetUnparser_u8 ret (eh_src h)
      in NetUnparser_u16 ret (eh_type h))"

section \<open>Ethernet frames\<close>

record ethernet_frame =
  ef_header :: ethernet_header
  ef_payload :: buffer_list

definition EthernetFrame_default :: ethernet_frame where
  "EthernetFrame_default = \<lparr>ef_header = EthernetHeader_default, ef_payload = []\<rparr>"

definition EthernetFrame_parse :: "ethernet_frame \<Rightarrow> buffer \<Rightarrow> ethernet_frame \<times> ParseResult" where
  "EthernetFrame_parse f buffer =
     (let ((h, res), p) = run_state (EthernetHeader_parse (ef_header f)) (NetParser_new buffer)
      in (f\<lparr>ef_header := h, ef_payload := BufferList_of_buffer (np_buffer p)\<rparr>, np_error p))"

definition EthernetFrame_serialize :: "ethernet_frame \<Rightarrow> buffer_list" where
  "EthernetFrame_serialize f =
     (let ret = [];
          ret = BufferList_append ret (BufferList_new (EthernetHeader_serialize (ef_header f)))
      in BufferList_append ret (ef_payload f))"

section \<open>ARP messages\<close>

record arp_message =
  arp_hardware_type :: uint16
  arp_protocol_type :: uint16
  arp_hardware_address_size :: byte
  arp_protocol_address_size :: byte
  arp_opcode :: uint16
  arp_sender_ethernet_address :: ethernet_address
  arp_sender_ip_address :: uint32
  arp_target_ethernet_address :: ethernet_address
  arp_target_ip_address :: uint32

definition ARPMessage_LENGTH :: size_t where
  "ARPMessage_LENGTH = 28"

definition ARPMessage_TYPE_ETHERNET :: uint16 where
  "ARPMessage_TYPE_ETHERNET = 1"

definition ARPMessage_OPCODE_REQUEST :: uint16 where
  "ARPMessage_OPCODE_REQUEST = 1"

definition ARPMessage_OPCODE_REPLY :: uint16 where
  "ARPMessage_OPCODE_REPLY = 2"

definition ARPMessage_default :: arp_message where
  "ARPMessage_default =
     \<lparr>arp_hardware_type = ARPMessage_TYPE_ETHERNET, arp_protocol_type = EthernetHeader_TYPE_IPv4,
      arp_hardware_address_size = 6, arp_protocol_address_size = 4, arp_opcode = 0,
      arp_sender_ethernet_address = replicate 6 0, arp_sender_ip_address = 0,
      arp_target_ethernet_address = replicate 6 0, arp_target_ip_address = 0\<rparr>"

definition ARPMessage_supported :: "arp_message \<Rightarrow> bool" where
  "ARPMessage_supported m \<longleftrightarrow>
     arp_hardware_type m = ARPMessage_TYPE_ETHERNET \<and>
     arp_protocol_type m = EthernetHeader_TYPE_IPv4 \<and>
     arp_hardware_address_size m = 6 \<and> arp_protocol_address_size m = 4 \<and>
     (arp_opcode m = ARPMessage_OPCODE_REQUEST \<or> arp_opcode m = ARPMessage_OPCODE_REPLY)"

definition ARPMessage_read :: "arp_message \<Rightarrow> (arp_message \<times> ParseResult) parser" where
  "ARPMessage_read m0 = do {
     b \<leftarrow> NetParser_buffer;
     if Buffer_size b < ARPMessage_LENGTH then State_Monad.return (m0, PacketTooShort)
     else do {
       hardware_type \<leftarrow> NetParser_u16;
       protocol_type \<leftarrow> NetParser_u16;
       hardware_address_size \<leftarrow> NetParser_u8;
       protocol_address_size \<leftarrow> NetParser_u8;
       opcode \<leftarrow> NetParser_u16;
       let m1 = m0\<lparr>arp_hardware_type := hardware_type, arp_protocol_type := protocol_type,
                  arp_hardware_address_size := hardware_address_size,
                  arp_protocol_address_size := protocol_address_size, arp_opcode := opcode\<rparr>;
       if \<not> ARPMessage_supported m1 then State_Monad.return (m1, Unsupported)
       else do {
         sender_ethernet_address \<leftarrow> NetParser_fill (arp_sender_ethernet_address m1);
         sender_ip_address \<leftarrow> NetParser_u32;
         target_ethernet_address \<leftarrow> NetParser_fill (arp_target_ethernet_address m1);
         target_ip_address \<leftarrow> NetParser_u32;
         err \<leftarrow> NetParser_get_error;
         State_Monad.return
           (m1\<lparr>arp_sender_ethernet_address := sender_ethernet_address,
               arp_sender_ip_address := sender_ip_address,
               arp_target_ethernet_address := target_ethernet_address,
               arp_target_ip_address := target_ip_address\<rparr>, err) } } }"

definition ARPMessage_parse :: "arp_message \<Rightarrow> buffer \<Rightarrow> arp_message \<times> ParseResult" where
  "ARPMessage_parse m0 buffer = fst (run_state (ARPMessage_read m0) (NetParser_new buffer))"

definition ARPMessage_serialize :: "arp_message \<Rightarrow> bytes result" where
  "ARPMessage_serialize m =
     (if \<not> ARPMessage_supported m then Inl RuntimeError
      else
        let ret = NetUnparser_u16 [] (arp_hardware_type m);
            ret = NetUnparser_u16 ret (arp_protocol_type m);
            ret = NetUnparser_u8 ret (arp_hardware_address_size m);
            ret = NetUnparser_u8 ret (arp_protocol_address_size m);
            ret = NetUnparser_u16 ret (arp_opcode m);
            ret = foldl NetUnparser_u8 ret (arp_sender_ethernet_address m);
            ret = NetUnparser_u32 ret (arp_sender_ip_address m);
            ret = foldl NetUnparser_u8 ret (arp_target_ethernet_address m)
        in Inr (NetUnparser_u32 ret (arp_target_ip_address m)))"

section \<open>Arrays of bytes\<close>

lemma foldl_u8: "foldl NetUnparser_u8 ret a = ret @ a"
  by (induction a arbitrary: ret) auto

lemma parses_fill: "length d = length a \<Longrightarrow> parses (NetParser_fill a) (d @ bs) d bs"
proof (induction a arbitrary: d)
  case Nil
  then show ?case by (simp add: parses_return)
next
  case (Cons x a)
  then obtain b d' where d: "d = b # d'" by (cases d) auto
  with Cons.prems have "parses (NetParser_fill a) (d' @ bs) d' bs" by (intro Cons.IH) simp
  from parses_bind [OF parses_ints(1) parses_bind [OF this parses_return [OF refl]]] show ?case
    by (simp add: d)
qed

section \<open>Well-formed values\<close>

definition ethernet_header_ok :: "ethernet_header \<Rightarrow> bool" where
  "ethernet_header_ok h \<longleftrightarrow> length (eh_dst h) = 6 \<and> length (eh_src h) = 6"

definition arp_ok :: "arp_message \<Rightarrow> bool" where
  "arp_ok m \<longleftrightarrow>
     length (arp_sender_ethernet_address m) = 6 \<and> length (arp_target_ethernet_address m) = 6"

lemma defaults_ok [simp]: "ethernet_header_ok EthernetHeader_default" "arp_ok ARPMessage_default"
  by (simp_all add: ethernet_header_ok_def EthernetHeader_default_def arp_ok_def ARPMessage_default_def)

lemma EthernetHeader_serialize_bytes:
  "EthernetHeader_serialize h = eh_dst h @ eh_src h @ be_bytes (eh_type h)"
  by (simp add: EthernetHeader_serialize_def foldl_u8)

lemma EthernetHeader_parse_bytes:
  assumes "ethernet_header_ok h" "ethernet_header_ok h0"
  shows "parses (EthernetHeader_parse h0) (EthernetHeader_serialize h @ rest) (h, NoError) rest"
  unfolding EthernetHeader_parse_def
proof (rule parses_buffer)
  fix b
  assume b: "Buffer_str b = EthernetHeader_serialize h @ rest"
  have "parses (do {
       dst \<leftarrow> NetParser_fill (eh_dst h0);
       src \<leftarrow> NetParser_fill (eh_src h0);
       type \<leftarrow> NetParser_u16;
       err \<leftarrow> NetParser_get_error;
       State_Monad.return (\<lparr>eh_dst = dst, eh_src = src, eh_type = type\<rparr>, err) })
     (eh_dst h @ eh_src h @ be_bytes (eh_type h) @ rest) (h, NoError) rest"
    apply (rule parses_bind, rule parses_fill, use assms in \<open>simp add: ethernet_header_ok_def\<close>)+
    apply (rule parses_bind, rule parses_ints)
    apply (rule parses_bind, rule parses_error)
    apply (rule parses_return, simp)
    done
  with b assms(1) show "parses (if Buffer_size b < EthernetHeader_LENGTH
      then State_Monad.return (h0, PacketTooShort)
      else do {
        dst \<leftarrow> NetParser_fill (eh_dst h0);
        src \<leftarrow> NetParser_fill (eh_src h0);
        type \<leftarrow> NetParser_u16;
        err \<leftarrow> NetParser_get_error;
        State_Monad.return (\<lparr>eh_dst = dst, eh_src = src, eh_type = type\<rparr>, err) })
     (EthernetHeader_serialize h @ rest) (h, NoError) rest"
    by (simp add: Buffer_size_def EthernetHeader_serialize_bytes EthernetHeader_LENGTH_def
        ethernet_header_ok_def)
qed

lemma EthernetFrame_parse_ok:
  assumes "ethernet_header_ok (ef_header f)" "ethernet_header_ok (ef_header f0)"
    and "length (BufferList_concatenate (EthernetFrame_serialize f)) < 2 ^ 64"
  shows "\<exists>b. EthernetFrame_parse f0 (Buffer_new (BufferList_concatenate (EthernetFrame_serialize f))) =
      (f0\<lparr>ef_header := ef_header f, ef_payload := [b]\<rparr>, NoError) \<and>
    buffer_ok b \<and> Buffer_str b = BufferList_concatenate (ef_payload f)"
proof -
  let ?bs = "EthernetHeader_serialize (ef_header f) @ BufferList_concatenate (ef_payload f)"
  have bytes: "BufferList_concatenate (EthernetFrame_serialize f) = ?bs"
    by (simp add: EthernetFrame_serialize_def)
  have "parser_at ?bs (NetParser_new (Buffer_new ?bs))" using assms(3) by (simp add: bytes)
  from run_parses [OF EthernetHeader_parse_bytes [OF assms(1,2)] this] show ?thesis
    unfolding bytes by (auto simp: EthernetFrame_parse_def parser_at_def BufferList_of_buffer_def)
qed

lemma ARPMessage_serialize_bytes:
  "ARPMessage_supported m \<Longrightarrow> ARPMessage_serialize m =
    Inr (be_bytes (arp_hardware_type m) @ be_bytes (arp_protocol_type m) @
      arp_hardware_address_size m # arp_protocol_address_size m # be_bytes (arp_opcode m) @
      arp_sender_ethernet_address m @ be_bytes (arp_sender_ip_address m) @
      arp_target_ethernet_address m @ be_bytes (arp_target_ip_address m))"
  by (simp add: ARPMessage_serialize_def foldl_u8)

lemma ARPMessage_parse_bytes:
  assumes "ARPMessage_supported m" "arp_ok m" "arp_ok m0" "ARPMessage_serialize m = Inr s"
  shows "ARPMessage_parse m0 (Buffer_new s) = (m, NoError)"
proof -
  have s: "s = be_bytes (arp_hardware_type m) @ be_bytes (arp_protocol_type m) @
      arp_hardware_address_size m # arp_protocol_address_size m # be_bytes (arp_opcode m) @
      arp_sender_ethernet_address m @ be_bytes (arp_sender_ip_address m) @
      arp_target_ethernet_address m @ be_bytes (arp_target_ip_address m) @ []"
    using assms(1,4) by (simp add: ARPMessage_serialize_bytes)
  have len: "length s = 28" using assms(2) by (simp add: s arp_ok_def)
  have n: "(Buffer_size b < ARPMessage_LENGTH) = False" if "Buffer_str b = s" for b
    using that len by (simp add: Buffer_size_def ARPMessage_LENGTH_def)
  have sup: "ARPMessage_supported (m0\<lparr>arp_hardware_type := arp_hardware_type m,
      arp_protocol_type := arp_protocol_type m,
      arp_hardware_address_size := arp_hardware_address_size m,
      arp_protocol_address_size := arp_protocol_address_size m, arp_opcode := arp_opcode m\<rparr>) = True"
    using assms(1) by (simp add: ARPMessage_supported_def)
  have "parses (ARPMessage_read m0) s (m, NoError) []"
    unfolding ARPMessage_read_def
    apply (rule parses_buffer, simp only: n if_False, unfold s)
    apply ((rule parses_bind, rule parses_ints)+)
    apply (simp only: Let_def sup not_True_eq_False if_False)
    apply (rule parses_bind, rule parses_fill, use assms(2,3) in \<open>simp add: arp_ok_def\<close>)
    apply (rule parses_bind, rule parses_ints)
    apply (rule parses_bind, rule parses_fill, use assms(2,3) in \<open>simp add: arp_ok_def\<close>)
    apply (rule parses_bind, rule parses_ints)
    apply (rule parses_bind, rule parses_error)
    apply (rule parses_return, simp)
    done
  moreover have "parser_at s (NetParser_new (Buffer_new s))" using len by simp
  ultimately show ?thesis using run_parses by (fastforce simp: ARPMessage_parse_def)
qed

section \<open>Properties\<close>

text \<open>
  Frames. A frame with six-byte addresses serializes to its header followed by its payload,
  and parsing those bytes gives back the header and the payload.
\<close>

theorem ethernet_frame_roundtrip:
  assumes "ethernet_header_ok (ef_header f)" "ethernet_header_ok (ef_header f0)"
    and "length (BufferList_concatenate (ef_payload f)) < 2 ^ 63"
  shows "\<exists>f'. EthernetFrame_parse f0 (Buffer_new (BufferList_concatenate (EthernetFrame_serialize f))) =
      (f', NoError) \<and>
    ef_header f' = ef_header f \<and>
    BufferList_concatenate (ef_payload f') = BufferList_concatenate (ef_payload f) \<and>
    length (BufferList_concatenate (EthernetFrame_serialize f)) =
      EthernetHeader_LENGTH + length (BufferList_concatenate (ef_payload f))"
proof -
  have len: "length (BufferList_concatenate (EthernetFrame_serialize f)) =
      EthernetHeader_LENGTH + length (BufferList_concatenate (ef_payload f))"
    using assms(1) by (simp add: EthernetFrame_serialize_def EthernetHeader_serialize_bytes
        EthernetHeader_LENGTH_def ethernet_header_ok_def)
  with EthernetFrame_parse_ok [OF assms(1,2)] assms(3) show ?thesis
    by (auto simp: EthernetHeader_LENGTH_def)
qed

theorem ethernet_frame_roundtrip_witness:
  "\<exists>f'. EthernetFrame_parse EthernetFrame_default (Buffer_new (BufferList_concatenate
        (EthernetFrame_serialize \<lparr>ef_header = EthernetHeader_default\<lparr>eh_type := 0x806\<rparr>,
           ef_payload = [Buffer_new [1], Buffer_new [2, 3]]\<rparr>))) = (f', NoError) \<and>
    BufferList_concatenate (ef_payload f') = [1, 2, 3]"
  using ethernet_frame_roundtrip [of "\<lparr>ef_header = EthernetHeader_default\<lparr>eh_type := 0x806\<rparr>,
      ef_payload = [Buffer_new [1], Buffer_new [2, 3]]\<rparr>" EthernetFrame_default]
  by (auto simp: EthernetFrame_default_def ethernet_header_ok_def EthernetHeader_default_def)

text \<open>
  A frame shorter than its header. \<open>EthernetHeader::parse\<close> returns
  \<open>PacketTooShort\<close> without recording it in the parser, and \<open>EthernetFrame::parse\<close>
  looks only at the parser: it reports \<open>NoError\<close>, keeps the old header and takes the bytes
  for payload.
\<close>

theorem ethernet_frame_short_accepted:
  assumes "length (Buffer_str b) < 14"
  shows "EthernetFrame_parse f b = (f\<lparr>ef_payload := [b]\<rparr>, NoError)"
  using assms
  by (simp add: EthernetFrame_parse_def EthernetHeader_parse_def run_buffer NetParser_new_def
      Buffer_size_def EthernetHeader_LENGTH_def BufferList_of_buffer_def)

theorem ethernet_frame_short_accepted_witness:
  "EthernetFrame_parse EthernetFrame_default (Buffer_new [1, 2]) =
     (EthernetFrame_default\<lparr>ef_payload := [Buffer_new [1, 2]]\<rparr>, NoError)"
  by (rule ethernet_frame_short_accepted) simp

text \<open>
  C20: ARP messages. A supported message (Ethernet and IPv4, request or reply) serializes to 28
  bytes that parse back to it; any other message is refused with an exception.
\<close>

theorem arp_roundtrip:
  assumes "arp_ok m" "arp_ok m0"
  shows "(if ARPMessage_supported m
    then \<exists>s. ARPMessage_serialize m = Inr s \<and> length s = ARPMessage_LENGTH \<and>
      ARPMessage_parse m0 (Buffer_new s) = (m, NoError)
    else ARPMessage_serialize m = Inl RuntimeError)"
proof (cases "ARPMessage_supported m")
  case True
  then show ?thesis
    using ARPMessage_parse_bytes [OF True assms] assms(1)
    by (simp add: ARPMessage_serialize_bytes arp_ok_def ARPMessage_LENGTH_def)
next
  case False
  then show ?thesis by (simp add: ARPMessage_serialize_def)
qed

theorem arp_roundtrip_witness:
  "\<exists>s. ARPMessage_serialize (ARPMessage_default\<lparr>arp_opcode := 2, arp_sender_ip_address := 7\<rparr>) = Inr s \<and>
    length s = 28 \<and> ARPMessage_parse ARPMessage_default (Buffer_new s) =
      (ARPMessage_default\<lparr>arp_opcode := 2, arp_sender_ip_address := 7\<rparr>, NoError)"
  using arp_roundtrip [of "ARPMessage_default\<lparr>arp_opcode := 2, arp_sender_ip_address := 7\<rparr>"
      ARPMessage_default]
  by (simp add: arp_ok_def ARPMessage_default_def ARPMessage_supported_def ARPMessage_LENGTH_def
      ARPMessage_OPCODE_REPLY_def)

end
