(* ===== verification/Network_Interface.thy ===== *)
theory Network_Interface
  imports Address Link_Layer
begin

text \<open>
  The interface between IP and Ethernet: \<open>network_interface.hh\<close> and
  \<open>network_interface.cc\<close>. The maps keyed by an IP address are partial functions, the queues lists.
  The operations are defined for every extension of the record, since the router's
  \<open>AsyncNetworkInterface\<close> derives from the class.
\<close>

section \<open>The model\<close>

definition TTL :: size_t where
  "TTL = 30000"

definition ARPTTL :: size_t where
  "ARPTTL = 5000"

record arp_map_item =
  am_mac_addr :: ethernet_address
  am_time_stamp :: size_t

record network_interface =
  ni_ethernet_address :: ethernet_address
  ni_ip_address :: address
  ni_frames_out :: "ethernet_frame list"
  ni_time :: size_t
  ni_map :: "uint32 \<rightharpoonup> arp_map_item"
  ni_arp_pending_ip :: "uint32 \<rightharpoonup> size_t"
  ni_arp_pending_dgram :: "uint32 \<rightharpoonup> ipv4_datagram list"

definition NetworkInterface_init :: "ethernet_address \<Rightarrow> address \<Rightarrow> network_interface" where
  "NetworkInterface_init ethernet_address ip_address =
     \<lparr>ni_ethernet_address = ethernet_address, ni_ip_address = ip_address, ni_frames_out = [],
      ni_time = 0, ni_map = Map.empty, ni_arp_pending_ip = Map.empty,
      ni_arp_pending_dgram = Map.empty\<rparr>"

text \<open>The constructor prints the address, which resolves it to text and may throw.\<close>

definition NetworkInterface_new ::
    "getnameinfo \<Rightarrow> ethernet_address \<Rightarrow> address \<Rightarrow> network_interface result" where
  "NetworkInterface_new gni ethernet_address ip_address =
     bindR (Address_ip gni ip_address) (\<lambda>_. Inr (NetworkInterface_init ethernet_address ip_address))"

definition NO_MAC :: ethernet_address where
  "NO_MAC = [0, 0, 0, 0, 0, 0]"

definition ethernetEqual :: "ethernet_address \<Rightarrow> ethernet_address \<Rightarrow> bool" where
  "ethernetEqual ea1 ea2 \<longleftrightarrow> list_all (\<lambda>i. ea1 ! i = ea2 ! i) [0..<6]"

definition NetworkInterface_map ::
    "'a network_interface_scheme \<Rightarrow> uint32 \<Rightarrow> ethernet_address \<times> 'a network_interface_scheme" where
  "NetworkInterface_map ni ip_address =
     (case ni_map ni ip_address of
        None \<Rightarrow> (NO_MAC, ni)
      | Some it \<Rightarrow>
          if sub64 (ni_time ni) (am_time_stamp it) > TTL
          then (NO_MAC, ni\<lparr>ni_map := (ni_map ni)(ip_address := None)\<rparr>)
          else (am_mac_addr it, ni))"

definition NetworkInterface_push ::
    "'a network_interface_scheme \<Rightarrow> uint16 \<Rightarrow> ethernet_address \<Rightarrow> buffer_list \<Rightarrow> 'a network_interface_scheme" where
  "NetworkInterface_push ni type dst payload =
     (let header = EthernetHeader_default\<lparr>eh_type := type, eh_src := ni_ethernet_address ni, eh_dst := dst\<rparr>
      in ni\<lparr>ni_frames_out := ni_frames_out ni @ [\<lparr>ef_header = header, ef_payload = payload\<rparr>]\<rparr>)"

definition NetworkInterface_send_arp ::
    "'a network_interface_scheme \<Rightarrow> uint32 \<Rightarrow> 'a network_interface_scheme result" where
  "NetworkInterface_send_arp ni ip_address =
     bindR (Address_ipv4_numeric (ni_ip_address ni)) (\<lambda>my_ip.
       let msg = ARPMessage_default
             \<lparr>arp_opcode := ARPMessage_OPCODE_REQUEST,
              arp_sender_ethernet_address := ni_ethernet_address ni, arp_sender_ip_address := my_ip,
              arp_target_ethernet_address := NO_MAC, arp_target_ip_address := ip_address\<rparr>
       in bindR (ARPMessage_serialize msg) (\<lambda>s.
            Inr (NetworkInterface_push ni EthernetHeader_TYPE_ARP ETHERNET_BROADCAST (BufferList_new s))))"

definition NetworkInterface_send_datagram ::
    "'a network_interface_scheme \<Rightarrow> ipv4_datagram \<Rightarrow> address \<Rightarrow> 'a network_interface_scheme result" where
  "NetworkInterface_send_datagram ni dgram next_hop =
     bindR (Address_ipv4_numeric next_hop) (\<lambda>next_hop_ip.
       let (mac, ni) = NetworkInterface_map ni next_hop_ip
       in if ethernetEqual mac NO_MAC then
            let q = (case ni_arp_pending_dgram ni next_hop_ip of None \<Rightarrow> [dgram] | Some q \<Rightarrow> q @ [dgram]);
                ni = ni\<lparr>ni_arp_pending_dgram := (ni_arp_pending_dgram ni)(next_hop_ip \<mapsto> q)\<rparr>
            in case ni_arp_pending_ip ni next_hop_ip of
                 Some t \<Rightarrow>
                   if sub64 (ni_time ni) t > ARPTTL
                   then NetworkInterface_send_arp
                          (ni\<lparr>ni_arp_pending_ip := (ni_arp_pending_ip ni)(next_hop_ip \<mapsto> ni_time ni)\<rparr>)
                          next_hop_ip
                   else Inr ni
               | None \<Rightarrow>
                   NetworkInterface_send_arp
                     (ni\<lparr>ni_arp_pending_ip := (ni_arp_pending_ip ni)(next_hop_ip \<mapsto> ni_time ni)\<rparr>)
                     next_hop_ip
          else bindR (IPv4Datagram_serialize dgram) (\<lambda>payload.
                 Inr (NetworkInterface_push ni EthernetHeader_TYPE_IPv4 mac payload)))"

text \<open>The loop that empties a queue of datagrams onto the link.\<close>

fun NetworkInterface_send_queue ::
    "'a network_interface_scheme \<Rightarrow> ethernet_address \<Rightarrow> ipv4_datagram list \<Rightarrow>
     'a network_interface_scheme result" where
  "NetworkInterface_send_queue ni mac [] = Inr ni"
| "NetworkInterface_send_queue ni mac (d # q) =
     bindR (IPv4Datagram_serialize d) (\<lambda>payload.
       NetworkInterface_send_queue (NetworkInterface_push ni EthernetHeader_TYPE_IPv4 mac payload) mac q)"

definition NetworkInterface_learn ::
    "'a network_interface_scheme \<Rightarrow> uint32 \<Rightarrow> ethernet_address \<Rightarrow> 'a network_interface_scheme result" where
  "NetworkInterface_learn ni ip mac =
     (let ni = ni\<lparr>ni_map := (ni_map ni)(ip \<mapsto> \<lparr>am_mac_addr = mac, am_time_stamp = ni_time ni\<rparr>)\<rparr>
      in case ni_arp_pending_ip ni ip of
           None \<Rightarrow> Inr ni
         | Some _ \<Rightarrow>
             let ni = ni\<lparr>ni_arp_pending_ip := (ni_arp_pending_ip ni)(ip := None)\<rparr>
             in case ni_arp_pending_dgram ni ip of
                  None \<Rightarrow> Inr ni
                | Some q \<Rightarrow>
                    bindR (NetworkInterface_send_queue ni mac q) (\<lambda>ni.
                      Inr (ni\<lparr>ni_arp_pending_dgram := (ni_arp_pending_dgram ni)(ip := None)\<rparr>)))"

definition NetworkInterface_reply ::
    "'a network_interface_scheme \<Rightarrow> arp_message \<Rightarrow> 'a network_interface_scheme result" where
  "NetworkInterface_reply ni amsg =
     (if arp_opcode amsg = ARPMessage_OPCODE_REQUEST then
        bindR (Address_ipv4_numeric (ni_ip_address ni)) (\<lambda>my_ip.
          if arp_target_ip_address amsg = my_ip then
            let reply = ARPMessage_default
                  \<lparr>arp_opcode := ARPMessage_OPCODE_REPLY,
                   arp_sender_ethernet_address := ni_ethernet_address ni, arp_sender_ip_address := my_ip,
                   arp_target_ethernet_address := arp_sender_ethernet_address amsg,
                   arp_target_ip_address := arp_sender_ip_address amsg\<rparr>
            in bindR (ARPMessage_serialize reply) (\<lambda>s.
                 Inr (NetworkInterface_push ni EthernetHeader_TYPE_ARP
                        (arp_sender_ethernet_address amsg) (BufferList_new s)))
          else Inr ni)
      else Inr ni)"

definition NetworkInterface_recv_frame ::
    "'a network_interface_scheme \<Rightarrow> ethernet_frame \<Rightarrow>
     (ipv4_datagram option \<times> 'a network_interface_scheme) result" where
  "NetworkInterface_recv_frame ni frame =
     (if eh_dst (ef_header frame) = ni_ethernet_address ni \<or> eh_dst (ef_header frame) = ETHERNET_BROADCAST
      then
        if eh_type (ef_header frame) = EthernetHeader_TYPE_IPv4 then
          bindR (BufferList_to_Buffer (ef_payload frame)) (\<lambda>b.
            let (dgram, res) = IPv4Datagram_parse IPv4Datagram_default b
            in if res = NoError then Inr (Some dgram, ni) else Inr (None, ni))
        else if eh_type (ef_header frame) = EthernetHeader_TYPE_ARP then
          bindR (BufferList_to_Buffer (ef_payload frame)) (\<lambda>b.
            let (amsg, res) = ARPMessage_parse ARPMessage_default b
            in if res = NoError then
                 bindR (NetworkInterface_learn ni (arp_sender_ip_address amsg)
                          (arp_sender_ethernet_address amsg)) (\<lambda>ni.
                 bindR (NetworkInterface_reply ni amsg) (\<lambda>ni. Inr (None, ni)))
               else Inr (None, ni))
        else Inr (None, ni)
      else Inr (None, ni))"

definition NetworkInterface_tick ::
    "'a network_interface_scheme \<Rightarrow> size_t \<Rightarrow> 'a network_interface_scheme" where
  "NetworkInterface_tick ni ms_since_last_tick = ni\<lparr>ni_time := add64 (ni_time ni) ms_since_last_tick\<rparr>"

section \<open>The frames of an interface\<close>

definition ni_frame ::
    "'a network_interface_scheme \<Rightarrow> uint16 \<Rightarrow> ethernet_address \<Rightarrow> buffer_list \<Rightarrow> ethernet_frame" where
  "ni_frame ni type dst payload =
     \<lparr>ef_header = \<lparr>eh_dst = dst, eh_src = ni_ethernet_address ni, eh_type = type\<rparr>, ef_payload = payload\<rparr>"

definition sendable :: "ipv4_datagram \<Rightarrow> bool" where
  "sendable d \<longleftrightarrow> (\<exists>payload. IPv4Datagram_serialize d = Inr payload)"

definition ni_datagram_frame ::
    "'a network_interface_scheme \<Rightarrow> ethernet_address \<Rightarrow> ipv4_datagram \<Rightarrow> ethernet_frame" where
  "ni_datagram_frame ni mac d =
     ni_frame ni EthernetHeader_TYPE_IPv4 mac (case IPv4Datagram_serialize d of Inr b \<Rightarrow> b | Inl _ \<Rightarrow> [])"

definition ni_my_ip :: "'a network_interface_scheme \<Rightarrow> uint32" where
  "ni_my_ip ni = (case Address_ipv4_numeric (ni_ip_address ni) of Inr ip \<Rightarrow> ip | Inl _ \<Rightarrow> 0)"

definition arp_of ::
    "'a network_interface_scheme \<Rightarrow> uint16 \<Rightarrow> ethernet_address \<Rightarrow> uint32 \<Rightarrow> arp_message" where
  "arp_of ni opcode mac ip =
     \<lparr>arp_hardware_type = ARPMessage_TYPE_ETHERNET, arp_protocol_type = EthernetHeader_TYPE_IPv4,
      arp_hardware_address_size = 6, arp_protocol_address_size = 4, arp_opcode = opcode,
      arp_sender_ethernet_address = ni_ethernet_address ni, arp_sender_ip_address = ni_my_ip ni,
      arp_target_ethernet_address = mac, arp_target_ip_address = ip\<rparr>"

definition ni_arp_frame ::
    "'a network_interface_scheme \<Rightarrow> ethernet_address \<Rightarrow> arp_message \<Rightarrow> ethernet_frame" where
  "ni_arp_frame ni dst m =
     ni_frame ni EthernetHeader_TYPE_ARP dst
       (case ARPMessage_serialize m of Inr s \<Rightarrow> BufferList_new s | Inl _ \<Rightarrow> [])"

definition arp_request :: "'a network_interface_scheme \<Rightarrow> uint32 \<Rightarrow> ethernet_frame" where
  "arp_request ni ip = ni_arp_frame ni ETHERNET_BROADCAST (arp_of ni ARPMessage_OPCODE_REQUEST NO_MAC ip)"

definition arp_answer :: "'a network_interface_scheme \<Rightarrow> arp_message \<Rightarrow> ethernet_frame list" where
  "arp_answer ni m =
     (if arp_opcode m = ARPMessage_OPCODE_REQUEST \<and> arp_target_ip_address m = ni_my_ip ni
      then [ni_arp_frame ni (arp_sender_ethernet_address m)
             (arp_of ni ARPMessage_OPCODE_REPLY (arp_sender_ethernet_address m) (arp_sender_ip_address m))]
      else [])"

lemma push_frame:
  "NetworkInterface_push ni type dst payload =
    ni\<lparr>ni_frames_out := ni_frames_out ni @ [ni_frame ni type dst payload]\<rparr>"
  by (simp add: NetworkInterface_push_def ni_frame_def EthernetHeader_default_def)

lemma arp_of_serializes:
  "opcode = ARPMessage_OPCODE_REQUEST \<or> opcode = ARPMessage_OPCODE_REPLY \<Longrightarrow>
    \<exists>s. ARPMessage_serialize (arp_of ni opcode mac ip) = Inr s"
  by (simp add: ARPMessage_serialize_def ARPMessage_supported_def arp_of_def Let_def)

lemma frames_same:
  assumes "ni_ethernet_address ni' = ni_ethernet_address ni" "ni_ip_address ni' = ni_ip_address ni"
  shows "ni_frame ni' = ni_frame ni" "ni_datagram_frame ni' = ni_datagram_frame ni"
    "arp_request ni' = arp_request ni" "arp_answer ni' = arp_answer ni" "ni_my_ip ni' = ni_my_ip ni"
  using assms
  by (auto simp: fun_eq_iff ni_frame_def ni_datagram_frame_def arp_request_def arp_answer_def
      ni_arp_frame_def arp_of_def ni_my_ip_def)

lemma frames_update [simp]:
  "ni_frame (ni\<lparr>ni_frames_out := fs\<rparr>) = ni_frame ni"
  "ni_frame (ni\<lparr>ni_time := t\<rparr>) = ni_frame ni"
  "ni_frame (ni\<lparr>ni_map := m\<rparr>) = ni_frame ni"
  "ni_frame (ni\<lparr>ni_arp_pending_ip := pi\<rparr>) = ni_frame ni"
  "ni_frame (ni\<lparr>ni_arp_pending_dgram := pd\<rparr>) = ni_frame ni"
  "ni_datagram_frame (ni\<lparr>ni_frames_out := fs\<rparr>) = ni_datagram_frame ni"
  "ni_datagram_frame (ni\<lparr>ni_time := t\<rparr>) = ni_datagram_frame ni"
  "ni_datagram_frame (ni\<lparr>ni_map := m\<rparr>) = ni_datagram_frame ni"
  "ni_datagram_frame (ni\<lparr>ni_arp_pending_ip := pi\<rparr>) = ni_datagram_frame ni"
  "ni_datagram_frame (ni\<lparr>ni_arp_pending_dgram := pd\<rparr>) = ni_datagram_frame ni"
  "arp_request (ni\<lparr>ni_frames_out := fs\<rparr>) = arp_request ni"
  "arp_request (ni\<lparr>ni_time := t\<rparr>) = arp_request ni"
  "arp_request (ni\<lparr>ni_map := m\<rparr>) = arp_request ni"
  "arp_request (ni\<lparr>ni_arp_pending_ip := pi\<rparr>) = arp_request ni"
  "arp_request (ni\<lparr>ni_arp_pending_dgram := pd\<rparr>) = arp_request ni"
  "arp_answer (ni\<lparr>ni_frames_out := fs\<rparr>) = arp_answer ni"
  "arp_answer (ni\<lparr>ni_time := t\<rparr>) = arp_answer ni"
  "arp_answer (ni\<lparr>ni_map := m\<rparr>) = arp_answer ni"
  "arp_answer (ni\<lparr>ni_arp_pending_ip := pi\<rparr>) = arp_answer ni"
  "arp_answer (ni\<lparr>ni_arp_pending_dgram := pd\<rparr>) = arp_answer ni"
  "ni_my_ip (ni\<lparr>ni_frames_out := fs\<rparr>) = ni_my_ip ni"
  "ni_my_ip (ni\<lparr>ni_time := t\<rparr>) = ni_my_ip ni"
  "ni_my_ip (ni\<lparr>ni_map := m\<rparr>) = ni_my_ip ni"
  "ni_my_ip (ni\<lparr>ni_arp_pending_ip := pi\<rparr>) = ni_my_ip ni"
  "ni_my_ip (ni\<lparr>ni_arp_pending_dgram := pd\<rparr>) = ni_my_ip ni"
  by (intro frames_same; simp)+

lemma send_arp_frame:
  assumes "Address_ipv4_numeric (ni_ip_address ni) = Inr my_ip"
  shows "NetworkInterface_send_arp ni ip = Inr (ni\<lparr>ni_frames_out := ni_frames_out ni @ [arp_request ni ip]\<rparr>)"
proof -
  obtain s where "ARPMessage_serialize (arp_of ni ARPMessage_OPCODE_REQUEST NO_MAC ip) = Inr s"
    using arp_of_serializes by blast
  moreover from this assms have "ARPMessage_serialize (ARPMessage_default
      \<lparr>arp_opcode := ARPMessage_OPCODE_REQUEST,
       arp_sender_ethernet_address := ni_ethernet_address ni, arp_sender_ip_address := my_ip,
       arp_target_ethernet_address := NO_MAC, arp_target_ip_address := ip\<rparr>) = Inr s"
    by (simp add: arp_of_def ni_my_ip_def ARPMessage_default_def)
  ultimately show ?thesis
    using assms by (simp add: NetworkInterface_send_arp_def push_frame arp_request_def ni_arp_frame_def)
qed

lemma reply_frame:
  assumes "Address_ipv4_numeric (ni_ip_address ni) = Inr my_ip"
  shows "NetworkInterface_reply ni m = Inr (ni\<lparr>ni_frames_out := ni_frames_out ni @ arp_answer ni m\<rparr>)"
proof -
  let ?mac = "arp_sender_ethernet_address m" and ?ip = "arp_sender_ip_address m"
  obtain s where "ARPMessage_serialize (arp_of ni ARPMessage_OPCODE_REPLY ?mac ?ip) = Inr s"
    using arp_of_serializes by blast
  moreover from this assms have "ARPMessage_serialize (ARPMessage_default
      \<lparr>arp_opcode := ARPMessage_OPCODE_REPLY,
       arp_sender_ethernet_address := ni_ethernet_address ni, arp_sender_ip_address := my_ip,
       arp_target_ethernet_address := ?mac, arp_target_ip_address := ?ip\<rparr>) = Inr s"
    by (simp add: arp_of_def ni_my_ip_def ARPMessage_default_def)
  ultimately show ?thesis
    using assms by (simp add: NetworkInterface_reply_def push_frame arp_answer_def ni_arp_frame_def ni_my_ip_def)
qed

lemma serialize_throws: "\<not> sendable d \<Longrightarrow> IPv4Datagram_serialize d = Inl RuntimeError"
  by (auto simp: sendable_def IPv4Datagram_serialize_def IPv4Header_serialize_def Let_def split: if_splits)

lemma send_queue_frames:
  "NetworkInterface_send_queue ni mac q =
    (if \<forall>d\<in>set q. sendable d
     then Inr (ni\<lparr>ni_frames_out := ni_frames_out ni @ map (ni_datagram_frame ni mac) q\<rparr>)
     else Inl RuntimeError)"
proof (induction q arbitrary: ni)
  case (Cons d q)
  show ?case
  proof (cases "sendable d")
    case True
    then obtain payload where d: "IPv4Datagram_serialize d = Inr payload" by (auto simp: sendable_def)
    then have "ni_frame ni EthernetHeader_TYPE_IPv4 mac payload = ni_datagram_frame ni mac d"
      by (simp add: ni_datagram_frame_def)
    with Cons d True show ?thesis by (simp add: push_frame)
  qed (simp add: serialize_throws)
qed simp

section \<open>The invariant\<close>

text \<open>
  A consistent interface: requests and queues go together, queues are not empty, the cache holds
  Ethernet addresses of six bytes, and no time stamp lies in the future.
\<close>

definition ni_wf :: "'a network_interface_scheme \<Rightarrow> bool" where
  "ni_wf ni \<longleftrightarrow>
     length (ni_ethernet_address ni) = 6 \<and>
     Address_ipv4_numeric (ni_ip_address ni) = Inr (ni_my_ip ni) \<and>
     dom (ni_arp_pending_ip ni) = dom (ni_arp_pending_dgram ni) \<and>
     (\<forall>ip q. ni_arp_pending_dgram ni ip = Some q \<longrightarrow> q \<noteq> []) \<and>
     (\<forall>ip t. ni_arp_pending_ip ni ip = Some t \<longrightarrow> t \<le> ni_time ni) \<and>
     (\<forall>ip it. ni_map ni ip = Some it \<longrightarrow> length (am_mac_addr it) = 6 \<and> am_time_stamp it \<le> ni_time ni) \<and>
     ni_time ni < 2 ^ 64"

text \<open>A consistent interface whose waiting datagrams can be serialized.\<close>

definition ni_inv :: "'a network_interface_scheme \<Rightarrow> bool" where
  "ni_inv ni \<longleftrightarrow>
     length (ni_ethernet_address ni) = 6 \<and>
     Address_ipv4_numeric (ni_ip_address ni) = Inr (ni_my_ip ni) \<and>
     dom (ni_arp_pending_ip ni) = dom (ni_arp_pending_dgram ni) \<and>
     (\<forall>ip q. ni_arp_pending_dgram ni ip = Some q \<longrightarrow> q \<noteq> [] \<and> (\<forall>d\<in>set q. sendable d)) \<and>
     (\<forall>ip t. ni_arp_pending_ip ni ip = Some t \<longrightarrow> t \<le> ni_time ni) \<and>
     (\<forall>ip it. ni_map ni ip = Some it \<longrightarrow> length (am_mac_addr it) = 6 \<and> am_time_stamp it \<le> ni_time ni) \<and>
     ni_time ni < 2 ^ 64"

text \<open>The queue for an address, and the Ethernet address the cache gives for it.\<close>

definition ni_pending :: "'a network_interface_scheme \<Rightarrow> uint32 \<Rightarrow> ipv4_datagram list" where
  "ni_pending ni ip = (case ni_arp_pending_dgram ni ip of None \<Rightarrow> [] | Some q \<Rightarrow> q)"

definition ni_mac :: "'a network_interface_scheme \<Rightarrow> uint32 \<Rightarrow> ethernet_address option" where
  "ni_mac ni ip =
     (case ni_map ni ip of
        None \<Rightarrow> None
      | Some it \<Rightarrow>
          if ni_time ni - am_time_stamp it \<le> TTL \<and> am_mac_addr it \<noteq> NO_MAC then Some (am_mac_addr it) else None)"

definition arp_waits :: "'a network_interface_scheme \<Rightarrow> uint32 \<Rightarrow> bool" where
  "arp_waits ni ip \<longleftrightarrow> (\<exists>t. ni_arp_pending_ip ni ip = Some t \<and> ni_time ni - t \<le> ARPTTL)"

definition ni_purge :: "'a network_interface_scheme \<Rightarrow> uint32 \<Rightarrow> 'a network_interface_scheme" where
  "ni_purge ni ip = snd (NetworkInterface_map ni ip)"

definition ni_enqueue ::
    "'a network_interface_scheme \<Rightarrow> uint32 \<Rightarrow> ipv4_datagram \<Rightarrow> 'a network_interface_scheme" where
  "ni_enqueue ni ip d =
     (ni_purge ni ip)\<lparr>ni_arp_pending_dgram := (ni_arp_pending_dgram ni)(ip \<mapsto> ni_pending ni ip @ [d])\<rparr>"

lemma mac_update [simp]:
  "ni_mac (ni\<lparr>ni_frames_out := fs\<rparr>) = ni_mac ni"
  "ni_mac (ni\<lparr>ni_arp_pending_ip := pi\<rparr>) = ni_mac ni"
  "ni_mac (ni\<lparr>ni_arp_pending_dgram := pd\<rparr>) = ni_mac ni"
  by (simp_all add: fun_eq_iff ni_mac_def split: option.split)

lemma pending_update [simp]:
  "ni_pending (ni\<lparr>ni_frames_out := fs\<rparr>) = ni_pending ni"
  "ni_pending (ni\<lparr>ni_arp_pending_ip := pi\<rparr>) = ni_pending ni"
  "ni_pending (ni\<lparr>ni_map := m\<rparr>) = ni_pending ni"
  "ni_pending (ni\<lparr>ni_time := t\<rparr>) = ni_pending ni"
  by (simp_all add: fun_eq_iff ni_pending_def)

lemma ethernetEqual_iff: "length a = 6 \<Longrightarrow> length b = 6 \<Longrightarrow> ethernetEqual a b \<longleftrightarrow> a = b"
  by (auto simp: ethernetEqual_def list_all_iff intro: nth_equalityI)

lemma NO_MAC_length [simp]: "length NO_MAC = 6"
  by (simp add: NO_MAC_def)

lemma purge_fields [simp]:
  "ni_ethernet_address (ni_purge ni ip) = ni_ethernet_address ni"
  "ni_ip_address (ni_purge ni ip) = ni_ip_address ni"
  "ni_frames_out (ni_purge ni ip) = ni_frames_out ni"
  "ni_time (ni_purge ni ip) = ni_time ni"
  "ni_arp_pending_ip (ni_purge ni ip) = ni_arp_pending_ip ni"
  "ni_arp_pending_dgram (ni_purge ni ip) = ni_arp_pending_dgram ni"
  "network_interface.more (ni_purge ni ip) = network_interface.more ni"
  by (simp_all add: ni_purge_def NetworkInterface_map_def split: option.split)

lemma frames_purge [simp]:
  "ni_frame (ni_purge ni ip) = ni_frame ni" "ni_datagram_frame (ni_purge ni ip) = ni_datagram_frame ni"
  "arp_request (ni_purge ni ip) = arp_request ni" "arp_answer (ni_purge ni ip) = arp_answer ni"
  "ni_my_ip (ni_purge ni ip) = ni_my_ip ni"
  by (intro frames_same; simp)+

lemma purge_map: "ni_map (ni_purge ni ip) ip' = ni_map ni ip' \<or> ni_map (ni_purge ni ip) ip' = None"
  by (simp add: ni_purge_def NetworkInterface_map_def split: option.split)

lemma inv_wf: "ni_inv ni \<Longrightarrow> ni_wf ni"
  by (auto simp: ni_inv_def ni_wf_def)

lemma inv_iff: "ni_inv ni \<longleftrightarrow> ni_wf ni \<and> (\<forall>ip. \<forall>d\<in>set (ni_pending ni ip). sendable d)"
proof -
  have "(\<forall>ip. \<forall>d\<in>set (ni_pending ni ip). sendable d) \<longleftrightarrow>
      (\<forall>ip q. ni_arp_pending_dgram ni ip = Some q \<longrightarrow> (\<forall>d\<in>set q. sendable d))"
    by (auto simp: ni_pending_def split: option.splits) metis+
  then show ?thesis by (auto simp: ni_inv_def ni_wf_def)
qed

lemma map_wf:
  assumes "ni_wf ni"
  shows "NetworkInterface_map ni ip = (mac, ni') \<Longrightarrow> ethernetEqual mac NO_MAC \<longleftrightarrow> ni_mac ni ip = None"
    and "ni_mac ni ip = Some mac \<Longrightarrow> NetworkInterface_map ni ip = (mac, ni)"
proof -
  have it: "sub64 (ni_time ni) (am_time_stamp it) = ni_time ni - am_time_stamp it \<and>
      (ethernetEqual (am_mac_addr it) NO_MAC \<longleftrightarrow> am_mac_addr it = NO_MAC)" if "ni_map ni ip = Some it" for it
    using that assms by (auto simp: ni_wf_def sub64_exact ethernetEqual_iff)
  have "ethernetEqual NO_MAC NO_MAC" by (simp add: ethernetEqual_iff)
  with it show "NetworkInterface_map ni ip = (mac, ni') \<Longrightarrow> ethernetEqual mac NO_MAC \<longleftrightarrow> ni_mac ni ip = None"
    and "ni_mac ni ip = Some mac \<Longrightarrow> NetworkInterface_map ni ip = (mac, ni)"
    by (auto simp: NetworkInterface_map_def ni_mac_def split: option.splits if_splits)
qed

lemmas map_mac = map_wf [OF inv_wf]

section \<open>What the operations do\<close>

definition ni_sent ::
    "'a network_interface_scheme \<Rightarrow> uint32 \<Rightarrow> ipv4_datagram \<Rightarrow> 'a network_interface_scheme" where
  "ni_sent ni ip d =
     (case ni_mac ni ip of
        Some mac \<Rightarrow> ni\<lparr>ni_frames_out := ni_frames_out ni @ [ni_datagram_frame ni mac d]\<rparr>
      | None \<Rightarrow>
          if arp_waits ni ip then ni_enqueue ni ip d
          else (ni_enqueue ni ip d)
            \<lparr>ni_arp_pending_ip := (ni_arp_pending_ip ni)(ip \<mapsto> ni_time ni),
             ni_frames_out := ni_frames_out ni @ [arp_request ni ip]\<rparr>)"

lemma send_datagram_wf:
  assumes "ni_wf ni"
  shows "NetworkInterface_send_datagram ni d (address_of_ipv4 ip) =
    (if ni_mac ni ip = None \<or> sendable d then Inr (ni_sent ni ip d) else Inl RuntimeError)"
proof (cases "ni_mac ni ip")
  case (Some mac)
  then have m: "NetworkInterface_map ni ip = (mac, ni)" by (rule map_wf(2) [OF assms])
  moreover have "\<not> ethernetEqual mac NO_MAC" using map_wf(1) [OF assms m] Some by simp
  moreover have "IPv4Datagram_serialize d =
      (if sendable d then Inr (case IPv4Datagram_serialize d of Inr p \<Rightarrow> p) else Inl RuntimeError)"
    using serialize_throws [of d] by (auto simp: sendable_def)
  ultimately show ?thesis
    using Some
    by (cases "sendable d")
       (auto simp: NetworkInterface_send_datagram_def push_frame ni_sent_def ni_datagram_frame_def sendable_def)
next
  case None
  obtain mac where m: "NetworkInterface_map ni ip = (mac, ni_purge ni ip)"
    by (metis ni_purge_def prod.collapse)
  with map_wf(1) [OF assms] None have mac: "ethernetEqual mac NO_MAC" by blast
  have q: "(case ni_arp_pending_dgram ni ip of None \<Rightarrow> [d] | Some q \<Rightarrow> q @ [d]) = ni_pending ni ip @ [d]"
    by (simp add: ni_pending_def split: option.split)
  have my: "Address_ipv4_numeric (ni_ip_address ni) = Inr (ni_my_ip ni)"
    and t: "ni_arp_pending_ip ni ip = Some t \<Longrightarrow> sub64 (ni_time ni) t = ni_time ni - t" for t
    using assms by (auto simp: ni_wf_def sub64_exact)
  note arp = send_arp_frame [where my_ip = "ni_my_ip ni"]
  show ?thesis
  proof (cases "ni_arp_pending_ip ni ip")
    case None
    then have "\<not> arp_waits ni ip" by (simp add: arp_waits_def)
    then show ?thesis
      using \<open>ni_mac ni ip = None\<close> None mac m my
      by (simp add: NetworkInterface_send_datagram_def q arp ni_sent_def ni_enqueue_def)
  next
    case (Some t0)
    then have "arp_waits ni ip \<longleftrightarrow> \<not> sub64 (ni_time ni) t0 > ARPTTL" using t [OF Some] by (auto simp: arp_waits_def)
    then show ?thesis
      using \<open>ni_mac ni ip = None\<close> Some mac m my
      by (simp add: NetworkInterface_send_datagram_def q arp ni_sent_def ni_enqueue_def)
  qed
qed

lemma send_datagram_sent:
  "ni_inv ni \<Longrightarrow> sendable d \<Longrightarrow>
    NetworkInterface_send_datagram ni d (address_of_ipv4 ip) = Inr (ni_sent ni ip d)"
  by (simp add: send_datagram_wf inv_wf)

definition ni_learned ::
    "'a network_interface_scheme \<Rightarrow> uint32 \<Rightarrow> ethernet_address \<Rightarrow> 'a network_interface_scheme" where
  "ni_learned ni ip mac =
     ni\<lparr>ni_map := (ni_map ni)(ip \<mapsto> \<lparr>am_mac_addr = mac, am_time_stamp = ni_time ni\<rparr>),
        ni_arp_pending_ip := (ni_arp_pending_ip ni)(ip := None),
        ni_arp_pending_dgram := (ni_arp_pending_dgram ni)(ip := None),
        ni_frames_out := ni_frames_out ni @ map (ni_datagram_frame ni mac) (ni_pending ni ip)\<rparr>"

lemma learn_wf:
  assumes "ni_wf ni"
  shows "NetworkInterface_learn ni ip mac =
    (if \<forall>d\<in>set (ni_pending ni ip). sendable d then Inr (ni_learned ni ip mac) else Inl RuntimeError)"
proof (cases "ni_arp_pending_ip ni ip")
  case None
  with assms have "ni_arp_pending_dgram ni ip = None" by (metis ni_wf_def domIff)
  with None have "(ni_arp_pending_ip ni)(ip := None) = ni_arp_pending_ip ni"
    "(ni_arp_pending_dgram ni)(ip := None) = ni_arp_pending_dgram ni" "ni_pending ni ip = []"
    by (auto simp: ni_pending_def)
  with None show ?thesis by (simp add: NetworkInterface_learn_def ni_learned_def)
next
  case (Some t)
  then have "ip \<in> dom (ni_arp_pending_dgram ni)" using assms by (auto simp: ni_wf_def)
  then obtain q where q: "ni_arp_pending_dgram ni ip = Some q" by auto
  with Some show ?thesis
    by (auto simp: NetworkInterface_learn_def ni_learned_def ni_pending_def send_queue_frames Let_def)
qed

text \<open>The ARP message an interface hears in a frame.\<close>

definition ni_hears :: "'a network_interface_scheme \<Rightarrow> ethernet_frame \<Rightarrow> arp_message option" where
  "ni_hears ni f =
     (if (eh_dst (ef_header f) = ni_ethernet_address ni \<or> eh_dst (ef_header f) = ETHERNET_BROADCAST) \<and>
         eh_type (ef_header f) = EthernetHeader_TYPE_ARP
      then case BufferList_to_Buffer (ef_payload f) of
          Inl _ \<Rightarrow> None
        | Inr b \<Rightarrow> (let (m, res) = ARPMessage_parse ARPMessage_default b in if res = NoError then Some m else None)
      else None)"

definition ni_heard :: "'a network_interface_scheme \<Rightarrow> arp_message \<Rightarrow> 'a network_interface_scheme" where
  "ni_heard ni m =
     (let ni' = ni_learned ni (arp_sender_ip_address m) (arp_sender_ethernet_address m)
      in ni'\<lparr>ni_frames_out := ni_frames_out ni' @ arp_answer ni m\<rparr>)"

text \<open>The datagram an interface passes up.\<close>

definition ni_accepts :: "'a network_interface_scheme \<Rightarrow> ethernet_frame \<Rightarrow> ipv4_datagram option" where
  "ni_accepts ni f =
     (if (eh_dst (ef_header f) = ni_ethernet_address ni \<or> eh_dst (ef_header f) = ETHERNET_BROADCAST) \<and>
         eh_type (ef_header f) = EthernetHeader_TYPE_IPv4
      then case BufferList_to_Buffer (ef_payload f) of
          Inl _ \<Rightarrow> None
        | Inr b \<Rightarrow> (let (d, res) = IPv4Datagram_parse IPv4Datagram_default b in if res = NoError then Some d else None)
      else None)"

definition one_buffer :: "ethernet_frame \<Rightarrow> bool" where
  "one_buffer f \<longleftrightarrow> length (ef_payload f) \<le> 1"

lemma one_buffer_payload: "one_buffer f \<Longrightarrow> \<exists>b. BufferList_to_Buffer (ef_payload f) = Inr b"
  by (cases "ef_payload f") (auto simp: one_buffer_def BufferList_to_Buffer_def)

lemma ethertypes_distinct [simp]: "EthernetHeader_TYPE_ARP \<noteq> EthernetHeader_TYPE_IPv4"
  by (simp add: EthernetHeader_TYPE_ARP_def EthernetHeader_TYPE_IPv4_def)

lemma recv_frame_wf:
  assumes "ni_wf ni" "BufferList_to_Buffer (ef_payload f) = Inr b"
  shows "NetworkInterface_recv_frame ni f =
    (case ni_hears ni f of
       None \<Rightarrow> Inr (ni_accepts ni f, ni)
     | Some m \<Rightarrow>
         if \<forall>d\<in>set (ni_pending ni (arp_sender_ip_address m)). sendable d
         then Inr (ni_accepts ni f, ni_heard ni m) else Inl RuntimeError)"
proof -
  obtain d r where d: "IPv4Datagram_parse IPv4Datagram_default b = (d, r)" by fastforce
  obtain m r' where m: "ARPMessage_parse ARPMessage_default b = (m, r')" by fastforce
  have my: "Address_ipv4_numeric (ni_ip_address (ni_learned ni ip mac)) = Inr (ni_my_ip ni)" for ip mac
    using assms(1) by (simp add: ni_wf_def ni_learned_def)
  have "arp_answer (ni_learned ni ip mac) = arp_answer ni" for ip mac by (simp add: ni_learned_def)
  then have "NetworkInterface_reply (ni_learned ni (arp_sender_ip_address m) (arp_sender_ethernet_address m)) m =
      Inr (ni_heard ni m)"
    using reply_frame [OF my] by (simp add: ni_heard_def Let_def)
  then show ?thesis
    unfolding NetworkInterface_recv_frame_def ni_accepts_def ni_hears_def assms(2)
    using d m by (simp add: learn_wf [OF assms(1)] ethertypes_distinct [symmetric])
qed

lemma recv_frame_heard:
  assumes "ni_inv ni" "one_buffer f"
  shows "NetworkInterface_recv_frame ni f =
    Inr (ni_accepts ni f, case ni_hears ni f of None \<Rightarrow> ni | Some m \<Rightarrow> ni_heard ni m)"
  using one_buffer_payload [OF assms(2)] assms(1) by (auto simp: recv_frame_wf inv_iff split: option.split)

section \<open>The operations keep the invariant\<close>

definition yields :: "('a \<Rightarrow> bool) \<Rightarrow> 'a parser \<Rightarrow> bool" where
  "yields P m \<longleftrightarrow> (\<forall>p. P (fst (run_state m p)))"

lemma yields_bind:
  "yields Q m \<Longrightarrow> (\<And>x. Q x \<Longrightarrow> yields P (f x)) \<Longrightarrow> yields P (State_Monad.bind m f)"
  unfolding yields_def by (simp add: State_Monad.bind_def split: prod.split) (metis fst_conv)

lemma yields_return: "P x \<Longrightarrow> yields P (State_Monad.return x)"
  by (simp add: yields_def State_Monad.return_def)

lemma yields_any: "yields (\<lambda>_. True) m"
  by (simp add: yields_def)

lemma yields_fill: "yields (\<lambda>bs. length bs = length a) (NetParser_fill a)"
proof (induction a)
  case (Cons x a)
  show ?case by (simp, rule yields_bind [OF yields_any], rule yields_bind [OF Cons], rule yields_return) simp
qed (simp add: yields_return)

lemma yields_arp: "arp_ok m0 \<Longrightarrow> yields (\<lambda>(m, r). arp_ok m) (ARPMessage_read m0)"
  unfolding ARPMessage_read_def
  by (rule yields_bind [OF yields_any], simp split del: if_split, rule if_split [THEN iffD2], intro conjI impI)
     (auto intro!: yields_return yields_bind [OF yields_any] yields_bind [OF yields_fill]
       simp: Let_def arp_ok_def)

lemma hears_length: "ni_hears ni f = Some m \<Longrightarrow> length (arp_sender_ethernet_address m) = 6"
proof -
  assume "ni_hears ni f = Some m"
  then obtain b where b: "ARPMessage_parse ARPMessage_default b = (m, NoError)"
    by (auto simp: ni_hears_def split: if_splits sum.splits prod.splits)
  have "arp_ok ARPMessage_default" by simp
  from yields_arp [OF this] b have "arp_ok m" by (auto simp: yields_def ARPMessage_parse_def split: prod.splits)
  then show ?thesis by (simp add: arp_ok_def)
qed

lemma purge_wf: "ni_wf ni \<Longrightarrow> ni_wf (ni_purge ni ip)"
  unfolding ni_wf_def using purge_map [of ni ip] by simp (metis option.distinct(1))

lemma frames_inv [simp]:
  "ni_wf (ni\<lparr>ni_frames_out := fs\<rparr>) \<longleftrightarrow> ni_wf ni" "ni_inv (ni\<lparr>ni_frames_out := fs\<rparr>) \<longleftrightarrow> ni_inv ni"
  by (simp_all add: ni_wf_def ni_inv_def)

lemma sent_wf:
  assumes "ni_wf ni"
  shows "ni_wf (ni_sent ni ip d)"
proof -
  have q: "ni_wf ((ni_enqueue ni ip d)\<lparr>ni_arp_pending_ip := (ni_arp_pending_ip ni)(ip \<mapsto> t)\<rparr>)"
    if "t \<le> ni_time ni" for t
    using purge_wf [OF assms, of ip] that unfolding ni_wf_def ni_enqueue_def by auto
  have "ni_wf (ni_enqueue ni ip d)" if w: "arp_waits ni ip"
  proof -
    obtain t where t: "ni_arp_pending_ip ni ip = Some t" using w by (auto simp: arp_waits_def)
    then have "t \<le> ni_time ni" using assms by (simp add: ni_wf_def)
    moreover from t have "(ni_enqueue ni ip d)\<lparr>ni_arp_pending_ip := (ni_arp_pending_ip ni)(ip \<mapsto> t)\<rparr> =
        ni_enqueue ni ip d"
      by (simp add: ni_enqueue_def map_upd_triv)
    ultimately show ?thesis using q by metis
  qed
  with q [of "ni_time ni"] assms show ?thesis by (simp add: ni_sent_def split: option.split)
qed

lemma heard_wf:
  assumes "ni_wf ni" "length (arp_sender_ethernet_address m) = 6"
  shows "ni_wf (ni_heard ni m)"
  using assms by (auto simp: ni_wf_def ni_heard_def ni_learned_def Let_def)

lemma tick_wf:
  assumes "ni_wf ni" "ni_time ni + ms < 2 ^ 64"
  shows "ni_wf (NetworkInterface_tick ni ms)"
  using assms by (auto simp: ni_wf_def NetworkInterface_tick_def add64_exact intro: trans_le_add1)

text \<open>No operation adds a datagram to a queue but the one being sent.\<close>

lemma pending_subset:
  "set (ni_pending (ni_sent ni ip d) ip') \<subseteq> insert d (set (ni_pending ni ip'))"
  "set (ni_pending (ni_heard ni m) ip') \<subseteq> set (ni_pending ni ip')"
  "ni_pending (NetworkInterface_tick ni ms) = ni_pending ni"
  by (auto simp: ni_sent_def ni_enqueue_def ni_heard_def ni_learned_def ni_pending_def NetworkInterface_tick_def
      Let_def fun_eq_iff split: option.splits if_splits)

lemma sent_inv: "ni_inv ni \<Longrightarrow> sendable d \<Longrightarrow> ni_inv (ni_sent ni ip d)"
  using pending_subset(1) [of ni ip d] by (force simp: inv_iff sent_wf)

lemma heard_inv: "ni_inv ni \<Longrightarrow> length (arp_sender_ethernet_address m) = 6 \<Longrightarrow> ni_inv (ni_heard ni m)"
  using pending_subset(2) [of ni m] by (force simp: inv_iff heard_wf)

lemma ni_tick_inv: "ni_inv ni \<Longrightarrow> ni_time ni + ms < 2 ^ 64 \<Longrightarrow> ni_inv (NetworkInterface_tick ni ms)"
  by (simp add: inv_iff tick_wf pending_subset(3))

section \<open>Runs\<close>

datatype ni_event =
    NI_send ipv4_datagram uint32
  | NI_recv ethernet_frame
  | NI_tick size_t

fun ni_step :: "network_interface \<Rightarrow> ni_event \<Rightarrow> network_interface result" where
  "ni_step ni (NI_send d ip) = NetworkInterface_send_datagram ni d (address_of_ipv4 ip)"
| "ni_step ni (NI_recv f) = bindR (NetworkInterface_recv_frame ni f) (\<lambda>(d, ni'). Inr ni')"
| "ni_step ni (NI_tick ms) = Inr (NetworkInterface_tick ni ms)"

fun ni_run :: "network_interface \<Rightarrow> ni_event list \<Rightarrow> network_interface result" where
  "ni_run ni [] = Inr ni"
| "ni_run ni (e # es) = bindR (ni_step ni e) (\<lambda>ni'. ni_run ni' es)"

text \<open>
  The datagrams handed over can be serialized, and frames come off the wire, with their payload in
  one buffer.
\<close>

fun ni_event_ok :: "ni_event \<Rightarrow> bool" where
  "ni_event_ok (NI_send d ip) \<longleftrightarrow> sendable d"
| "ni_event_ok (NI_recv f) \<longleftrightarrow> one_buffer f"
| "ni_event_ok (NI_tick ms) \<longleftrightarrow> True"

fun ni_elapsed :: "ni_event list \<Rightarrow> nat" where
  "ni_elapsed [] = 0"
| "ni_elapsed (NI_tick ms # es) = ms + ni_elapsed es"
| "ni_elapsed (_ # es) = ni_elapsed es"

text \<open>The datagrams a run hands over for a next hop.\<close>

fun ni_sends :: "uint32 \<Rightarrow> ni_event list \<Rightarrow> ipv4_datagram list" where
  "ni_sends ip [] = []"
| "ni_sends ip (NI_send d ip' # es) = (if ip' = ip then d # ni_sends ip es else ni_sends ip es)"
| "ni_sends ip (_ # es) = ni_sends ip es"

text \<open>No ARP message from an address is heard in a run.\<close>

fun ni_silent :: "'a network_interface_scheme \<Rightarrow> uint32 \<Rightarrow> ni_event \<Rightarrow> bool" where
  "ni_silent ni ip (NI_recv f) \<longleftrightarrow>
     (case ni_hears ni f of None \<Rightarrow> True | Some m \<Rightarrow> arp_sender_ip_address m \<noteq> ip)"
| "ni_silent ni ip _ \<longleftrightarrow> True"

text \<open>One step, as a function of the state alone.\<close>

fun ni_next :: "network_interface \<Rightarrow> ni_event \<Rightarrow> network_interface" where
  "ni_next ni (NI_send d ip) = ni_sent ni ip d"
| "ni_next ni (NI_recv f) = (case ni_hears ni f of None \<Rightarrow> ni | Some m \<Rightarrow> ni_heard ni m)"
| "ni_next ni (NI_tick ms) = NetworkInterface_tick ni ms"

lemma ni_step_next: "ni_inv ni \<Longrightarrow> ni_event_ok e \<Longrightarrow> ni_step ni e = Inr (ni_next ni e)"
  by (cases e) (simp_all add: send_datagram_sent recv_frame_heard)

text \<open>Whatever the event, a step on a consistent interface is this one or throws.\<close>

lemma ni_step_wf:
  assumes "ni_wf ni"
  shows "ni_step ni e = Inr (ni_next ni e) \<or> ni_step ni e = Inl RuntimeError"
proof (cases e)
  case (NI_recv f)
  show ?thesis
  proof (cases "BufferList_to_Buffer (ef_payload f)")
    case (Inl x)
    moreover from this have "x = RuntimeError" by (auto simp: BufferList_to_Buffer_def split: list.splits)
    ultimately show ?thesis by (auto simp: NI_recv NetworkInterface_recv_frame_def ni_hears_def)
  next
    case (Inr b)
    then show ?thesis by (simp add: NI_recv recv_frame_wf [OF assms] split: option.split)
  qed
qed (simp_all add: send_datagram_wf [OF assms])

lemma ni_next_wf: "ni_wf ni \<Longrightarrow> ni_time ni + ni_elapsed [e] < 2 ^ 64 \<Longrightarrow> ni_wf (ni_next ni e)"
  by (cases e) (auto simp: sent_wf heard_wf hears_length tick_wf split: option.split)

lemma ni_next_inv:
  "ni_inv ni \<Longrightarrow> ni_event_ok e \<Longrightarrow> ni_time ni + ni_elapsed [e] < 2 ^ 64 \<Longrightarrow> ni_inv (ni_next ni e)"
  by (cases e) (auto simp: sent_inv heard_inv hears_length ni_tick_inv split: option.split)

lemma sent_fields [simp]:
  "ni_ethernet_address (ni_sent ni ip d) = ni_ethernet_address ni"
  "ni_ip_address (ni_sent ni ip d) = ni_ip_address ni" "ni_time (ni_sent ni ip d) = ni_time ni"
  "ni_my_ip (ni_sent ni ip d) = ni_my_ip ni"
  by (simp_all add: ni_sent_def ni_enqueue_def split: option.split)

lemma heard_fields [simp]:
  "ni_ethernet_address (ni_heard ni m) = ni_ethernet_address ni"
  "ni_ip_address (ni_heard ni m) = ni_ip_address ni" "ni_time (ni_heard ni m) = ni_time ni"
  "ni_my_ip (ni_heard ni m) = ni_my_ip ni"
  by (simp_all add: ni_heard_def ni_learned_def Let_def)

lemma tick_fields [simp]:
  "ni_ethernet_address (NetworkInterface_tick ni ms) = ni_ethernet_address ni"
  "ni_ip_address (NetworkInterface_tick ni ms) = ni_ip_address ni"
  "ni_frames_out (NetworkInterface_tick ni ms) = ni_frames_out ni"
  "ni_map (NetworkInterface_tick ni ms) = ni_map ni"
  "ni_arp_pending_ip (NetworkInterface_tick ni ms) = ni_arp_pending_ip ni"
  "ni_arp_pending_dgram (NetworkInterface_tick ni ms) = ni_arp_pending_dgram ni"
  by (simp_all add: NetworkInterface_tick_def)

lemma next_fields:
  "ni_ethernet_address (ni_next ni e) = ni_ethernet_address ni"
  "ni_ip_address (ni_next ni e) = ni_ip_address ni"
  "ni_time ni + ni_elapsed [e] < 2 ^ 64 \<Longrightarrow> ni_time (ni_next ni e) = ni_time ni + ni_elapsed [e]"
  by (cases e; simp add: NetworkInterface_tick_def add64_exact split: option.split)+

lemma elapsed_Cons: "ni_elapsed (e # es) = ni_elapsed [e] + ni_elapsed es"
  by (cases e) simp_all

lemma sends_Cons: "ni_sends ip (e # es) = ni_sends ip [e] @ ni_sends ip es"
  by (cases e) simp_all

lemma silent_same:
  "ni_ethernet_address ni' = ni_ethernet_address ni \<Longrightarrow> ni_silent ni' ip e \<longleftrightarrow> ni_silent ni ip e"
  by (cases e) (simp_all add: ni_hears_def)

lemma elapsed_append: "ni_elapsed (es @ es') = ni_elapsed es + ni_elapsed es'"
  by (induction es) (simp, metis elapsed_Cons append_Cons add.assoc)

lemma sends_append: "ni_sends ip (es @ es') = ni_sends ip es @ ni_sends ip es'"
  by (induction es) (simp, metis sends_Cons append_Cons append.assoc)

lemma ni_run_append: "ni_run ni (es @ es') = bindR (ni_run ni es) (\<lambda>ni'. ni_run ni' es')"
  by (induction es arbitrary: ni) (simp_all add: bindR_assoc)

text \<open>Induction over a run: a property that every step keeps holds at its end.\<close>

lemma ni_run_induct:
  assumes "ni_inv ni" "\<forall>e\<in>set es. ni_event_ok e" "ni_time ni + ni_elapsed es < 2 ^ 64"
    and "P [] ni"
    and "\<And>es' e ni'. ni_inv ni' \<Longrightarrow> ni_event_ok e \<Longrightarrow> e \<in> set es \<Longrightarrow> P es' ni' \<Longrightarrow>
      ni_ethernet_address ni' = ni_ethernet_address ni \<Longrightarrow> ni_ip_address ni' = ni_ip_address ni \<Longrightarrow>
      ni_time ni' = ni_time ni + ni_elapsed es' \<Longrightarrow> ni_elapsed (es' @ [e]) \<le> ni_elapsed es \<Longrightarrow>
      P (es' @ [e]) (ni_next ni' e)"
  shows "\<exists>ni'. ni_run ni es = Inr ni' \<and> ni_inv ni' \<and> P es ni' \<and>
    ni_ethernet_address ni' = ni_ethernet_address ni \<and> ni_ip_address ni' = ni_ip_address ni \<and>
    ni_time ni' = ni_time ni + ni_elapsed es"
proof -
  have "\<exists>ni'. ni_run ni pre = Inr ni' \<and> ni_inv ni' \<and> P pre ni' \<and>
      ni_ethernet_address ni' = ni_ethernet_address ni \<and> ni_ip_address ni' = ni_ip_address ni \<and>
      ni_time ni' = ni_time ni + ni_elapsed pre" if "es = pre @ suf" for pre suf
    using that
  proof (induction pre arbitrary: suf rule: rev_induct)
    case Nil
    then show ?case using assms(1,4) by simp
  next
    case (snoc e pre)
    from snoc.prems have "es = pre @ e # suf" by simp
    from snoc.IH [OF this] obtain ni' where ni': "ni_run ni pre = Inr ni'" "ni_inv ni'" "P pre ni'"
      "ni_ethernet_address ni' = ni_ethernet_address ni" "ni_ip_address ni' = ni_ip_address ni"
      "ni_time ni' = ni_time ni + ni_elapsed pre" by blast
    have e: "e \<in> set es" "ni_event_ok e" using snoc.prems assms(2) by auto
    have le: "ni_elapsed (pre @ [e]) \<le> ni_elapsed es" using snoc.prems by (simp add: elapsed_append elapsed_Cons [of e suf])
    with assms(3) ni'(6) have t: "ni_time ni' + ni_elapsed [e] < 2 ^ 64" by (simp add: elapsed_append)
    have "ni_run ni (pre @ [e]) = Inr (ni_next ni' e)"
      using ni'(1) ni_step_next [OF ni'(2) e(2)] by (simp add: ni_run_append)
    moreover have "P (pre @ [e]) (ni_next ni' e)" by (rule assms(5)) (use ni' e le in auto)
    ultimately show ?case
      using ni_next_inv [OF ni'(2) e(2) t] next_fields(1,2) [of ni' e] next_fields(3) [OF t] ni'(4,5,6)
      by (simp add: elapsed_append)
  qed
  from this [of es "[]"] show ?thesis by simp
qed

text \<open>What sending leaves for another address, and what hearing does.\<close>

lemma enqueue_simps:
  "ni_pending (ni_enqueue ni ip d) ip' = (if ip' = ip then ni_pending ni ip @ [d] else ni_pending ni ip')"
  "ni_arp_pending_ip (ni_enqueue ni ip d) = ni_arp_pending_ip ni"
  "ni_frames_out (ni_enqueue ni ip d) = ni_frames_out ni"
  by (simp_all add: ni_enqueue_def ni_pending_def)

lemma mac_purge: "ni_inv ni \<Longrightarrow> ni_mac (ni_purge ni ip) ip' = ni_mac ni ip'"
proof -
  assume inv: "ni_inv ni"
  then have "sub64 (ni_time ni) (am_time_stamp it) = ni_time ni - am_time_stamp it" if "ni_map ni ip = Some it" for it
    using that by (auto simp: ni_inv_def sub64_exact)
  then show ?thesis
    by (auto simp: ni_mac_def ni_purge_def NetworkInterface_map_def split: option.split)
qed

lemma mac_sent: "ni_inv ni \<Longrightarrow> ni_mac (ni_sent ni ip d) ip' = ni_mac ni ip'"
proof -
  assume inv: "ni_inv ni"
  show ?thesis
    by (cases "ni_mac ni ip") (simp_all add: ni_sent_def ni_enqueue_def mac_purge [OF inv])
qed

lemma pending_sent:
  "ni_pending (ni_sent ni ip d) ip' =
    (if ip' = ip \<and> ni_mac ni ip = None then ni_pending ni ip @ [d] else ni_pending ni ip')"
  by (cases "ni_mac ni ip") (simp_all add: ni_sent_def enqueue_simps)

lemma heard_simps:
  "ni_pending (ni_heard ni m) ip = (if ip = arp_sender_ip_address m then [] else ni_pending ni ip)"
  "ni_map (ni_heard ni m) ip = (if ip = arp_sender_ip_address m
    then Some \<lparr>am_mac_addr = arp_sender_ethernet_address m, am_time_stamp = ni_time ni\<rparr> else ni_map ni ip)"
  "ni_arp_pending_ip (ni_heard ni m) ip =
    (if ip = arp_sender_ip_address m then None else ni_arp_pending_ip ni ip)"
  "ni_frames_out (ni_heard ni m) = ni_frames_out ni @
    map (ni_datagram_frame ni (arp_sender_ethernet_address m)) (ni_pending ni (arp_sender_ip_address m)) @
    arp_answer ni m"
  by (simp_all add: ni_heard_def ni_learned_def ni_pending_def Let_def)

lemma mac_tick_None:
  "ni_time ni + ms < 2 ^ 64 \<Longrightarrow> ni_mac ni ip = None \<Longrightarrow> ni_mac (NetworkInterface_tick ni ms) ip = None"
  by (auto simp: ni_mac_def NetworkInterface_tick_def add64_exact split: option.splits if_splits)

lemma mac_heard:
  "ip \<noteq> arp_sender_ip_address m \<Longrightarrow> ni_mac (ni_heard ni m) ip = ni_mac ni ip"
  by (simp add: ni_mac_def heard_simps split: option.split)

lemma pending_tick [simp]: "ni_pending (NetworkInterface_tick ni ms) = ni_pending ni"
  by (simp add: NetworkInterface_tick_def)

text \<open>While the address is unknown, datagrams for it wait in the order they were handed over.\<close>

lemma next_unresolved:
  assumes "ni_inv ni" "ni_silent ni ip e" "ni_time ni + ni_elapsed [e] < 2 ^ 64" "ni_mac ni ip = None"
  shows "ni_mac (ni_next ni e) ip = None"
    and "ni_pending (ni_next ni e) ip = ni_pending ni ip @ ni_sends ip [e]"
  using assms
  by (cases e; auto simp: mac_sent pending_sent mac_tick_None mac_heard heard_simps split: option.splits)+

lemma run_unresolved:
  assumes "ni_inv ni" "ni_mac ni ip = None" "\<forall>e\<in>set es. ni_event_ok e \<and> ni_silent ni ip e"
    and "ni_time ni + ni_elapsed es < 2 ^ 64"
  shows "\<exists>ni'. ni_run ni es = Inr ni' \<and> ni_inv ni' \<and>
    (ni_mac ni' ip = None \<and> ni_pending ni' ip = ni_pending ni ip @ ni_sends ip es) \<and>
    ni_ethernet_address ni' = ni_ethernet_address ni \<and> ni_ip_address ni' = ni_ip_address ni \<and>
    ni_time ni' = ni_time ni + ni_elapsed es"
proof (rule ni_run_induct [where P = "\<lambda>es ni'. ni_mac ni' ip = None \<and> ni_pending ni' ip = ni_pending ni ip @ ni_sends ip es"])
  fix es' e and ni' :: network_interface
  assume 1: "ni_inv ni'" "e \<in> set es" "ni_mac ni' ip = None \<and> ni_pending ni' ip = ni_pending ni ip @ ni_sends ip es'"
    and same: "ni_ethernet_address ni' = ni_ethernet_address ni"
    and t: "ni_time ni' = ni_time ni + ni_elapsed es'" "ni_elapsed (es' @ [e]) \<le> ni_elapsed es"
  have "ni_silent ni' ip e" using 1(2) assms(3) silent_same [OF same] by blast
  moreover have "ni_time ni' + ni_elapsed [e] < 2 ^ 64" using t assms(4) by (simp add: elapsed_append)
  ultimately show "ni_mac (ni_next ni' e) ip = None \<and>
      ni_pending (ni_next ni' e) ip = ni_pending ni ip @ ni_sends ip (es' @ [e])"
    using next_unresolved [OF 1(1)] 1(3) by (simp add: sends_append)
qed (use assms in auto)

section \<open>Which frames a step sends\<close>

text \<open>Two frames with ARP messages carry the same message only if they are equal.\<close>

lemma arp_frame_inject:
  assumes "ni_arp_frame ni d m = ni_arp_frame ni' d' m'" "ARPMessage_supported m" "ARPMessage_supported m'"
    "arp_ok m" "arp_ok m'"
  shows "m = m'"
proof -
  obtain s s' where s: "ARPMessage_serialize m = Inr s" "ARPMessage_serialize m' = Inr s'"
    using assms(2,3) by (auto simp: ARPMessage_serialize_bytes)
  with assms(1) have "Buffer_new s = Buffer_new s'"
    by (simp add: ni_arp_frame_def ni_frame_def BufferList_new_def BufferList_of_buffer_def)
  with ARPMessage_parse_bytes [OF assms(2,4) defaults_ok(2) s(1)]
    ARPMessage_parse_bytes [OF assms(3,5) defaults_ok(2) s(2)]
  show ?thesis by simp
qed

lemma arp_of_ok:
  "length (ni_ethernet_address ni) = 6 \<Longrightarrow> length mac = 6 \<Longrightarrow> arp_ok (arp_of ni opcode mac ip)"
  "opcode = ARPMessage_OPCODE_REQUEST \<or> opcode = ARPMessage_OPCODE_REPLY \<Longrightarrow>
    ARPMessage_supported (arp_of ni opcode mac ip)"
  by (simp_all add: arp_ok_def arp_of_def ARPMessage_supported_def)

definition arp_requests :: "'a network_interface_scheme \<Rightarrow> uint32 \<Rightarrow> ethernet_frame list \<Rightarrow> nat" where
  "arp_requests ni ip fs = length (filter (\<lambda>f. f = arp_request ni ip) fs)"

lemma not_request:
  assumes "ni_inv ni"
  shows "ni_datagram_frame ni mac d \<noteq> arp_request ni ip"
    and "ip' \<noteq> ip \<Longrightarrow> arp_request ni ip' \<noteq> arp_request ni ip"
    and "length (arp_sender_ethernet_address m) = 6 \<Longrightarrow> arp_request ni ip \<notin> set (arp_answer ni m)"
proof -
  have l: "length (ni_ethernet_address ni) = 6" using assms by (simp add: ni_inv_def)
  show "ni_datagram_frame ni mac d \<noteq> arp_request ni ip"
    by (simp add: ni_datagram_frame_def arp_request_def ni_arp_frame_def ni_frame_def
        ethertypes_distinct [symmetric])
  note inject = arp_frame_inject [OF _ arp_of_ok(2) arp_of_ok(2) arp_of_ok(1) arp_of_ok(1)]
  show "arp_request ni ip' \<noteq> arp_request ni ip" if "ip' \<noteq> ip"
  proof
    assume "arp_request ni ip' = arp_request ni ip"
    from inject [OF this [unfolded arp_request_def]] l that show False by (simp add: arp_of_def)
  qed
  show "arp_request ni ip \<notin> set (arp_answer ni m)" if "length (arp_sender_ethernet_address m) = 6"
  proof
    assume "arp_request ni ip \<in> set (arp_answer ni m)"
    then have "ni_arp_frame ni ETHERNET_BROADCAST (arp_of ni ARPMessage_OPCODE_REQUEST NO_MAC ip) =
        ni_arp_frame ni (arp_sender_ethernet_address m)
         (arp_of ni ARPMessage_OPCODE_REPLY (arp_sender_ethernet_address m) (arp_sender_ip_address m))"
      by (auto simp: arp_answer_def arp_request_def split: if_splits)
    from inject [OF this] l that show False
      by (simp add: arp_of_def ARPMessage_OPCODE_REQUEST_def ARPMessage_OPCODE_REPLY_def)
  qed
qed

lemma requests_append [simp]:
  "arp_requests ni ip (fs @ fs') = arp_requests ni ip fs + arp_requests ni ip fs'"
  "arp_requests ni ip [] = 0"
  by (simp_all add: arp_requests_def)

lemma requests_zero: "arp_request ni ip \<notin> set fs \<Longrightarrow> arp_requests ni ip fs = 0"
  by (auto simp: arp_requests_def filter_empty_conv)

text \<open>
  A step without ARP from the address sends at most one request for it: when it does, none was
  waiting, and the time of the request is noted.
\<close>

lemma next_requests:
  assumes "ni_inv ni" "ni_silent ni ip e"
  shows "(arp_requests ni ip (ni_frames_out (ni_next ni e)) = arp_requests ni ip (ni_frames_out ni) \<and>
      ni_arp_pending_ip (ni_next ni e) ip = ni_arp_pending_ip ni ip) \<or>
    (arp_requests ni ip (ni_frames_out (ni_next ni e)) = arp_requests ni ip (ni_frames_out ni) + 1 \<and>
      \<not> arp_waits ni ip \<and> ni_arp_pending_ip (ni_next ni e) ip = Some (ni_time ni))"
proof (cases e)
  case (NI_send d ip')
  have req: "arp_requests ni ip [arp_request ni ip'] = (if ip' = ip then 1 else 0)"
    using not_request(2) [OF assms(1), of ip' ip] by (simp add: arp_requests_def)
  have dg: "arp_requests ni ip [ni_datagram_frame ni mac d] = 0" for mac
    using not_request(1) [OF assms(1)] by (simp add: arp_requests_def)
  show ?thesis
    using NI_send by (cases "ni_mac ni ip'") (auto simp: ni_sent_def enqueue_simps req dg)
next
  case (NI_recv f)
  show ?thesis
  proof (cases "ni_hears ni f")
    case (Some m)
    have "arp_requests ni ip (arp_answer ni m) = 0"
      using not_request(3) [OF assms(1) hears_length [OF Some]] by (simp add: requests_zero)
    moreover have "arp_requests ni ip (map (ni_datagram_frame ni mac) q) = 0" for mac q
      using not_request(1) [OF assms(1), symmetric] by (intro requests_zero) (auto simp: image_iff)
    ultimately show ?thesis using NI_recv Some assms(2) by (simp add: heard_simps)
  qed (simp add: NI_recv)
next
  case (NI_tick ms)
  then show ?thesis by simp
qed

text \<open>Frames sent have well-formed headers.\<close>

definition ni_frames_ok :: "ethernet_address \<Rightarrow> ethernet_frame list \<Rightarrow> bool" where
  "ni_frames_ok eth fs \<longleftrightarrow> (\<forall>f\<in>set fs. eh_src (ef_header f) = eth \<and> ethernet_header_ok (ef_header f))"

lemma frame_ok:
  "length (ni_ethernet_address ni) = 6 \<Longrightarrow> length dst = 6 \<Longrightarrow>
    ni_frames_ok (ni_ethernet_address ni) [ni_frame ni type dst payload]"
  by (simp add: ni_frames_ok_def ni_frame_def ethernet_header_ok_def)

lemma frames_ok_append [simp]:
  "ni_frames_ok eth (fs @ fs') \<longleftrightarrow> ni_frames_ok eth fs \<and> ni_frames_ok eth fs'" "ni_frames_ok eth []"
  by (auto simp: ni_frames_ok_def)

lemma next_frames_ok:
  assumes "ni_wf ni" "ni_frames_ok (ni_ethernet_address ni) (ni_frames_out ni)"
  shows "ni_frames_ok (ni_ethernet_address ni) (ni_frames_out (ni_next ni e))"
proof (cases e)
  case (NI_send d ip)
  have len: "length (ni_ethernet_address ni) = 6" using assms(1) by (simp add: ni_wf_def)
  have "length mac = 6" if "ni_mac ni ip = Some mac" for mac
    using that assms(1) by (auto simp: ni_mac_def ni_wf_def split: option.splits if_splits)
  with len frame_ok [of ni] show ?thesis
    using NI_send assms(2) unfolding ni_next.simps
    by (auto simp: ni_sent_def enqueue_simps ni_datagram_frame_def arp_request_def ni_arp_frame_def
        ETHERNET_BROADCAST_def split: option.split)
next
  case (NI_recv f)
  have len: "length (ni_ethernet_address ni) = 6" using assms(1) by (simp add: ni_wf_def)
  show ?thesis
  proof (cases "ni_hears ni f")
    case (Some m)
    note ok = frame_ok [OF len hears_length [OF Some]]
    have "ni_frames_ok (ni_ethernet_address ni)
        (map (ni_datagram_frame ni (arp_sender_ethernet_address m)) q)" for q
      using ok by (simp add: ni_frames_ok_def ni_datagram_frame_def)
    moreover have "ni_frames_ok (ni_ethernet_address ni) (arp_answer ni m)"
      using ok by (simp add: arp_answer_def ni_arp_frame_def)
    ultimately show ?thesis using NI_recv Some assms(2) by (simp add: heard_simps)
  qed (simp add: NI_recv assms(2))
qed (simp add: assms(2))

lemma run_wf:
  "ni_wf ni \<Longrightarrow> ni_time ni + ni_elapsed es < 2 ^ 64 \<Longrightarrow>
    ni_frames_ok (ni_ethernet_address ni) (ni_frames_out ni) \<Longrightarrow>
    case ni_run ni es of
      Inl err \<Rightarrow> err = RuntimeError
    | Inr ni' \<Rightarrow> ni_wf ni' \<and> ni_frames_ok (ni_ethernet_address ni) (ni_frames_out ni')"
proof (induction es arbitrary: ni)
  case (Cons e es)
  let ?ni = "ni_next ni e"
  have t: "ni_time ni + ni_elapsed [e] < 2 ^ 64" using Cons.prems(2) by (simp add: elapsed_Cons [of e es])
  from Cons.IH [OF ni_next_wf [OF Cons.prems(1) t]] Cons.prems(2) next_frames_ok [OF Cons.prems(1,3)]
  show ?case
    using ni_step_wf [OF Cons.prems(1), of e] next_fields(1) [of ni e] next_fields(3) [OF t]
    by (auto simp: elapsed_Cons [of e es] split: sum.splits)
qed simp

text \<open>An entry of the cache leaves it only when it has expired.\<close>

lemma map_sent:
  assumes "ni_inv ni"
  shows "ni_map (ni_sent ni ip' d) ip = ni_map ni ip \<or>
    (\<exists>it. ni_map ni ip = Some it \<and> ni_time ni - am_time_stamp it > TTL \<and> ni_map (ni_sent ni ip' d) ip = None)"
proof -
  have "sub64 (ni_time ni) (am_time_stamp it) = ni_time ni - am_time_stamp it" if "ni_map ni ip' = Some it" for it
    using that assms by (auto simp: ni_inv_def sub64_exact)
  then have "ni_map (ni_purge ni ip') ip = ni_map ni ip \<or>
    (\<exists>it. ni_map ni ip = Some it \<and> ni_time ni - am_time_stamp it > TTL \<and> ni_map (ni_purge ni ip') ip = None)"
    by (auto simp: ni_purge_def NetworkInterface_map_def split: option.split)
  then show ?thesis by (cases "ni_mac ni ip'") (auto simp: ni_sent_def ni_enqueue_def)
qed

lemma run_cached:
  assumes "ni_inv ni" "ni_map ni ip = Some \<lparr>am_mac_addr = mac, am_time_stamp = ni_time ni\<rparr>"
    and "\<forall>e\<in>set es. ni_event_ok e \<and> ni_silent ni ip e" "ni_time ni + ni_elapsed es < 2 ^ 64"
  shows "\<exists>ni'. ni_run ni es = Inr ni' \<and> ni_inv ni' \<and>
    (ni_map ni' ip = ni_map ni ip \<or> (ni_map ni' ip = None \<and> ni_elapsed es > TTL)) \<and>
    ni_ethernet_address ni' = ni_ethernet_address ni \<and> ni_ip_address ni' = ni_ip_address ni \<and>
    ni_time ni' = ni_time ni + ni_elapsed es"
proof (rule ni_run_induct [where
      P = "\<lambda>es ni'. ni_map ni' ip = ni_map ni ip \<or> (ni_map ni' ip = None \<and> ni_elapsed es > TTL)"])
  fix es' e and ni' :: network_interface
  assume inv: "ni_inv ni'" and e: "e \<in> set es"
    and P: "ni_map ni' ip = ni_map ni ip \<or> (ni_map ni' ip = None \<and> ni_elapsed es' > TTL)"
    and same: "ni_ethernet_address ni' = ni_ethernet_address ni"
    and t: "ni_time ni' = ni_time ni + ni_elapsed es'"
  have silent: "ni_silent ni' ip e" using e assms(3) silent_same [OF same] by blast
  have "ni_map (ni_next ni' e) ip = ni_map ni' ip \<or>
      (\<exists>it. ni_map ni' ip = Some it \<and> ni_time ni' - am_time_stamp it > TTL \<and> ni_map (ni_next ni' e) ip = None)"
    using silent map_sent [OF inv] by (cases e) (auto simp: heard_simps split: option.splits)
  then show "ni_map (ni_next ni' e) ip = ni_map ni ip \<or>
      (ni_map (ni_next ni' e) ip = None \<and> ni_elapsed (es' @ [e]) > TTL)"
    using P t assms(2) by (auto simp: elapsed_append)
qed (use assms in auto)

text \<open>An interface hears the ARP frames another one sends to it.\<close>

lemma hears_arp_frame:
  assumes "ARPMessage_supported m" "arp_ok m" "dst = ni_ethernet_address ni \<or> dst = ETHERNET_BROADCAST"
  shows "ni_hears ni (ni_arp_frame ni' dst m) = Some m" "one_buffer (ni_arp_frame ni' dst m)"
proof -
  obtain s where s: "ARPMessage_serialize m = Inr s" using assms(1) by (auto simp: ARPMessage_serialize_bytes)
  with ARPMessage_parse_bytes [OF assms(1,2) defaults_ok(2) s] assms(3)
  show "ni_hears ni (ni_arp_frame ni' dst m) = Some m"
    by (auto simp: ni_hears_def ni_arp_frame_def ni_frame_def BufferList_new_def BufferList_of_buffer_def
        BufferList_to_Buffer_def)
  from s show "one_buffer (ni_arp_frame ni' dst m)"
    by (simp add: one_buffer_def ni_arp_frame_def ni_frame_def BufferList_new_def BufferList_of_buffer_def)
qed

lemma init_inv: "length eth = 6 \<Longrightarrow> ni_inv (NetworkInterface_init eth (address_of_ipv4 ip))"
  by (simp add: ni_inv_def NetworkInterface_init_def ni_my_ip_def)

lemma init_fields [simp]:
  "ni_ethernet_address (NetworkInterface_init eth a) = eth" "ni_time (NetworkInterface_init eth a) = 0"
  "ni_frames_out (NetworkInterface_init eth a) = []" "ni_mac (NetworkInterface_init eth a) ip = None"
  "ni_pending (NetworkInterface_init eth a) ip = []"
  by (simp_all add: NetworkInterface_init_def ni_mac_def ni_pending_def)

text \<open>Two interfaces on one link, and the reply the second sends to the first.\<close>

definition sample_host :: network_interface where
  "sample_host = NetworkInterface_init [2, 0, 0, 0, 0, 1] (address_of_ipv4 0x0a000001)"

definition sample_gateway :: network_interface where
  "sample_gateway = NetworkInterface_init [2, 0, 0, 0, 0, 2] (address_of_ipv4 0x0a000002)"

definition sample_arp :: arp_message where
  "sample_arp = arp_of sample_gateway ARPMessage_OPCODE_REPLY [2, 0, 0, 0, 0, 1] 0x0a000001"

definition sample_reply :: ethernet_frame where
  "sample_reply = ni_arp_frame sample_gateway [2, 0, 0, 0, 0, 1] sample_arp"

lemma sample_arp_fields [simp]:
  "arp_sender_ip_address sample_arp = 0x0a000002"
  "arp_sender_ethernet_address sample_arp = [2, 0, 0, 0, 0, 2]"
  "arp_answer ni sample_arp = []"
  by (simp_all add: sample_arp_def arp_of_def sample_gateway_def NetworkInterface_init_def ni_my_ip_def
      arp_answer_def ARPMessage_OPCODE_REPLY_def ARPMessage_OPCODE_REQUEST_def)

lemma sample_reply_heard: "ni_hears sample_host sample_reply = Some sample_arp" "one_buffer sample_reply"
proof -
  have "ARPMessage_supported sample_arp" "arp_ok sample_arp"
    unfolding sample_arp_def by (auto intro!: arp_of_ok simp: sample_gateway_def)
  from hears_arp_frame [OF this, of "[2, 0, 0, 0, 0, 1]" sample_host sample_gateway]
  show "ni_hears sample_host sample_reply = Some sample_arp" "one_buffer sample_reply"
    by (simp_all add: sample_reply_def sample_host_def)
qed

lemma sample_sendable: "sendable sample_datagram"
  using IPv4Datagram_serialize_bytes [OF sample_datagram_ok] by (auto simp: sendable_def)

lemma sample_host_facts [simp]:
  "ni_inv sample_host" "ni_time sample_host = 0" "ni_frames_out sample_host = []"
  "ni_mac sample_host ip = None" "ni_pending sample_host ip = []"
  by (simp_all add: sample_host_def init_inv)

section \<open>Properties\<close>

text \<open>
  C30: the interface's invariant. However datagrams, frames and clock ticks follow each other, the
  interface stays consistent (requests and waiting datagrams go together) and every frame sent has this
  interface's address as its source and a six-byte destination, unless a call throws. The only exception
  is a runtime error, and then one of the datagrams handed over cannot be serialized or one of the frames
  has its payload in several buffers; without such a datagram or frame no call throws.
\<close>

theorem network_interface_invariant:
  assumes "length eth = 6" "ni_elapsed es < 2 ^ 64"
  shows "case ni_run (NetworkInterface_init eth (address_of_ipv4 ip)) es of
      Inr ni \<Rightarrow> ni_wf ni \<and>
        (\<forall>f\<in>set (ni_frames_out ni). eh_src (ef_header f) = eth \<and> ethernet_header_ok (ef_header f)) \<and>
        ((\<forall>e\<in>set es. ni_event_ok e) \<longrightarrow> ni_inv ni)
    | Inl err \<Rightarrow> err = RuntimeError \<and> (\<exists>e\<in>set es. \<not> ni_event_ok e)"
proof -
  let ?ni = "NetworkInterface_init eth (address_of_ipv4 ip)"
  have "ni_inv ?ni" using assms(1) by (simp add: ni_inv_def NetworkInterface_init_def ni_my_ip_def)
  moreover have "ni_ethernet_address ?ni = eth" "ni_time ?ni = 0" "ni_frames_out ?ni = []"
    by (simp_all add: NetworkInterface_init_def)
  moreover from calculation have "\<exists>ni. ni_run ?ni es = Inr ni \<and> ni_inv ni" if "\<forall>e\<in>set es. ni_event_ok e"
    using ni_run_induct [of ?ni es "\<lambda>_ _. True"] that assms(2) by auto
  ultimately show ?thesis
    using run_wf [OF inv_wf, of ?ni es] assms(2) by (auto simp: ni_frames_ok_def split: sum.splits)
qed

theorem network_interface_invariant_witness:
  "\<exists>ni. ni_run sample_host [NI_send sample_datagram 0x0a000002, NI_tick 1000, NI_recv sample_reply] = Inr ni \<and>
    ni_inv ni \<and>
    (\<forall>f\<in>set (ni_frames_out ni). eh_src (ef_header f) = [2, 0, 0, 0, 0, 1] \<and> ethernet_header_ok (ef_header f))"
proof -
  let ?es = "[NI_send sample_datagram 0x0a000002, NI_tick 1000, NI_recv sample_reply]"
  have "\<forall>e\<in>set ?es. ni_event_ok e" by (simp add: sample_sendable sample_reply_heard(2))
  then show ?thesis
    using network_interface_invariant [of "[2, 0, 0, 0, 0, 1]" ?es "0x0a000001"]
    unfolding sample_host_def [symmetric] by (auto split: sum.splits)
qed

text \<open>
  C9: address resolution. While the Ethernet address of a next hop is unknown, the datagrams for it
  wait; as soon as an ARP message from that hop is heard, all of them are sent to its Ethernet address,
  none lost or repeated and in the order they were handed over, followed by the answer to the message.
\<close>

theorem arp_resolution:
  assumes "ni_inv ni" "ni_mac ni ip = None" "\<forall>e\<in>set es. ni_event_ok e \<and> ni_silent ni ip e"
    and "ni_time ni + ni_elapsed es < 2 ^ 64"
    and "one_buffer f" "ni_hears ni f = Some m" "arp_sender_ip_address m = ip"
  shows "\<exists>ni1 ni2. ni_run ni es = Inr ni1 \<and> NetworkInterface_recv_frame ni1 f = Inr (None, ni2) \<and>
    ni_frames_out ni2 = ni_frames_out ni1 @
      map (ni_datagram_frame ni (arp_sender_ethernet_address m)) (ni_pending ni ip @ ni_sends ip es) @
      arp_answer ni m \<and>
    ni_pending ni2 ip = []"
proof -
  obtain ni1 where ni1: "ni_run ni es = Inr ni1" "ni_inv ni1"
    "ni_pending ni1 ip = ni_pending ni ip @ ni_sends ip es"
    "ni_ethernet_address ni1 = ni_ethernet_address ni" "ni_ip_address ni1 = ni_ip_address ni"
    using run_unresolved [OF assms(1-4)] by blast
  have "ni_hears ni1 f = Some m" using ni1(4) assms(6) by (simp add: ni_hears_def)
  moreover from this have "ni_accepts ni1 f = None" by (auto simp: ni_hears_def ni_accepts_def split: if_splits)
  ultimately have "NetworkInterface_recv_frame ni1 f = Inr (None, ni_heard ni1 m)"
    using recv_frame_heard [OF ni1(2) assms(5)] by simp
  with ni1(1,3) assms(7) frames_same [OF ni1(4,5)] show ?thesis by (simp add: heard_simps)
qed

theorem arp_resolution_witness:
  "\<exists>ni1 ni2. ni_run sample_host
      [NI_send sample_datagram 0x0a000002, NI_tick 6000, NI_send sample_datagram 0x0a000002] = Inr ni1 \<and>
    NetworkInterface_recv_frame ni1 sample_reply = Inr (None, ni2) \<and>
    ni_frames_out ni2 = ni_frames_out ni1 @
      [ni_datagram_frame sample_host [2, 0, 0, 0, 0, 2] sample_datagram,
       ni_datagram_frame sample_host [2, 0, 0, 0, 0, 2] sample_datagram] \<and>
    ni_pending ni2 0x0a000002 = []"
  using arp_resolution [OF sample_host_facts(1) sample_host_facts(4), of
      "[NI_send sample_datagram 0x0a000002, NI_tick 6000, NI_send sample_datagram 0x0a000002]"
      "0x0a000002", OF _ _ sample_reply_heard(2,1)]
  by (simp add: sample_sendable)

text \<open>
  C10: rate limit. However many datagrams for a next hop are handed over within five seconds, at most
  one ARP request for it goes out while it stays silent.
\<close>

theorem arp_rate_limit:
  assumes "ni_inv ni" "\<forall>e\<in>set es. ni_event_ok e \<and> ni_silent ni ip e"
    and "ni_time ni + ni_elapsed es < 2 ^ 64" "ni_elapsed es \<le> ARPTTL"
  shows "\<exists>ni'. ni_run ni es = Inr ni' \<and>
    arp_requests ni ip (ni_frames_out ni') \<le> arp_requests ni ip (ni_frames_out ni) + 1"
proof -
  let ?n = "\<lambda>ni'. arp_requests ni ip (ni_frames_out ni')"
  let ?P = "\<lambda>es ni'. ?n ni' = ?n ni \<or>
    (?n ni' = ?n ni + 1 \<and> (\<exists>t. ni_arp_pending_ip ni' ip = Some t \<and> ni_time ni \<le> t))"
  have "\<exists>ni'. ni_run ni es = Inr ni' \<and> ni_inv ni' \<and> ?P es ni' \<and>
    ni_ethernet_address ni' = ni_ethernet_address ni \<and> ni_ip_address ni' = ni_ip_address ni \<and>
    ni_time ni' = ni_time ni + ni_elapsed es"
  proof (rule ni_run_induct [where P = ?P])
    fix es' e and ni' :: network_interface
    assume inv: "ni_inv ni'" and e: "e \<in> set es" and P: "?P es' ni'"
      and same: "ni_ethernet_address ni' = ni_ethernet_address ni" "ni_ip_address ni' = ni_ip_address ni"
      and t: "ni_time ni' = ni_time ni + ni_elapsed es'" "ni_elapsed (es' @ [e]) \<le> ni_elapsed es"
    have "ni_silent ni' ip e" using e assms(2) silent_same [OF same(1)] by blast
    moreover have "arp_requests ni' ip = arp_requests ni ip"
      using frames_same(3) [OF same] by (simp add: arp_requests_def fun_eq_iff)
    moreover have "arp_waits ni' ip" if "ni_arp_pending_ip ni' ip = Some t" "ni_time ni \<le> t" for t
      using that t assms(4) by (auto simp: arp_waits_def elapsed_append)
    ultimately show "?P (es' @ [e]) (ni_next ni' e)" using next_requests [OF inv] P t(1) by fastforce
  qed (use assms in auto)
  then show ?thesis by fastforce
qed

theorem arp_rate_limit_witness:
  "\<exists>ni'. ni_run sample_host [NI_send sample_datagram 7, NI_tick 5000, NI_send sample_datagram 7] = Inr ni' \<and>
    arp_requests sample_host 7 (ni_frames_out ni') \<le> 1"
  using arp_rate_limit [OF sample_host_facts(1),
      of "[NI_send sample_datagram 7, NI_tick 5000, NI_send sample_datagram 7]" 7]
  by (simp add: sample_sendable ARPTTL_def)

text \<open>
  C31: the ARP cache. For thirty seconds after an ARP message a datagram for its sender is sent at
  once to the address it gave; after that the entry is not used, and the datagram waits for an answer
  to a new request.
\<close>

theorem arp_cache:
  assumes "ni_inv ni" "one_buffer f" "ni_hears ni f = Some m" "arp_sender_ip_address m = ip"
    and "arp_sender_ethernet_address m \<noteq> NO_MAC"
    and "\<forall>e\<in>set es. ni_event_ok e \<and> ni_silent ni ip e" "ni_time ni + ni_elapsed es < 2 ^ 64" "sendable d"
  shows "\<exists>ni1 ni2. ni_run ni (NI_recv f # es) = Inr ni1 \<and>
    NetworkInterface_send_datagram ni1 d (address_of_ipv4 ip) = Inr ni2 \<and>
    (if ni_elapsed es \<le> TTL
     then ni_frames_out ni2 = ni_frames_out ni1 @ [ni_datagram_frame ni (arp_sender_ethernet_address m) d]
     else ni_pending ni2 ip = ni_pending ni1 ip @ [d] \<and>
       ni_frames_out ni2 = ni_frames_out ni1 @ (if arp_waits ni1 ip then [] else [arp_request ni ip]))"
proof -
  let ?mac = "arp_sender_ethernet_address m"
  have heard: "ni_step ni (NI_recv f) = Inr (ni_heard ni m)"
    using ni_step_next [of ni "NI_recv f"] assms(1,2,3) by simp
  let ?ni = "ni_heard ni m"
  have "ni_inv ?ni" using heard_inv [OF assms(1)] hears_length [OF assms(3)] by blast
  moreover have "ni_map ?ni ip = Some \<lparr>am_mac_addr = ?mac, am_time_stamp = ni_time ?ni\<rparr>"
    using assms(4) by (simp add: heard_simps)
  moreover have "\<forall>e\<in>set es. ni_event_ok e \<and> ni_silent ?ni ip e"
    using assms(6) silent_same [of ?ni ni ip] by simp
  ultimately obtain ni1 where ni1: "ni_run ?ni es = Inr ni1" "ni_inv ni1"
    "ni_map ni1 ip = ni_map ?ni ip \<or> (ni_map ni1 ip = None \<and> ni_elapsed es > TTL)"
    "ni_ethernet_address ni1 = ni_ethernet_address ni" "ni_ip_address ni1 = ni_ip_address ni"
    "ni_time ni1 = ni_time ni + ni_elapsed es"
    using run_cached [of ?ni ip ?mac es] assms(7) by auto
  have "ni_mac ni1 ip = (if ni_elapsed es \<le> TTL then Some ?mac else None)"
    using ni1(3,6) assms(4,5) by (auto simp: ni_mac_def heard_simps)
  then have "if ni_elapsed es \<le> TTL
     then ni_frames_out (ni_sent ni1 ip d) = ni_frames_out ni1 @ [ni_datagram_frame ni ?mac d]
     else ni_pending (ni_sent ni1 ip d) ip = ni_pending ni1 ip @ [d] \<and>
       ni_frames_out (ni_sent ni1 ip d) = ni_frames_out ni1 @ (if arp_waits ni1 ip then [] else [arp_request ni ip])"
    using frames_same [OF ni1(4,5)] by (simp add: pending_sent) (simp add: ni_sent_def enqueue_simps)
  with heard ni1(1) send_datagram_sent [OF ni1(2) assms(8)] show ?thesis by simp
qed

theorem arp_cache_witness:
  "\<exists>ni1 ni2. ni_run sample_host [NI_recv sample_reply, NI_tick 30000] = Inr ni1 \<and>
    NetworkInterface_send_datagram ni1 sample_datagram (address_of_ipv4 0x0a000002) = Inr ni2 \<and>
    ni_frames_out ni2 = ni_frames_out ni1 @ [ni_datagram_frame sample_host [2, 0, 0, 0, 0, 2] sample_datagram]"
  using arp_cache [OF sample_host_facts(1) sample_reply_heard(2,1), of "0x0a000002" "[NI_tick 30000]" sample_datagram]
  by (simp add: sample_sendable NO_MAC_def TTL_def)

end
