(* ===== verification/Router.thy ===== *)
theory Router
  imports Network_Interface
begin

text \<open>
  The IP router: \<open>router.hh\<close> and \<open>router.cc\<close>. An \<open>AsyncNetworkInterface\<close> extends
  the record of the interface it derives from by its queue of received datagrams.
\<close>

unbundle bit_operations_syntax

section \<open>The model\<close>

record async_network_interface = network_interface +
  an_datagrams_out :: "ipv4_datagram list"

definition AsyncNetworkInterface_new :: "network_interface \<Rightarrow> async_network_interface" where
  "AsyncNetworkInterface_new ni = network_interface.extend ni \<lparr>an_datagrams_out = []\<rparr>"

definition AsyncNetworkInterface_recv_frame ::
    "async_network_interface \<Rightarrow> ethernet_frame \<Rightarrow> async_network_interface result" where
  "AsyncNetworkInterface_recv_frame an frame =
     bindR (NetworkInterface_recv_frame an frame) (\<lambda>(optional_dgram, an).
       case optional_dgram of
         Some dgram \<Rightarrow> Inr (an\<lparr>an_datagrams_out := an_datagrams_out an @ [dgram]\<rparr>)
       | None \<Rightarrow> Inr an)"

record route =
  ro_route_prefix :: uint32
  ro_prefix_length :: byte
  ro_next_hop :: "address option"
  ro_interface_num :: size_t

definition Route_default :: route where
  "Route_default = \<lparr>ro_route_prefix = 0, ro_prefix_length = 0, ro_next_hop = None, ro_interface_num = 0\<rparr>"

record router =
  rt_interfaces :: "async_network_interface list"
  rt_route_table :: "route list"

definition Router_new :: router where
  "Router_new = \<lparr>rt_interfaces = [], rt_route_table = []\<rparr>"

definition Router_add_interface :: "router \<Rightarrow> async_network_interface \<Rightarrow> size_t \<times> router" where
  "Router_add_interface r interface =
     (let r = r\<lparr>rt_interfaces := rt_interfaces r @ [interface]\<rparr>
      in (length (rt_interfaces r) - 1, r))"

definition Router_interface :: "router \<Rightarrow> size_t \<Rightarrow> async_network_interface result" where
  "Router_interface r N = (if N < length (rt_interfaces r) then Inr (rt_interfaces r ! N) else Inl OutOfRange)"

text \<open>The debugging output resolves the addresses to text and may throw.\<close>

definition Router_add_route ::
    "getnameinfo \<Rightarrow> router \<Rightarrow> uint32 \<Rightarrow> byte \<Rightarrow> address option \<Rightarrow> size_t \<Rightarrow> router result" where
  "Router_add_route gni r route_prefix prefix_length next_hop interface_num =
     bindR (Address_from_ipv4_numeric route_prefix) (\<lambda>a.
     bindR (Address_ip gni a) (\<lambda>_.
     bindR (case next_hop of Some h \<Rightarrow> Address_ip gni h | None \<Rightarrow> Inr ''(direct)'') (\<lambda>_.
       Inr (r\<lparr>rt_route_table := rt_route_table r @
              [\<lparr>ro_route_prefix = route_prefix, ro_prefix_length = prefix_length,
                ro_next_hop = next_hop, ro_interface_num = interface_num\<rparr>]\<rparr>))))"

text \<open>The shift count is \<open>32 - prefix_length\<close>; a negative one is undefined.\<close>

definition Router_prefix_match :: "uint32 \<Rightarrow> uint32 \<Rightarrow> byte \<Rightarrow> bool result" where
  "Router_prefix_match ip route_prefix prefix_length =
     (if prefix_length = 0 then Inr (0 = route_prefix)
      else if unat prefix_length > 32 then Inl UndefinedBehaviour
      else
        let n = 32 - unat prefix_length; ip = push_bit n (drop_bit n ip)
        in Inr (ip = route_prefix))"

text \<open>The loop over the table: whether a route matched so far, and which.\<close>

fun Router_search :: "uint32 \<Rightarrow> route list \<Rightarrow> bool \<times> route \<Rightarrow> (bool \<times> route) result" where
  "Router_search ip_addr [] (match, r) = Inr (match, r)"
| "Router_search ip_addr (t # ts) (match, r) =
     bindR (Router_prefix_match ip_addr (ro_route_prefix t) (ro_prefix_length t)) (\<lambda>m.
       if m then
         if \<not> match then Router_search ip_addr ts (True, t)
         else if ro_prefix_length r < ro_prefix_length t then Router_search ip_addr ts (match, t)
         else Router_search ip_addr ts (match, r)
       else Router_search ip_addr ts (match, r))"

definition Router_send :: "router \<Rightarrow> size_t \<Rightarrow> ipv4_datagram \<Rightarrow> address \<Rightarrow> router result" where
  "Router_send r interface_num dgram next_hop =
     bindR (Router_interface r interface_num) (\<lambda>an.
     bindR (NetworkInterface_send_datagram an dgram next_hop) (\<lambda>an.
       Inr (r\<lparr>rt_interfaces := (rt_interfaces r)[interface_num := an]\<rparr>)))"

definition Router_route_one_datagram :: "router \<Rightarrow> ipv4_datagram \<Rightarrow> router result" where
  "Router_route_one_datagram rt dgram =
     (let ip_addr = ip_dst (dg_header dgram)
      in bindR (Router_search ip_addr (rt_route_table rt) (False, Route_default)) (\<lambda>(match, r).
           if \<not> match then Inr rt
           else if ip_ttl (dg_header dgram) \<le> 1 then Inr rt
           else
             let dgram = dgram\<lparr>dg_header := (dg_header dgram)\<lparr>ip_ttl := ip_ttl (dg_header dgram) - 1\<rparr>\<rparr>
             in case ro_next_hop r of
                  Some next_hop \<Rightarrow> Router_send rt (ro_interface_num r) dgram next_hop
                | None \<Rightarrow>
                    bindR (Address_from_ipv4_numeric ip_addr) (\<lambda>a.
                      Router_send rt (ro_interface_num r) dgram a)))"

definition Router_pop :: "router \<Rightarrow> nat \<Rightarrow> router" where
  "Router_pop r i =
     r\<lparr>rt_interfaces := (rt_interfaces r)
         [i := (rt_interfaces r ! i)\<lparr>an_datagrams_out := tl (an_datagrams_out (rt_interfaces r ! i))\<rparr>]\<rparr>"

section \<open>Routing leaves the queues alone\<close>

lemma send_arp_more:
  "NetworkInterface_send_arp ni ip = Inr ni' \<Longrightarrow> network_interface.more ni' = network_interface.more ni"
  by (auto simp: NetworkInterface_send_arp_def bindR_eq_Inr push_frame Let_def)

lemma send_datagram_more:
  assumes "NetworkInterface_send_datagram ni d a = Inr ni'"
  shows "network_interface.more ni' = network_interface.more ni"
proof -
  obtain ip where ip: "Address_ipv4_numeric a = Inr ip"
    using assms by (auto simp: NetworkInterface_send_datagram_def bindR_eq_Inr)
  obtain mac ni1 where m: "NetworkInterface_map ni ip = (mac, ni1)" by fastforce
  then have "network_interface.more ni1 = network_interface.more ni"
    using purge_fields(7) [of ni ip] by (simp add: ni_purge_def)
  with assms ip m show ?thesis
    by (auto simp: NetworkInterface_send_datagram_def bindR_eq_Inr push_frame Let_def
        split: if_splits option.splits dest!: send_arp_more)
qed

lemma Router_send_queues:
  assumes "Router_send r n d a = Inr r'"
  shows "map an_datagrams_out (rt_interfaces r') = map an_datagrams_out (rt_interfaces r)"
    and "rt_route_table r' = rt_route_table r"
proof -
  obtain an where n: "n < length (rt_interfaces r)"
    and an: "NetworkInterface_send_datagram (rt_interfaces r ! n) d a = Inr an"
    and r': "r' = r\<lparr>rt_interfaces := (rt_interfaces r)[n := an]\<rparr>"
    using assms by (auto simp: Router_send_def Router_interface_def bindR_eq_Inr split: if_splits)
  from send_datagram_more [OF an] have "an_datagrams_out an = an_datagrams_out (rt_interfaces r ! n)"
    by (cases an; cases "rt_interfaces r ! n") simp
  then show "map an_datagrams_out (rt_interfaces r') = map an_datagrams_out (rt_interfaces r)"
    and "rt_route_table r' = rt_route_table r"
    using n by (simp_all add: r' map_update list_update_same_conv)
qed

lemma route_one_queues:
  assumes "Router_route_one_datagram r d = Inr r'"
  shows "map an_datagrams_out (rt_interfaces r') = map an_datagrams_out (rt_interfaces r)"
    and "rt_route_table r' = rt_route_table r"
  using assms
  by (auto simp: Router_route_one_datagram_def bindR_eq_Inr Let_def
      split: if_splits option.splits dest: Router_send_queues)

lemma route_one_length:
  "Router_route_one_datagram r d = Inr r' \<Longrightarrow> length (rt_interfaces r') = length (rt_interfaces r)"
  by (drule route_one_queues(1), drule arg_cong [where f = length], simp)

lemma route_one_queue:
  assumes "Router_route_one_datagram r d = Inr r'" "i < length (rt_interfaces r)"
  shows "an_datagrams_out (rt_interfaces r' ! i) = an_datagrams_out (rt_interfaces r ! i)"
  using arg_cong [OF route_one_queues(1) [OF assms(1)], of "\<lambda>xs. xs ! i"] assms(2)
    route_one_length [OF assms(1)] by simp

section \<open>The routing loops\<close>

function Router_drain :: "router \<Rightarrow> nat \<Rightarrow> router result" where
  "Router_drain r i =
     (if i < length (rt_interfaces r) \<and> an_datagrams_out (rt_interfaces r ! i) \<noteq> [] then
        bindR (Router_route_one_datagram r (hd (an_datagrams_out (rt_interfaces r ! i)))) (\<lambda>r'.
          Router_drain (Router_pop r' i) i)
      else Inr r)"
  by pat_completeness auto
termination
proof (relation "measure (\<lambda>(r, i). length (an_datagrams_out (rt_interfaces r ! i)))")
  fix r r' i
  assume i: "i < length (rt_interfaces r) \<and> an_datagrams_out (rt_interfaces r ! i) \<noteq> []"
    and r': "Router_route_one_datagram r (hd (an_datagrams_out (rt_interfaces r ! i))) = Inr r'"
  then show "((Router_pop r' i, i), r, i) \<in> measure (\<lambda>(r, i). length (an_datagrams_out (rt_interfaces r ! i)))"
    using route_one_queue [OF r'] route_one_length [OF r'] by (simp add: Router_pop_def)
qed simp

declare Router_drain.simps [simp del]

fun Router_route_from :: "router \<Rightarrow> nat list \<Rightarrow> router result" where
  "Router_route_from r [] = Inr r"
| "Router_route_from r (i # is) = bindR (Router_drain r i) (\<lambda>r'. Router_route_from r' is)"

definition Router_route :: "router \<Rightarrow> router result" where
  "Router_route r = Router_route_from r [0..<length (rt_interfaces r)]"

section \<open>The route chosen\<close>

definition route_matches :: "uint32 \<Rightarrow> route \<Rightarrow> bool" where
  "route_matches ip t \<longleftrightarrow> Router_prefix_match ip (ro_route_prefix t) (ro_prefix_length t) = Inr True"

definition table_ok :: "route list \<Rightarrow> bool" where
  "table_ok ts \<longleftrightarrow> (\<forall>t\<in>set ts. unat (ro_prefix_length t) \<le> 32)"

text \<open>The first of the routes with the longest prefix.\<close>

definition longest :: "route \<Rightarrow> route list \<Rightarrow> route" where
  "longest r ts = foldl (\<lambda>r t. if ro_prefix_length r < ro_prefix_length t then t else r) r ts"

lemma longest_spec:
  "\<exists>i<length (r # ts). longest r ts = (r # ts) ! i \<and>
    (\<forall>j<length (r # ts). ro_prefix_length ((r # ts) ! j) \<le> ro_prefix_length (longest r ts)) \<and>
    (\<forall>j<i. ro_prefix_length ((r # ts) ! j) < ro_prefix_length (longest r ts))"
proof (induction ts rule: rev_induct)
  case Nil
  then show ?case by (simp add: longest_def)
next
  case (snoc t ts)
  then obtain i where i: "i < length (r # ts)" "longest r ts = (r # ts) ! i"
    "\<forall>j<length (r # ts). ro_prefix_length ((r # ts) ! j) \<le> ro_prefix_length (longest r ts)"
    "\<forall>j<i. ro_prefix_length ((r # ts) ! j) < ro_prefix_length (longest r ts)" by blast
  have nth: "(r # ts @ [t]) ! j = (if j < length (r # ts) then (r # ts) ! j else t)"
    if "j < length (r # ts @ [t])" for j
    using that nth_append [of "r # ts" "[t]" j] by (auto simp: less_Suc_eq)
  show ?case
  proof (cases "ro_prefix_length (longest r ts) < ro_prefix_length t")
    case True
    then have "longest r (ts @ [t]) = t" by (simp add: longest_def)
    moreover have "ro_prefix_length ((r # ts) ! j) < ro_prefix_length t" if "j < length (r # ts)" for j
      using i(3) that True le_less_trans by blast
    ultimately show ?thesis
      by (intro exI [of _ "length (r # ts)"]) (auto simp: nth le_less)
  next
    case False
    then have "longest r (ts @ [t]) = longest r ts" by (simp add: longest_def)
    with i False show ?thesis by (intro exI [of _ i]) (auto simp: nth)
  qed
qed

lemma prefix_match_total:
  "unat len \<le> 32 \<Longrightarrow> Router_prefix_match ip prefix len = Inr (\<forall>k<32. bit prefix k \<longleftrightarrow> 32 - unat len \<le> k \<and> bit ip k)"
proof -
  assume len: "unat len \<le> 32"
  let ?n = "32 - unat len"
  have "push_bit ?n (drop_bit ?n ip) = prefix \<longleftrightarrow> (\<forall>k<32. bit prefix k \<longleftrightarrow> ?n \<le> k \<and> bit ip k)"
    by (auto simp: bit_eq_iff bit_push_bit_iff bit_drop_bit_eq)
  moreover have "push_bit 32 (drop_bit 32 ip) = 0" by (rule bit_eqI) (simp add: bit_push_bit_iff)
  ultimately show ?thesis
    using len by (cases "len = 0") (auto simp: Router_prefix_match_def Let_def)
qed

lemma search_matched:
  "table_ok ts \<Longrightarrow> Router_search ip ts (True, r) = Inr (True, longest r (filter (route_matches ip) ts))"
proof (induction ts arbitrary: r)
  case (Cons t ts)
  then obtain b where "Router_prefix_match ip (ro_route_prefix t) (ro_prefix_length t) = Inr b"
    by (auto simp: table_ok_def prefix_match_total)
  with Cons show ?case by (auto simp: table_ok_def route_matches_def longest_def)
qed (simp add: longest_def)

lemma search_first:
  "table_ok ts \<Longrightarrow> Router_search ip ts (False, r) =
    Inr (case filter (route_matches ip) ts of [] \<Rightarrow> (False, r) | t # ts' \<Rightarrow> (True, longest t ts'))"
proof (induction ts)
  case (Cons t ts)
  then obtain b where "Router_prefix_match ip (ro_route_prefix t) (ro_prefix_length t) = Inr b"
    by (auto simp: table_ok_def prefix_match_total)
  moreover from this have "route_matches ip t = b" by (simp add: route_matches_def)
  ultimately show ?case using Cons by (simp add: table_ok_def search_matched)
qed simp

text \<open>The next hop of a route for a destination.\<close>

definition route_hop :: "route \<Rightarrow> uint32 \<Rightarrow> address" where
  "route_hop t ip = (case ro_next_hop t of Some a \<Rightarrow> a | None \<Rightarrow> address_of_ipv4 ip)"

definition dgram_ttl :: "ipv4_datagram \<Rightarrow> byte \<Rightarrow> ipv4_datagram" where
  "dgram_ttl d ttl = d\<lparr>dg_header := (dg_header d)\<lparr>ip_ttl := ttl\<rparr>\<rparr>"

lemma route_one_exact:
  assumes "table_ok (rt_route_table rt)"
  shows "Router_route_one_datagram rt d =
    (case filter (route_matches (ip_dst (dg_header d))) (rt_route_table rt) of
       [] \<Rightarrow> Inr rt
     | t # ts \<Rightarrow>
         if ip_ttl (dg_header d) \<le> 1 then Inr rt
         else Router_send rt (ro_interface_num (longest t ts)) (dgram_ttl d (ip_ttl (dg_header d) - 1))
                (route_hop (longest t ts) (ip_dst (dg_header d))))"
  unfolding Router_route_one_datagram_def Let_def search_first [OF assms]
  by (simp add: route_hop_def dgram_ttl_def split: list.split option.split)

section \<open>The effect of routing a datagram\<close>

text \<open>Whether a datagram can be serialized does not depend on its time to live.\<close>

lemma sendable_ttl [simp]: "sendable (dgram_ttl d ttl) \<longleftrightarrow> sendable d"
  by (simp add: sendable_def dgram_ttl_def IPv4Datagram_serialize_def IPv4Header_serialize_def
      IPv4Header_payload_length_def Let_def)

text \<open>
  The routes name interfaces the router has and hops with an IPv4 address, and the interfaces are
  consistent. Nothing is asked of the datagrams received.
\<close>

definition route_hop_ip :: "route \<Rightarrow> uint32 \<Rightarrow> uint32" where
  "route_hop_ip t ip = (case Address_ipv4_numeric (route_hop t ip) of Inr hop \<Rightarrow> hop | Inl _ \<Rightarrow> 0)"

definition router_ok :: "router \<Rightarrow> bool" where
  "router_ok r \<longleftrightarrow>
     table_ok (rt_route_table r) \<and>
     (\<forall>t\<in>set (rt_route_table r). ro_interface_num t < length (rt_interfaces r) \<and>
        (\<forall>ip. Address_ipv4_numeric (route_hop t ip) = Inr (route_hop_ip t ip))) \<and>
     (\<forall>an\<in>set (rt_interfaces r). ni_wf an)"

text \<open>The abstract effect of routing one datagram.\<close>

definition route_spec :: "router \<Rightarrow> ipv4_datagram \<Rightarrow> router" where
  "route_spec r d =
     (let dst = ip_dst (dg_header d); ttl = ip_ttl (dg_header d)
      in case filter (route_matches dst) (rt_route_table r) of
           [] \<Rightarrow> r
         | t # ts \<Rightarrow>
             let n = ro_interface_num (longest t ts)
             in if ttl \<le> 1 then r
                else r\<lparr>rt_interfaces := (rt_interfaces r)
                      [n := ni_sent (rt_interfaces r ! n) (route_hop_ip (longest t ts) dst) (dgram_ttl d (ttl - 1))]\<rparr>)"

lemma send_numeric:
  "Address_ipv4_numeric a = Inr ip \<Longrightarrow>
    NetworkInterface_send_datagram ni d a = NetworkInterface_send_datagram ni d (address_of_ipv4 ip)"
  by (simp add: NetworkInterface_send_datagram_def)

lemma longest_in: "longest t ts \<in> set (t # ts)"
  using longest_spec [of t ts] by (metis nth_mem)

lemma chosen_in_table:
  "filter (route_matches ip) (rt_route_table r) = t # ts \<Longrightarrow> longest t ts \<in> set (rt_route_table r)"
  using longest_in [of t ts] by (metis filter_is_subset subsetD)

text \<open>Routing has this effect, or throws because the datagram cannot be serialized.\<close>

definition routed :: "ipv4_datagram list \<Rightarrow> router result \<Rightarrow> router \<Rightarrow> bool" where
  "routed ds res r' \<longleftrightarrow> res = Inr r' \<or> (res = Inl RuntimeError \<and> (\<exists>d\<in>set ds. \<not> sendable d))"

lemma routed_bind:
  "routed ds m r \<Longrightarrow> routed ds' (f r) r' \<Longrightarrow> routed (ds @ ds') (bindR m f) r'"
  by (auto simp: routed_def)

lemma route_one_spec:
  assumes "router_ok r"
  shows "routed [d] (Router_route_one_datagram r d) (route_spec r d)"
proof (cases "filter (route_matches (ip_dst (dg_header d))) (rt_route_table r)")
  case Nil
  then show ?thesis using assms by (simp add: router_ok_def route_one_exact route_spec_def routed_def)
next
  case (Cons t ts)
  let ?t = "longest t ts"
  have t: "ro_interface_num ?t < length (rt_interfaces r)"
    "Address_ipv4_numeric (route_hop ?t ip) = Inr (route_hop_ip ?t ip)" for ip
    using chosen_in_table [OF Cons] assms by (auto simp: router_ok_def)
  then have "ni_wf (rt_interfaces r ! ro_interface_num ?t)" using assms by (simp add: router_ok_def)
  note sent = send_datagram_wf [OF this]
  from t sent Cons assms show ?thesis
    by (simp add: router_ok_def route_one_exact route_spec_def Let_def Router_send_def Router_interface_def
        send_numeric [OF t(2)] routed_def)
qed

text \<open>The interface's queue of received datagrams takes no part in sending.\<close>

lemma purge_queue [simp]:
  "ni_purge (an\<lparr>an_datagrams_out := q\<rparr>) ip = (ni_purge an ip)\<lparr>an_datagrams_out := q\<rparr>"
  "an_datagrams_out (ni_purge an ip) = an_datagrams_out an"
  by (simp_all add: ni_purge_def NetworkInterface_map_def split: option.split)

lemma queue_simps [simp]:
  "ni_mac (an\<lparr>an_datagrams_out := q\<rparr>) = ni_mac an" "ni_pending (an\<lparr>an_datagrams_out := q\<rparr>) = ni_pending an"
  "arp_waits (an\<lparr>an_datagrams_out := q\<rparr>) = arp_waits an" "ni_inv (an\<lparr>an_datagrams_out := q\<rparr>) = ni_inv an"
  "ni_wf (an\<lparr>an_datagrams_out := q\<rparr>) = ni_wf an"
  "ni_datagram_frame (an\<lparr>an_datagrams_out := q\<rparr>) = ni_datagram_frame an"
  "arp_request (an\<lparr>an_datagrams_out := q\<rparr>) = arp_request an"
  by (simp_all add: fun_eq_iff ni_mac_def ni_pending_def arp_waits_def ni_inv_def ni_wf_def ni_datagram_frame_def
      ni_frame_def arp_request_def ni_arp_frame_def arp_of_def ni_my_ip_def split: option.split)

lemma sent_queue [simp]:
  "ni_sent (an\<lparr>an_datagrams_out := q\<rparr>) ip d = (ni_sent an ip d)\<lparr>an_datagrams_out := q\<rparr>"
  "an_datagrams_out (ni_sent an ip d) = an_datagrams_out an"
  by (simp_all add: ni_sent_def ni_enqueue_def split: option.split)

section \<open>Routing everything\<close>

definition rt_queue :: "router \<Rightarrow> nat \<Rightarrow> ipv4_datagram list" where
  "rt_queue r i = an_datagrams_out (rt_interfaces r ! i)"

definition rt_set_queue :: "router \<Rightarrow> nat \<Rightarrow> ipv4_datagram list \<Rightarrow> router" where
  "rt_set_queue r i q = r\<lparr>rt_interfaces := (rt_interfaces r)[i := (rt_interfaces r ! i)\<lparr>an_datagrams_out := q\<rparr>]\<rparr>"

lemma set_queue_simps [simp]:
  "length (rt_interfaces (rt_set_queue r i q)) = length (rt_interfaces r)"
  "rt_route_table (rt_set_queue r i q) = rt_route_table r"
  "i < length (rt_interfaces r) \<Longrightarrow> rt_queue (rt_set_queue r i q) j = (if j = i then q else rt_queue r j)"
  "i < length (rt_interfaces r) \<Longrightarrow> rt_set_queue (rt_set_queue r i q) i q' = rt_set_queue r i q'"
  by (simp_all add: rt_set_queue_def rt_queue_def nth_list_update)

lemma pop_set_queue: "Router_pop r i = rt_set_queue r i (tl (rt_queue r i))"
  by (simp add: Router_pop_def rt_set_queue_def rt_queue_def)

lemma set_queue_same: "i < length (rt_interfaces r) \<Longrightarrow> rt_set_queue r i (rt_queue r i) = r"
  by (simp add: rt_set_queue_def rt_queue_def)

definition rt_sent :: "router \<Rightarrow> nat \<Rightarrow> uint32 \<Rightarrow> ipv4_datagram \<Rightarrow> router" where
  "rt_sent r n ip d = r\<lparr>rt_interfaces := (rt_interfaces r)[n := ni_sent (rt_interfaces r ! n) ip d]\<rparr>"

lemma spec_cases:
  "route_spec r d = r \<or> (\<exists>t ttl. t \<in> set (rt_route_table r) \<and> route_spec r d =
    rt_sent r (ro_interface_num t) (route_hop_ip t (ip_dst (dg_header d))) (dgram_ttl d ttl))"
proof (cases "filter (route_matches (ip_dst (dg_header d))) (rt_route_table r)")
  case (Cons t ts)
  then show ?thesis using chosen_in_table [OF Cons] by (auto simp: route_spec_def Let_def rt_sent_def)
qed (simp add: route_spec_def)

lemma rt_sent_fields [simp]:
  "length (rt_interfaces (rt_sent r n ip d)) = length (rt_interfaces r)"
  "rt_route_table (rt_sent r n ip d) = rt_route_table r"
  "rt_queue (rt_sent r n ip d) i = rt_queue r i"
  by (cases "n < length (rt_interfaces r)"; simp add: rt_sent_def rt_queue_def nth_list_update list_update_beyond)+

lemma spec_fields [simp]:
  "length (rt_interfaces (route_spec r d)) = length (rt_interfaces r)"
  "rt_route_table (route_spec r d) = rt_route_table r"
  "rt_queue (route_spec r d) i = rt_queue r i"
  using spec_cases [of r d] by auto

lemma spec_set_queue:
  assumes "i < length (rt_interfaces r)"
  shows "route_spec (rt_set_queue r i q) d = rt_set_queue (route_spec r d) i q"
proof (cases "filter (route_matches (ip_dst (dg_header d))) (rt_route_table r)")
  case (Cons t ts)
  then show ?thesis
    using assms
    by (cases "ro_interface_num (longest t ts) = i")
       (simp_all add: route_spec_def Let_def rt_set_queue_def list_update_swap)
qed (simp add: route_spec_def rt_set_queue_def)

lemma specs_fields [simp]:
  "length (rt_interfaces (foldl route_spec r ds)) = length (rt_interfaces r)"
  "rt_queue (foldl route_spec r ds) i = rt_queue r i"
  by (induction ds arbitrary: r) simp_all

lemma specs_set_queue:
  "i < length (rt_interfaces r) \<Longrightarrow>
    foldl route_spec (rt_set_queue r i q) ds = rt_set_queue (foldl route_spec r ds) i q"
  by (induction ds arbitrary: r) (simp_all add: spec_set_queue)

lemma update_ok:
  assumes "router_ok r" "ni_wf an"
  shows "router_ok (r\<lparr>rt_interfaces := (rt_interfaces r)[n := an]\<rparr>)"
  using assms set_update_subset_insert [of "rt_interfaces r" n an] by (auto simp: router_ok_def)

lemma set_queue_ok:
  "router_ok r \<Longrightarrow> i < length (rt_interfaces r) \<Longrightarrow> router_ok (rt_set_queue r i q)"
  unfolding rt_set_queue_def by (rule update_ok) (simp_all add: router_ok_def)

lemma spec_ok:
  assumes "router_ok r"
  shows "router_ok (route_spec r d)"
proof -
  consider "route_spec r d = r"
    | t ttl where "t \<in> set (rt_route_table r)" "route_spec r d =
        rt_sent r (ro_interface_num t) (route_hop_ip t (ip_dst (dg_header d))) (dgram_ttl d ttl)"
    using spec_cases by blast
  then show ?thesis
  proof cases
    case 1
    then show ?thesis using assms by simp
  next
    case (2 t ttl)
    then have "ni_wf (rt_interfaces r ! ro_interface_num t)" using assms by (simp add: router_ok_def)
    from sent_wf [OF this] show ?thesis
      unfolding 2(2) rt_sent_def by (rule update_ok [OF assms])
  qed
qed

lemma specs_ok: "router_ok r \<Longrightarrow> router_ok (foldl route_spec r ds)"
  by (induction ds arbitrary: r) (simp_all add: spec_ok)

lemma drain_spec:
  assumes "router_ok r" "i < length (rt_interfaces r)"
  shows "routed (rt_queue r i) (Router_drain r i) (rt_set_queue (foldl route_spec r (rt_queue r i)) i [])"
  using assms
proof (induction "rt_queue r i" arbitrary: r)
  case Nil
  then show ?case
    using set_queue_same [of i r] by (simp add: Router_drain.simps rt_queue_def [symmetric] routed_def)
next
  case (Cons d q)
  let ?r = "rt_set_queue (route_spec r d) i q"
  have "rt_queue ?r i = q" using Cons.prems by simp
  moreover have "router_ok ?r" using spec_ok [OF Cons.prems(1)] Cons.prems(2) by (simp add: set_queue_ok)
  ultimately have "routed q (Router_drain ?r i) (rt_set_queue (foldl route_spec ?r q) i [])"
    using Cons.hyps(1) [of ?r] Cons.prems(2) by simp
  then have "routed ([d] @ q) (bindR (Router_route_one_datagram r d) (\<lambda>r'. Router_drain (Router_pop r' i) i))
      (rt_set_queue (foldl route_spec ?r q) i [])"
    by (intro routed_bind [OF route_one_spec [OF Cons.prems(1)]]) (simp add: pop_set_queue flip: Cons.hyps(2))
  moreover have "Router_drain r i =
      bindR (Router_route_one_datagram r d) (\<lambda>r'. Router_drain (Router_pop r' i) i)"
    using Cons.prems(2) by (subst Router_drain.simps) (simp add: rt_queue_def [symmetric] flip: Cons.hyps(2))
  ultimately show ?case
    using Cons.prems(2) by (simp add: specs_set_queue flip: Cons.hyps(2))
qed

lemma route_from_spec:
  assumes "router_ok r" "distinct is" "\<forall>i\<in>set is. i < length (rt_interfaces r)"
  shows "routed (concat (map (rt_queue r) is)) (Router_route_from r is)
    (foldl (\<lambda>r i. rt_set_queue r i []) (foldl route_spec r (concat (map (rt_queue r) is))) is)"
  using assms
proof (induction "is" arbitrary: r)
  case (Cons i "is")
  let ?r = "rt_set_queue (foldl route_spec r (rt_queue r i)) i []"
  have i: "i < length (rt_interfaces r)" using Cons.prems(3) by simp
  have ok: "router_ok ?r" using specs_ok [OF Cons.prems(1)] i by (simp add: set_queue_ok)
  have "rt_queue ?r j = rt_queue r j" if "j \<in> set is" for j using that i Cons.prems(2) by auto
  then have "map (rt_queue ?r) is = map (rt_queue r) is" by (intro map_cong) auto
  moreover have "distinct is" "\<forall>i\<in>set is. i < length (rt_interfaces ?r)" using Cons.prems(2,3) by auto
  ultimately have "routed (concat (map (rt_queue r) is)) (Router_route_from ?r is)
      (foldl (\<lambda>r i. rt_set_queue r i []) (foldl route_spec ?r (concat (map (rt_queue r) is))) is)"
    using Cons.IH [OF ok] by (simp only:)
  from routed_bind [OF drain_spec [OF Cons.prems(1) i], of _ "\<lambda>r'. Router_route_from r' is", OF this] i
  show ?case by (simp add: specs_set_queue)
qed (simp add: routed_def)

text \<open>When the datagrams can be serialized, so can those that wait in the interfaces.\<close>

lemma specs_inv:
  assumes "\<forall>an\<in>set (rt_interfaces r). ni_inv an" "\<forall>d\<in>set ds. sendable d" "router_ok r"
  shows "\<forall>an\<in>set (rt_interfaces (foldl route_spec r ds)). ni_inv an"
  using assms
proof (induction ds arbitrary: r)
  case (Cons d ds)
  consider "route_spec r d = r"
    | t ttl where "t \<in> set (rt_route_table r)" "route_spec r d =
        rt_sent r (ro_interface_num t) (route_hop_ip t (ip_dst (dg_header d))) (dgram_ttl d ttl)"
    using spec_cases by blast
  then have "\<forall>an\<in>set (rt_interfaces (route_spec r d)). ni_inv an"
  proof cases
    case (2 t ttl)
    then have "ro_interface_num t < length (rt_interfaces r)" using Cons.prems(3) by (simp add: router_ok_def)
    with Cons.prems(1,2) show ?thesis
      unfolding 2(2) rt_sent_def
      by (auto simp: sent_inv dest!: set_update_subset_insert [THEN subsetD])
  qed (use Cons.prems(1) in simp)
  with Cons show ?case by (simp add: spec_ok)
qed simp

definition rt_clear :: "router \<Rightarrow> router" where
  "rt_clear r = r\<lparr>rt_interfaces := map (\<lambda>an. an\<lparr>an_datagrams_out := []\<rparr>) (rt_interfaces r)\<rparr>"

lemma clear_all: "foldl (\<lambda>r i. rt_set_queue r i []) r [0..<length (rt_interfaces r)] = rt_clear r"
proof -
  let ?c = "\<lambda>an. an\<lparr>an_datagrams_out := []\<rparr>"
  have "foldl (\<lambda>r i. rt_set_queue r i []) r [0..<n] =
      r\<lparr>rt_interfaces := map ?c (take n (rt_interfaces r)) @ drop n (rt_interfaces r)\<rparr>"
    if "n \<le> length (rt_interfaces r)" for n
    using that
  proof (induction n)
    case (Suc n)
    then have "drop n (rt_interfaces r) = rt_interfaces r ! n # drop (Suc n) (rt_interfaces r)"
      by (simp add: Cons_nth_drop_Suc)
    with Suc show ?case
      by (simp add: rt_set_queue_def list_update_append nth_append take_Suc_conv_app_nth)
  qed simp
  from this [OF order_refl] show ?thesis by (simp add: rt_clear_def)
qed

text \<open>A router between two networks, with a default route through the gateway of the first.\<close>

definition sample_router :: router where
  "sample_router =
     \<lparr>rt_interfaces =
        [AsyncNetworkInterface_new (ni_learned sample_host 0x0a000002 [2, 0, 0, 0, 0, 2]),
         AsyncNetworkInterface_new (NetworkInterface_init [2, 0, 0, 0, 1, 1] (address_of_ipv4 0xc0a80001))],
      rt_route_table =
        [\<lparr>ro_route_prefix = 0, ro_prefix_length = 0, ro_next_hop = Some (address_of_ipv4 0x0a000002),
          ro_interface_num = 0\<rparr>,
         \<lparr>ro_route_prefix = 0x0a000000, ro_prefix_length = 8, ro_next_hop = None, ro_interface_num = 1\<rparr>]\<rparr>"

lemma sample_interfaces [simp]:
  "length (rt_interfaces sample_router) = 2"
  "rt_interfaces sample_router ! 0 =
    AsyncNetworkInterface_new (ni_learned sample_host 0x0a000002 [2, 0, 0, 0, 0, 2])"
  "map an_datagrams_out (rt_interfaces sample_router) = [[], []]"
  by (simp_all add: sample_router_def AsyncNetworkInterface_new_def network_interface.defs
      async_network_interface.defs)

lemma async_new_same [simp]:
  "ni_inv (AsyncNetworkInterface_new ni) = ni_inv ni" "ni_mac (AsyncNetworkInterface_new ni) = ni_mac ni"
  by (simp_all add: fun_eq_iff ni_inv_def ni_mac_def AsyncNetworkInterface_new_def network_interface.defs
      ni_my_ip_def split: option.split)

lemma sample_learned:
  "ni_inv (ni_learned sample_host 0x0a000002 [2, 0, 0, 0, 0, 2])"
  "ni_mac (ni_learned sample_host 0x0a000002 [2, 0, 0, 0, 0, 2]) 0x0a000002 = Some [2, 0, 0, 0, 0, 2]"
  using sample_host_facts(1)
  by (simp_all add: ni_inv_def ni_learned_def ni_mac_def NO_MAC_def TTL_def)

lemma sample_table:
  "table_ok (rt_route_table sample_router)"
  "filter (route_matches 0x0a000002) (rt_route_table sample_router) = rt_route_table sample_router"
  "filter (route_matches 0) (rt_route_table sample_router) = [rt_route_table sample_router ! 0]"
  by (simp_all add: table_ok_def sample_router_def route_matches_def Router_prefix_match_def)

lemma sample_router_ok: "router_ok sample_router"
proof -
  have "\<forall>an\<in>set (rt_interfaces sample_router). ni_inv an \<and> an_datagrams_out an = []"
    using sample_learned(1)
    by (simp add: sample_router_def init_inv)
       (simp add: AsyncNetworkInterface_new_def network_interface.defs async_network_interface.defs)
  then show ?thesis
    using sample_table(1) by (auto simp: inv_wf router_ok_def sample_router_def route_hop_def route_hop_ip_def)
qed

section \<open>Properties\<close>

text \<open>
  C4: longest prefix match. Over a table with prefix lengths up to 32, a datagram with no matching
  route or with a time to live of at most one is dropped; any other is handed, with its time to live
  one lower, to the interface of the first among the matching routes with the longest prefix, for that
  route's next hop or, on a direct route, for the destination itself.
\<close>

theorem router_longest_prefix:
  assumes "table_ok (rt_route_table rt)"
    and "ms = filter (route_matches (ip_dst (dg_header d))) (rt_route_table rt)"
  shows "if ms = [] \<or> ip_ttl (dg_header d) \<le> 1 then Router_route_one_datagram rt d = Inr rt
    else \<exists>i<length ms.
      (\<forall>j<length ms. ro_prefix_length (ms ! j) \<le> ro_prefix_length (ms ! i)) \<and>
      (\<forall>j<i. ro_prefix_length (ms ! j) < ro_prefix_length (ms ! i)) \<and>
      Router_route_one_datagram rt d =
        Router_send rt (ro_interface_num (ms ! i)) (dgram_ttl d (ip_ttl (dg_header d) - 1))
          (route_hop (ms ! i) (ip_dst (dg_header d)))"
proof (cases ms)
  case (Cons t ts)
  from longest_spec [of t ts] obtain i where "i < length ms" "longest t ts = ms ! i"
    "\<forall>j<length ms. ro_prefix_length (ms ! j) \<le> ro_prefix_length (ms ! i)"
    "\<forall>j<i. ro_prefix_length (ms ! j) < ro_prefix_length (ms ! i)"
    unfolding Cons by metis
  moreover have "Router_route_one_datagram rt d = (if ip_ttl (dg_header d) \<le> 1 then Inr rt
      else Router_send rt (ro_interface_num (longest t ts)) (dgram_ttl d (ip_ttl (dg_header d) - 1))
        (route_hop (longest t ts) (ip_dst (dg_header d))))"
    using route_one_exact [OF assms(1), of d] assms(2) [symmetric] Cons by simp
  ultimately show ?thesis by auto
qed (use route_one_exact [OF assms(1), of d] assms(2) [symmetric] in simp)

theorem router_longest_prefix_witness:
  "Router_route_one_datagram sample_router sample_datagram =
    Router_send sample_router 1 (dgram_ttl sample_datagram 127) (address_of_ipv4 0x0a000002)"
proof -
  have d: "ip_dst (dg_header sample_datagram) = 0x0a000002" "ip_ttl (dg_header sample_datagram) = 128"
    by (simp_all add: sample_datagram_def IPv4Header_default_def IPv4Header_DEFAULT_TTL_def)
  have "\<not> (128 :: byte) \<le> 1" by (simp add: word_le_nat_alt)
  let ?t = "rt_route_table sample_router"
  have t: "length ?t = 2" "?t \<noteq> []" "ro_prefix_length (?t ! 0) = 0" "ro_prefix_length (?t ! 1) = 8"
    "ro_interface_num (?t ! 1) = 1" "route_hop (?t ! 1) 0x0a000002 = address_of_ipv4 0x0a000002"
    by (simp_all add: sample_router_def route_hop_def)
  from router_longest_prefix [OF sample_table(1) refl, of sample_datagram] obtain i where
    i: "i < 2" "ro_prefix_length (?t ! 1) \<le> ro_prefix_length (?t ! i)"
    "Router_route_one_datagram sample_router sample_datagram =
        Router_send sample_router (ro_interface_num (?t ! i)) (dgram_ttl sample_datagram (128 - 1))
          (route_hop (?t ! i) 0x0a000002)"
    unfolding d sample_table(2) using t(1,2) \<open>\<not> (128 :: byte) \<le> 1\<close> by auto
  have "i = 0 \<or> i = 1" using i(1) by auto
  with i(2) t(3,4) have "i = 1" by auto
  with i(3) t(5,6) show ?thesis by simp
qed

text \<open>
  What a route matches. A route matches exactly the addresses that agree with its prefix in the
  leading bits, provided the remaining bits of the prefix are zero; a route entered with any of them set
  never matches. A prefix length above 32 is undefined behaviour.
\<close>

theorem router_prefix_match:
  "if unat len \<le> 32
   then Router_prefix_match ip prefix len = Inr (\<forall>k<32. bit prefix k \<longleftrightarrow> 32 - unat len \<le> k \<and> bit ip k)
   else Router_prefix_match ip prefix len = Inl UndefinedBehaviour"
  using prefix_match_total [of len ip prefix] by (auto simp: Router_prefix_match_def)

theorem router_prefix_match_witness:
  "Router_prefix_match 0xc0a80107 0xc0a80100 24 =
    Inr (\<forall>k<32. bit (0xc0a80100 :: uint32) k \<longleftrightarrow> 8 \<le> k \<and> bit (0xc0a80107 :: uint32) k)"
  using router_prefix_match [of 24 "0xc0a80107" "0xc0a80100"] by simp

text \<open>
  C8: the routing loop. On a router whose routes name existing interfaces and IPv4 next hops, with
  interfaces in a consistent state and whatever datagrams received, \<open>route\<close> has one of two
  outcomes. It returns: every datagram received has been routed once, interface by interface and in
  order of arrival, all queues are empty and the router is again in such a state. Or it throws a runtime
  error, and then one of the datagrams received cannot be serialized. If all of them can be, it returns,
  and datagrams waiting in the interfaces can still be serialized.
\<close>

theorem router_route_all:
  assumes "router_ok r"
    and "ds = concat (map an_datagrams_out (rt_interfaces r))" "r' = rt_clear (foldl route_spec r ds)"
  shows "(Router_route r = Inr r' \<or> Router_route r = Inl RuntimeError \<and> (\<exists>d\<in>set ds. \<not> sendable d)) \<and>
    router_ok r' \<and> (\<forall>an\<in>set (rt_interfaces r'). an_datagrams_out an = []) \<and>
    ((\<forall>d\<in>set ds. sendable d) \<and> (\<forall>an\<in>set (rt_interfaces r). ni_inv an) \<longrightarrow>
      (\<forall>an\<in>set (rt_interfaces r'). ni_inv an))"
proof -
  let ?r = "foldl route_spec r ds"
  have q: "map (rt_queue r) [0..<length (rt_interfaces r)] = map an_datagrams_out (rt_interfaces r)"
    by (rule nth_equalityI) (simp_all add: rt_queue_def)
  have "routed ds (Router_route r) r'"
    unfolding Router_route_def assms(2,3) using route_from_spec [OF assms(1), of "[0..<length (rt_interfaces r)]"]
      clear_all [of "foldl route_spec r (concat (map an_datagrams_out (rt_interfaces r)))"] by (simp add: q)
  moreover have "router_ok r'"
    using specs_ok [OF assms(1), of ds] by (auto simp: router_ok_def rt_clear_def assms(3))
  moreover have "(\<forall>an\<in>set (rt_interfaces r'). ni_inv an) \<longleftrightarrow> (\<forall>an\<in>set (rt_interfaces ?r). ni_inv an)"
    by (simp add: assms(3) rt_clear_def)
  ultimately show ?thesis
    using specs_inv [OF _ _ assms(1), of ds] by (auto simp: routed_def assms(3) rt_clear_def)
qed

text \<open>
  The sample router has received the sample datagram on its first interface. It ends up waiting for the
  Ethernet address of its destination on the second, with its time to live one lower.
\<close>

definition loaded_router :: router where
  "loaded_router = rt_set_queue sample_router 0 [sample_datagram]"

lemma loaded_router_facts:
  "router_ok loaded_router" "concat (map an_datagrams_out (rt_interfaces loaded_router)) = [sample_datagram]"
proof -
  show "router_ok loaded_router"
    unfolding loaded_router_def by (rule set_queue_ok [OF sample_router_ok]) simp
  have "an_datagrams_out (rt_interfaces sample_router ! 1) = []"
    by (simp add: sample_router_def AsyncNetworkInterface_new_def network_interface.defs async_network_interface.defs)
  then show "concat (map an_datagrams_out (rt_interfaces loaded_router)) = [sample_datagram]"
    by (simp add: loaded_router_def rt_set_queue_def sample_router_def)
qed

lemma loaded_router_spec:
  "route_spec loaded_router sample_datagram = rt_sent loaded_router 1 0x0a000002 (dgram_ttl sample_datagram 127)"
proof -
  have d: "ip_dst (dg_header sample_datagram) = 0x0a000002" "ip_ttl (dg_header sample_datagram) = 128"
    by (simp_all add: sample_datagram_def IPv4Header_default_def IPv4Header_DEFAULT_TTL_def)
  have "\<not> (128 :: byte) \<le> 1" by (simp add: word_le_nat_alt)
  moreover have "rt_route_table loaded_router = rt_route_table sample_router" by (simp add: loaded_router_def)
  ultimately show ?thesis
    unfolding route_spec_def Let_def d using sample_table(2)
    by (simp add: rt_sent_def) (simp add: sample_router_def longest_def route_hop_ip_def route_hop_def)
qed

lemma loaded_router_second:
  "1 < length (rt_interfaces loaded_router)"
  "ni_mac (rt_interfaces loaded_router ! 1) ip = None" "ni_pending (rt_interfaces loaded_router ! 1) ip = []"
  by (simp_all add: loaded_router_def rt_set_queue_def sample_router_def)
     (simp_all add: ni_mac_def ni_pending_def AsyncNetworkInterface_new_def network_interface.defs NetworkInterface_init_def)

theorem router_route_all_witness:
  "\<exists>r. Router_route loaded_router = Inr r \<and> router_ok r \<and> (\<forall>an\<in>set (rt_interfaces r). an_datagrams_out an = []) \<and>
    ni_pending (rt_interfaces r ! 1) 0x0a000002 = [dgram_ttl sample_datagram 127]"
proof -
  let ?r = "rt_clear (rt_sent loaded_router 1 0x0a000002 (dgram_ttl sample_datagram 127))"
  have "ni_pending (rt_interfaces ?r ! 1) 0x0a000002 = [dgram_ttl sample_datagram 127]"
    using loaded_router_second by (simp add: rt_clear_def rt_sent_def pending_sent)
  moreover have "foldl route_spec loaded_router [sample_datagram] =
      rt_sent loaded_router 1 0x0a000002 (dgram_ttl sample_datagram 127)"
    by (simp add: loaded_router_spec)
  ultimately show ?thesis
    using router_route_all [OF loaded_router_facts(1) loaded_router_facts(2) [symmetric] refl] sample_sendable
    by auto
qed

text \<open>
  A datagram with a wrong version stops the router. Receiving does not look at the version (only
  serializing does), so a frame with such a datagram is accepted; when the router forwards it to a next
  hop whose Ethernet address is known, \<open>route\<close> throws.
\<close>

theorem router_wrong_version:
  assumes "table_ok (rt_route_table r)"
    and "filter (route_matches (ip_dst (dg_header d))) (rt_route_table r) = t # ts"
    and "1 < ip_ttl (dg_header d)" "ip_ver (dg_header d) \<noteq> 4"
    and "ro_interface_num (longest t ts) < length (rt_interfaces r)"
    and "an = rt_interfaces r ! ro_interface_num (longest t ts)" "ni_inv an"
    and "Address_ipv4_numeric (route_hop (longest t ts) (ip_dst (dg_header d))) = Inr hop"
    and "ni_mac an hop = Some mac"
  shows "Router_route_one_datagram r d = Inl RuntimeError"
proof -
  have "IPv4Datagram_serialize (dgram_ttl d ttl) = Inl RuntimeError" for ttl
    using assms(4) by (simp add: IPv4Datagram_serialize_def dgram_ttl_def IPv4Header_serialize_def)
  moreover have m: "NetworkInterface_map an hop = (mac, an)" by (rule map_mac(2) [OF assms(7,9)])
  moreover have "\<not> ethernetEqual mac NO_MAC" using map_mac(1) [OF assms(7) m] assms(9) by simp
  ultimately have "NetworkInterface_send_datagram an (dgram_ttl d ttl)
      (route_hop (longest t ts) (ip_dst (dg_header d))) = Inl RuntimeError" for ttl
    using assms(8) by (simp add: NetworkInterface_send_datagram_def)
  then show ?thesis
    using assms(2,3,5,6) by (simp add: route_one_exact [OF assms(1)] Router_send_def Router_interface_def)
qed

definition bad_version_packet :: bytes where
  "bad_version_packet = 0x65 # 0 # be_bytes (20 :: uint16) @ be_bytes (0 :: uint16) @ be_bytes (0 :: uint16) @
     64 # 6 # be_bytes (0 :: uint16) @ be_bytes (0 :: uint32) @ be_bytes (0 :: uint32)"

definition bad_version_frame :: ethernet_frame where
  "bad_version_frame =
     \<lparr>ef_header = \<lparr>eh_dst = [2, 0, 0, 0, 0, 1], eh_src = [2, 0, 0, 0, 0, 2], eh_type = EthernetHeader_TYPE_IPv4\<rparr>,
      ef_payload = [Buffer_new bad_version_packet]\<rparr>"

lemma bad_version_fields:
  "\<exists>h. parses IPv4Header_fields bad_version_packet h [] \<and> ip_ver h = 6 \<and> ip_hlen h = 5 \<and> ip_len h = 20 \<and>
    ip_ttl h = 64 \<and> ip_dst h = 0"
proof -
  have "\<exists>h. parses IPv4Header_fields (bad_version_packet @ []) h [] \<and> ip_ver h = drop_bit 4 0x65 \<and>
    ip_hlen h = 0x65 AND 0x0f \<and> ip_len h = 20 \<and> ip_ttl h = 64 \<and> ip_dst h = 0"
    unfolding IPv4Header_fields_def bad_version_packet_def append.assoc append_Cons append_Nil
    apply (rule exI, rule conjI)
     apply ((rule parses_bind, rule parses_ints)+)
     apply (rule parses_return, rule refl)
    apply simp
    done
  then show ?thesis by simp
qed

lemma bad_version_accepted:
  "\<exists>d. ni_accepts sample_host bad_version_frame = Some d \<and> ip_dst (dg_header d) = 0 \<and>
    ip_ttl (dg_header d) = 64 \<and> ip_ver (dg_header d) = 6"
proof -
  let ?b = "Buffer_new bad_version_packet"
  have len: "length bad_version_packet = 20" by (simp add: bad_version_packet_def)
  obtain h where h: "parses IPv4Header_fields bad_version_packet h []"
    and f: "ip_ver h = 6" "ip_hlen h = 5" "ip_len h = 20" "ip_ttl h = 64" "ip_dst h = 0"
    using bad_version_fields by blast
  have "parser_at bad_version_packet (NetParser_new ?b)" using len by simp
  from run_parses [OF h this] obtain p where
    p: "run_state IPv4Header_fields (NetParser_new ?b) = (h, p)" "parser_at [] p" by blast
  then have "parser_at (drop 20 bad_version_packet) p" by (simp add: len)
  then have "run_state (IPv4Header_checks bad_version_packet h) p = ((h, WrongIPVersion), p)"
    using f by (subst run_ip_checks) (simp_all add: len)
  with p(1) have "run_state (IPv4Header_parse (dg_header IPv4Datagram_default)) (NetParser_new ?b) =
      ((h, WrongIPVersion), p)"
    by (simp add: IPv4Header_parse_split run_buffer NetParser_new_def Buffer_size_def IPv4Header_LENGTH_def len)
  moreover have "np_error p = NoError" "BufferList_size (BufferList_of_buffer (np_buffer p)) = 0"
    using p(2) by (simp_all add: parser_at_def BufferList_of_buffer_def BufferList_size_concatenate)
  ultimately have "IPv4Datagram_parse IPv4Datagram_default ?b =
      (IPv4Datagram_default\<lparr>dg_header := h, dg_payload := BufferList_of_buffer (np_buffer p)\<rparr>, NoError)"
    using f by (simp add: IPv4Datagram_parse_def IPv4Header_payload_length_def)
  with f show ?thesis
    by (simp add: ni_accepts_def bad_version_frame_def sample_host_def BufferList_to_Buffer_def)
qed

theorem router_wrong_version_witness:
  "\<exists>d. ni_accepts sample_host bad_version_frame = Some d \<and> Router_route_one_datagram sample_router d = Inl RuntimeError"
proof -
  obtain d where d: "ni_accepts sample_host bad_version_frame = Some d"
    "ip_dst (dg_header d) = 0" "ip_ttl (dg_header d) = 64" "ip_ver (dg_header d) = 6"
    using bad_version_accepted by blast
  let ?t = "rt_route_table sample_router ! 0"
  have t: "longest ?t [] = ?t" "ro_interface_num ?t = 0" "route_hop ?t 0 = address_of_ipv4 0x0a000002"
    by (simp_all add: longest_def sample_router_def route_hop_def)
  have "Router_route_one_datagram sample_router d = Inl RuntimeError"
    by (rule router_wrong_version [OF sample_table(1), of d ?t "[]" _ "0x0a000002", OF _ _ _ _ refl])
       (use d t sample_table(3) sample_learned in \<open>simp_all add: word_less_nat_alt\<close>)
  with d(1) show ?thesis by blast
qed

end
