(* ===== verification/Text_Output.thy ===== *)
theory Text_Output
  imports Address TCP_Segment Link_Layer
begin

text \<open>
  The textual forms of addresses and headers: the functions \<open>to_string\<close> and \<open>summary\<close> of
  \<open>ethernet_header.cc\<close>, \<open>arp_message.cc\<close>, \<open>ipv4_header.cc\<close> and
  \<open>tcp_header.cc\<close>, and the output operator of \<open>wrapping_integers.hh\<close>.
\<close>

section \<open>The model\<close>

text \<open>The loop over the bytes of an address, with a colon after all but the last.\<close>

fun EthernetAddress_to_string :: "ethernet_address \<Rightarrow> string" where
  "EthernetAddress_to_string [] = []"
| "EthernetAddress_to_string [b] = setw 2 CHR ''0'' (hex (unat b))"
| "EthernetAddress_to_string (b # bs) =
     setw 2 CHR ''0'' (hex (unat b)) @ '':'' @ EthernetAddress_to_string bs"

definition EthernetHeader_to_string :: "ethernet_header \<Rightarrow> string" where
  "EthernetHeader_to_string h =
     ''dst='' @ EthernetAddress_to_string (eh_dst h) @
     '', src='' @ EthernetAddress_to_string (eh_src h) @
     '', type='' @
     (if eh_type h = EthernetHeader_TYPE_IPv4 then ''IPv4''
      else if eh_type h = EthernetHeader_TYPE_ARP then ''ARP''
      else ''[unknown type '' @ hex (unat (eh_type h)) @ ''!]'')"

definition ARPMessage_to_string :: "arp_message \<Rightarrow> string" where
  "ARPMessage_to_string m =
     (let opcode_str = ''(unknown type)'';
          opcode_str = (if arp_opcode m = ARPMessage_OPCODE_REQUEST then ''REQUEST'' else opcode_str);
          opcode_str = (if arp_opcode m = ARPMessage_OPCODE_REPLY then ''REPLY'' else opcode_str)
      in ''opcode='' @ opcode_str @ '', sender='' @
         EthernetAddress_to_string (arp_sender_ethernet_address m) @ ''/'' @
         inet_ntoa (arp_sender_ip_address m) @ '', target='' @
         EthernetAddress_to_string (arp_target_ethernet_address m) @ ''/'' @
         inet_ntoa (arp_target_ip_address m))"

definition IPv4Header_to_string :: "ipv4_header \<Rightarrow> string" where
  "IPv4Header_to_string h =
     ''IP version: '' @ hex (unat (ip_ver h)) @ newline #
     ''IP hdr len: '' @ hex (unat (ip_hlen h)) @ newline #
     ''IP tos: '' @ hex (unat (ip_tos h)) @ newline #
     ''IP dgram len: '' @ hex (unat (ip_len h)) @ newline #
     ''IP id: '' @ hex (unat (ip_id h)) @ newline #
     ''Flags: df: '' @ boolalpha (ip_df h) @ '' mf: '' @ boolalpha (ip_mf h) @ newline #
     ''Offset: '' @ hex (unat (ip_offset h)) @ newline #
     ''TTL: '' @ hex (unat (ip_ttl h)) @ newline #
     ''Protocol: '' @ hex (unat (ip_proto h)) @ newline #
     ''Checksum: '' @ hex (unat (ip_cksum h)) @ newline #
     ''Src addr: '' @ hex (unat (ip_src h)) @ newline #
     ''Dst addr: '' @ hex (unat (ip_dst h)) @ [newline]"

definition IPv4Header_summary :: "ipv4_header \<Rightarrow> string" where
  "IPv4Header_summary h =
     ''IPv'' @ hex (unat (ip_ver h)) @ '', '' @
     ''len='' @ hex (unat (ip_len h)) @ '', '' @
     ''protocol='' @ hex (unat (ip_proto h)) @ '', '' @
     (if ip_ttl h \<ge> 10 then [] else ''ttl='' @ dec (unat (ip_ttl h)) @ '', '') @
     ''src='' @ inet_ntoa (ip_src h) @ '', '' @
     ''dst='' @ inet_ntoa (ip_dst h)"

text \<open>\<open>os << a\<close> in the base the stream is set to.\<close>

definition wi_print :: "nat \<Rightarrow> WrappingInt32 \<Rightarrow> string" where
  "wi_print b a = digits b (unat (raw_value a))"

definition TCPHeader_to_string :: "tcp_header \<Rightarrow> string" where
  "TCPHeader_to_string h =
     ''TCP source port: '' @ hex (unat (th_sport h)) @ newline #
     ''TCP dest port: '' @ hex (unat (th_dport h)) @ newline #
     ''TCP seqno: '' @ wi_print 16 (th_seqno h) @ newline #
     ''TCP ackno: '' @ wi_print 16 (th_ackno h) @ newline #
     ''TCP doff: '' @ hex (unat (th_doff h)) @ newline #
     ''Flags: urg: '' @ boolalpha (th_urg h) @ '' ack: '' @ boolalpha (th_ack h) @
     '' psh: '' @ boolalpha (th_psh h) @ '' rst: '' @ boolalpha (th_rst h) @
     '' syn: '' @ boolalpha (th_syn h) @ '' fin: '' @ boolalpha (th_fin h) @ newline #
     ''TCP winsize: '' @ hex (unat (th_win h)) @ newline #
     ''TCP cksum: '' @ hex (unat (th_cksum h)) @ newline #
     ''TCP uptr: '' @ hex (unat (th_uptr h)) @ [newline]"

definition TCPHeader_summary :: "tcp_header \<Rightarrow> string" where
  "TCPHeader_summary h =
     ''Header(flags='' @ (if th_syn h then ''S'' else []) @ (if th_ack h then ''A'' else []) @
     (if th_rst h then ''R'' else []) @ (if th_fin h then ''F'' else []) @
     '',seqno='' @ wi_print 10 (th_seqno h) @ '',ack='' @ wi_print 10 (th_ackno h) @
     '',win='' @ dec (unat (th_win h)) @ '')''"

section \<open>Separators\<close>

lemma digits_separator: "2 \<le> b \<Longrightarrow> b \<le> 16 \<Longrightarrow> digit_value c = 16 \<Longrightarrow> c \<notin> set (digits b n)"
proof
  assume b: "2 \<le> b" "b \<le> 16" and c: "digit_value c = 16" "c \<in> set (digits b n)"
  from digits_set [OF b c(2)] obtain d where "d < b" "c = digit_char d" by blast
  with b c(1) show False by simp
qed

lemma split_at:
  "c \<notin> set xs \<Longrightarrow> c \<notin> set ys \<Longrightarrow> xs @ c # us = ys @ c # vs \<longleftrightarrow> xs = ys \<and> us = vs"
  using split_at_char [of c xs ys us vs] by auto

lemma newline_separates [simp]: "newline \<notin> set (hex n)" "newline \<notin> set (boolalpha b)"
  using digits_separator [of 16 newline n]
  by (auto simp: newline_def digit_value_def boolalpha_def char_of_eq_iff dest!: arg_cong [where f = "of_char :: char \<Rightarrow> nat"])

lemma boolalpha_space: "boolalpha a @ CHR '' '' # us = boolalpha b @ CHR '' '' # vs \<longleftrightarrow> a = b \<and> us = vs"
  by (auto simp: boolalpha_def)

lemma boolalpha_inject [simp]: "boolalpha a = boolalpha b \<longleftrightarrow> a = b"
  by (simp add: boolalpha_def)

lemma hex_word_inject [simp]: "hex (unat a) = hex (unat b) \<longleftrightarrow> a = (b :: 'a::len word)"
  by (simp add: digits_inject word_unat_eq_iff)

lemma hex_line: "hex m @ newline # us = hex n @ newline # vs \<longleftrightarrow> hex m = hex n \<and> us = vs"
  by (rule split_at) simp_all

lemma boolalpha_line: "boolalpha a @ newline # us = boolalpha b @ newline # vs \<longleftrightarrow> a = b \<and> us = vs"
  by (simp add: split_at)

lemma ethernet_byte:
  "setw 2 CHR ''0'' (hex (unat (a :: byte))) @ us = setw 2 CHR ''0'' (hex (unat b)) @ vs \<longleftrightarrow> a = b \<and> us = vs"
  using hex_byte_length [of a] hex_byte_length [of b] by (auto simp: setw_hex_inject word_unat_eq_iff)

lemma ethernet_to_string_append:
  "length a = length b \<Longrightarrow>
    EthernetAddress_to_string a @ us = EthernetAddress_to_string b @ vs \<longleftrightarrow> a = b \<and> us = vs"
proof (induction a arbitrary: b rule: EthernetAddress_to_string.induct)
  case (2 x)
  then obtain y where "b = [y]" by (cases b) auto
  then show ?case by (simp add: ethernet_byte)
next
  case (3 x x' xs)
  then obtain y y' ys where b: "b = y # y' # ys" by (cases b; cases "tl b") auto
  with 3 show ?case by (simp add: ethernet_byte)
qed simp

lemma ethernet_to_string_length:
  "a \<noteq> [] \<Longrightarrow> length (EthernetAddress_to_string a) = 3 * length a - 1"
  by (induction a rule: EthernetAddress_to_string.induct) (simp_all add: hex_byte_length)

section \<open>Properties\<close>

text \<open>Words for the formats, so that two texts are compared field by field.\<close>

lemmas printed_fields = hex_line boolalpha_line boolalpha_space ethernet_to_string_append

lemma wi_print_inject: "wi_print 16 a @ newline # us = wi_print 16 b @ newline # vs \<longleftrightarrow> a = b \<and> us = vs"
  by (cases a; cases b) (simp add: wi_print_def hex_line)

text \<open>
  Printing loses nothing. Ethernet headers (whose addresses take 17 characters each), IPv4 headers
  and TCP headers that print alike are equal, field by field.
\<close>

theorem headers_print_distinct:
  assumes "ethernet_header_ok eh" "ethernet_header_ok eh'"
  shows "(EthernetHeader_to_string eh = EthernetHeader_to_string eh' \<longleftrightarrow> eh = eh') \<and>
    length (EthernetAddress_to_string (eh_dst eh)) = 17 \<and>
    (IPv4Header_to_string ih = IPv4Header_to_string ih' \<longleftrightarrow> ih = ih') \<and>
    (TCPHeader_to_string th = TCPHeader_to_string th' \<longleftrightarrow> th = th')"
proof (intro conjI)
  have len: "length (eh_dst eh) = 6" "length (eh_dst eh') = 6" "length (eh_src eh) = 6" "length (eh_src eh') = 6"
    using assms by (simp_all add: ethernet_header_ok_def)
  show "EthernetHeader_to_string eh = EthernetHeader_to_string eh' \<longleftrightarrow> eh = eh'"
    using len by (cases eh; cases eh') (auto simp: EthernetHeader_to_string_def printed_fields split: if_splits)
  show "length (EthernetAddress_to_string (eh_dst eh)) = 17"
    using ethernet_to_string_length [of "eh_dst eh"] len(1) by (cases "eh_dst eh = []") simp_all
  show "IPv4Header_to_string ih = IPv4Header_to_string ih' \<longleftrightarrow> ih = ih'"
    by (cases ih; cases ih') (simp add: IPv4Header_to_string_def printed_fields)
  show "TCPHeader_to_string th = TCPHeader_to_string th' \<longleftrightarrow> th = th'"
    by (cases th; cases th') (simp add: TCPHeader_to_string_def printed_fields wi_print_inject)
qed

theorem headers_print_distinct_witness:
  "TCPHeader_to_string TCPHeader_default \<noteq> TCPHeader_to_string (TCPHeader_default\<lparr>th_syn := True\<rparr>)"
  using headers_print_distinct [of EthernetHeader_default EthernetHeader_default IPv4Header_default
      IPv4Header_default TCPHeader_default "TCPHeader_default\<lparr>th_syn := True\<rparr>"]
  by (simp add: TCPHeader_default_def)

end
