(* ===== verification/File_Descriptor.thy ===== *)
theory File_Descriptor
  imports Buffers
begin

text \<open>
  Descriptors of the operating system: \<open>SystemCall\<close> and \<open>unix_error\<close>
  (\<open>util/util.cc\<close>, \<open>util/util.hh\<close>) and the reference-counted \<open>FileDescriptor\<close>
  (\<open>util/file_descriptor.cc\<close>, \<open>util/file_descriptor.hh\<close>).

  Handles that were duplicated share one \<open>FDWrapper\<close>, and the event loop depends on that: it sees
  in its own handle what a callback did through another. The wrappers are therefore objects of a
  store, with the use count of the shared pointer beside them, and a handle is the address of its
  wrapper. The kernel is a parameter: a state \<open>'k\<close> and the system calls, each giving the value
  it returns, \<open>errno\<close> behind it and what it wrote to memory. A computation keeps the state it
  has reached when it throws.
\<close>

section \<open>Computations on the world\<close>

record fd_wrapper =
  fw_fd :: int
  fw_eof :: bool
  fw_closed :: bool
  fw_read_count :: uint32
  fw_write_count :: uint32

type_synonym file_descriptor = nat

record 'k world =
  wd_fds :: "file_descriptor \<Rightarrow> fd_wrapper"
  wd_use_count :: "file_descriptor \<Rightarrow> nat"
  wd_next :: file_descriptor
  wd_kernel :: 'k

type_synonym ('w, 'a) io = "'w \<Rightarrow> 'a result \<times> 'w"

definition bindIO :: "('w, 'a) io \<Rightarrow> ('a \<Rightarrow> ('w, 'b) io) \<Rightarrow> ('w, 'b) io" where
  "bindIO m f w = (case m w of (Inl e, w') \<Rightarrow> (Inl e, w') | (Inr a, w') \<Rightarrow> f a w')"

definition returnIO :: "'a \<Rightarrow> ('w, 'a) io" where
  "returnIO a w = (Inr a, w)"

definition throwIO :: "cpp_error \<Rightarrow> ('w, 'a) io" where
  "throwIO e w = (Inl e, w)"

definition modifyIO :: "('w \<Rightarrow> 'w) \<Rightarrow> ('w, unit) io" where
  "modifyIO f w = (Inr (), f w)"

named_theorems io \<open>unfolding of computations\<close>

lemma bindIO_Inl [simp]: "m w = (Inl e, w') \<Longrightarrow> bindIO m f w = (Inl e, w')"
  and bindIO_Inr [simp]: "m w = (Inr a, w') \<Longrightarrow> bindIO m f w = f a w'"
  by (simp_all add: bindIO_def)

lemmas [io] = bindIO_def returnIO_def throwIO_def modifyIO_def

section \<open>System calls\<close>

type_synonym ('k, 'a) syscall = "'k \<Rightarrow> (int \<times> int \<times> 'a) \<times> 'k"

text \<open>An \<open>iovec\<close> as in the view lists; a \<open>pollfd\<close> with the events asked for and reported.\<close>

record pollfd =
  pf_fd :: int
  pf_events :: uint16
  pf_revents :: uint16

record 'k os =
  os_read :: "int \<Rightarrow> size_t \<Rightarrow> ('k, bytes) syscall"
  os_writev :: "int \<Rightarrow> (bytes \<times> size_t) list \<Rightarrow> ('k, unit) syscall"
  os_close :: "int \<Rightarrow> ('k, unit) syscall"
  os_fcntl_getfl :: "int \<Rightarrow> ('k, unit) syscall"
  os_fcntl_setfl :: "int \<Rightarrow> int \<Rightarrow> ('k, unit) syscall"
  os_poll :: "pollfd list \<Rightarrow> int \<Rightarrow> ('k, nat \<Rightarrow> uint16) syscall"

definition unix_error :: "string \<Rightarrow> int \<Rightarrow> cpp_error" where
  "unix_error attempt error = TaggedError System_category attempt error"

definition SystemCall :: "string \<Rightarrow> int \<Rightarrow> int \<Rightarrow> int \<Rightarrow> int result" where
  "SystemCall attempt return_value errno errno_mask =
     (if return_value \<ge> 0 \<or> errno = errno_mask then Inr return_value
      else Inl (unix_error attempt errno))"

text \<open>
  \<open>SystemCall(attempt, call)\<close> with the default mask: the call is made, and its value narrowed to
  the \<open>int\<close> that \<open>SystemCall\<close> takes.
\<close>

definition to_int :: "int \<Rightarrow> int" where
  "to_int x = sint (word_of_int x :: 32 word)"

definition system_call :: "string \<Rightarrow> ('k, 'a) syscall \<Rightarrow> (('k, 'x) world_scheme, int \<times> 'a) io" where
  "system_call attempt call w =
     (let ((ret, errno, a), k) = call (wd_kernel w)
      in (bindR (SystemCall attempt (to_int ret) errno 0) (\<lambda>v. Inr (v, a)), w\<lparr>wd_kernel := k\<rparr>))"

text \<open>The conversions of \<open>ssize_t\<close> to \<open>size_t\<close> and back.\<close>

definition to_size :: "int \<Rightarrow> size_t" where
  "to_size x = nat (x mod 2 ^ 64)"

definition to_ssize :: "size_t \<Rightarrow> int" where
  "to_ssize n = sint (word_of_int (int n) :: 64 word)"

section \<open>FDWrapper\<close>

definition FDWrapper_new :: "int \<Rightarrow> fd_wrapper result" where
  "FDWrapper_new fd =
     (if fd < 0 then Inl RuntimeError
      else Inr \<lparr>fw_fd = fd, fw_eof = False, fw_closed = False, fw_read_count = 0, fw_write_count = 0\<rparr>)"

definition update_fd :: "file_descriptor \<Rightarrow> (fd_wrapper \<Rightarrow> fd_wrapper) \<Rightarrow> ('k, 'x) world_scheme \<Rightarrow> ('k, 'x) world_scheme" where
  "update_fd h f w = w\<lparr>wd_fds := (wd_fds w)(h := f (wd_fds w h))\<rparr>"

definition FDWrapper_close :: "('k, 'z) os_scheme \<Rightarrow> file_descriptor \<Rightarrow> (('k, 'x) world_scheme, unit) io" where
  "FDWrapper_close sys h w =
     bindIO (system_call ''close'' (os_close sys (fw_fd (wd_fds w h)))) (\<lambda>_.
       modifyIO (update_fd h (\<lambda>f. f\<lparr>fw_eof := True, fw_closed := True\<rparr>))) w"

text \<open>The destructor catches what \<open>close\<close> throws.\<close>

definition FDWrapper_destroy :: "('k, 'z) os_scheme \<Rightarrow> file_descriptor \<Rightarrow> ('k, 'x) world_scheme \<Rightarrow> ('k, 'x) world_scheme" where
  "FDWrapper_destroy sys h w = (if fw_closed (wd_fds w h) then w else snd (FDWrapper_close sys h w))"

section \<open>FileDescriptor\<close>

definition FileDescriptor_new :: "int \<Rightarrow> (('k, 'x) world_scheme, file_descriptor) io" where
  "FileDescriptor_new fd w =
     (case FDWrapper_new fd of
        Inl e \<Rightarrow> (Inl e, w)
      | Inr f \<Rightarrow>
          (Inr (wd_next w),
           w\<lparr>wd_fds := (wd_fds w)(wd_next w := f), wd_use_count := (wd_use_count w)(wd_next w := 1),
             wd_next := wd_next w + 1\<rparr>))"

definition FileDescriptor_duplicate :: "file_descriptor \<Rightarrow> ('k, 'x) world_scheme \<Rightarrow> file_descriptor \<times> ('k, 'x) world_scheme" where
  "FileDescriptor_duplicate h w =
     (h, w\<lparr>wd_use_count := (wd_use_count w)(h := wd_use_count w h + 1)\<rparr>)"

text \<open>A handle is given up; the wrapper goes with the last one.\<close>

definition FileDescriptor_destroy :: "('k, 'z) os_scheme \<Rightarrow> file_descriptor \<Rightarrow> ('k, 'x) world_scheme \<Rightarrow> ('k, 'x) world_scheme" where
  "FileDescriptor_destroy sys h w =
     (let w = w\<lparr>wd_use_count := (wd_use_count w)(h := wd_use_count w h - 1)\<rparr>
      in if wd_use_count w h = 0 then FDWrapper_destroy sys h w else w)"

definition FileDescriptor_fd_num :: "('k, 'x) world_scheme \<Rightarrow> file_descriptor \<Rightarrow> int" where
  "FileDescriptor_fd_num w h = fw_fd (wd_fds w h)"

definition FileDescriptor_eof :: "('k, 'x) world_scheme \<Rightarrow> file_descriptor \<Rightarrow> bool" where
  "FileDescriptor_eof w h = fw_eof (wd_fds w h)"

definition FileDescriptor_closed :: "('k, 'x) world_scheme \<Rightarrow> file_descriptor \<Rightarrow> bool" where
  "FileDescriptor_closed w h = fw_closed (wd_fds w h)"

definition FileDescriptor_read_count :: "('k, 'x) world_scheme \<Rightarrow> file_descriptor \<Rightarrow> uint32" where
  "FileDescriptor_read_count w h = fw_read_count (wd_fds w h)"

definition FileDescriptor_write_count :: "('k, 'x) world_scheme \<Rightarrow> file_descriptor \<Rightarrow> uint32" where
  "FileDescriptor_write_count w h = fw_write_count (wd_fds w h)"

definition FileDescriptor_register_read :: "file_descriptor \<Rightarrow> ('k, 'x) world_scheme \<Rightarrow> ('k, 'x) world_scheme" where
  "FileDescriptor_register_read h = update_fd h (\<lambda>f. f\<lparr>fw_read_count := fw_read_count f + 1\<rparr>)"

definition FileDescriptor_register_write :: "file_descriptor \<Rightarrow> ('k, 'x) world_scheme \<Rightarrow> ('k, 'x) world_scheme" where
  "FileDescriptor_register_write h = update_fd h (\<lambda>f. f\<lparr>fw_write_count := fw_write_count f + 1\<rparr>)"

definition FileDescriptor_close :: "('k, 'z) os_scheme \<Rightarrow> file_descriptor \<Rightarrow> (('k, 'x) world_scheme, unit) io" where
  "FileDescriptor_close sys h = FDWrapper_close sys h"

definition BUFFER_SIZE :: size_t where
  "BUFFER_SIZE = 1024 * 1024"

text \<open>
  \<open>read(str, limit)\<close>: the string is made large enough, the kernel fills its front, and it is cut
  to the number of bytes read. The value is the string; a negative number of bytes, as a
  \<open>size_t\<close>, is longer than a string can be.
\<close>

definition FileDescriptor_read_into ::
    "('k, 'z) os_scheme \<Rightarrow> file_descriptor \<Rightarrow> bytes \<Rightarrow> size_t \<Rightarrow> (('k, 'x) world_scheme, bytes) io" where
  "FileDescriptor_read_into sys h str limit w =
     (let size_to_read = min BUFFER_SIZE limit;
          str = string_resize size_to_read str
      in bindIO (system_call ''read'' (os_read sys (FileDescriptor_fd_num w h) size_to_read)) (\<lambda>(bytes_read, data).
         bindIO (modifyIO (\<lambda>w. if limit > 0 \<and> bytes_read = 0 then update_fd h (\<lambda>f. f\<lparr>fw_eof := True\<rparr>) w else w)) (\<lambda>_.
           if bytes_read > to_ssize size_to_read then throwIO RuntimeError
           else if bytes_read < 0 then throwIO LengthError
           else
             bindIO (modifyIO (FileDescriptor_register_read h)) (\<lambda>_.
               returnIO (string_resize (to_size bytes_read)
                           (take size_to_read data @ drop (length data) str))))) w)"

definition FileDescriptor_read ::
    "('k, 'z) os_scheme \<Rightarrow> file_descriptor \<Rightarrow> size_t \<Rightarrow> (('k, 'x) world_scheme, bytes) io" where
  "FileDescriptor_read sys h limit = FileDescriptor_read_into sys h [] limit"

text \<open>One round of the loop of \<open>write\<close>: the bytes written and what is left of the buffer.\<close>

definition FileDescriptor_write_once ::
    "('k, 'z) os_scheme \<Rightarrow> file_descriptor \<Rightarrow> buffer_view_list \<Rightarrow> (('k, 'x) world_scheme, size_t \<times> buffer_view_list) io" where
  "FileDescriptor_write_once sys h buffer w =
     bindIO (system_call ''writev'' (os_writev sys (FileDescriptor_fd_num w h) (BufferViewList_as_iovecs buffer)))
       (\<lambda>(bytes_written, _).
         if bytes_written = 0 \<and> BufferViewList_size buffer \<noteq> 0 then throwIO RuntimeError
         else if bytes_written > to_ssize (BufferViewList_size buffer) then throwIO RuntimeError
         else
           bindIO (modifyIO (FileDescriptor_register_write h)) (\<lambda>_.
             case BufferViewList_remove_prefix (to_size bytes_written) buffer of
               Inl e \<Rightarrow> throwIO e
             | Inr buffer \<Rightarrow> returnIO (to_size bytes_written, buffer))) w"

lemma to_int_range: "- 2147483648 \<le> to_int x" "to_int x < 2147483648"
  using sint_ge [of "word_of_int x :: 32 word"] sint_lt [of "word_of_int x :: 32 word"]
  by (simp_all add: to_int_def)

lemma to_int_exact: "0 \<le> x \<Longrightarrow> x < 2147483648 \<Longrightarrow> to_int x = x"
  by (simp add: to_int_def sint_uint signed_take_bit_int_eq_self take_bit_int_eq_self uint_word_of_int)

lemma to_size_exact: "0 \<le> x \<Longrightarrow> x < 2 ^ 64 \<Longrightarrow> to_size x = nat x"
  by (simp add: to_size_def)

lemma to_size_zero: "to_size (to_int x) = 0 \<longleftrightarrow> to_int x = 0"
proof (cases "0 \<le> to_int x")
  case True
  then show ?thesis using to_int_range [of x] by (simp add: to_size_exact)
next
  case False
  then have "(to_int x + 2 ^ 64) mod 2 ^ 64 = to_int x + 2 ^ 64"
    using to_int_range [of x] by (intro mod_pos_pos_trivial) simp_all
  then have "to_int x mod 2 ^ 64 = to_int x + 2 ^ 64" by (simp only: mod_add_self2)
  then show ?thesis using to_int_range [of x] False by (simp add: to_size_def)
qed

lemma write_once_returns:
  assumes "FileDescriptor_write_once sys h buffer w = (Inr (n, buffer'), w')"
  obtains x where "n = to_size (to_int x)" "to_int x = 0 \<Longrightarrow> BufferViewList_size buffer = 0"
    "BufferViewList_remove_prefix n buffer = Inr buffer'"
  using assms
  by (auto simp: FileDescriptor_write_once_def system_call_def SystemCall_def io
      split: prod.splits sum.splits if_splits)

lemma write_once_shrinks:
  assumes "FileDescriptor_write_once sys h buffer w = (Inr (n, buffer'), w')"
    and "BufferViewList_size buffer' \<noteq> 0"
  shows "length (concat buffer') < length (concat buffer)"
proof -
  from write_once_returns [OF assms(1)] have z: "n = 0 \<Longrightarrow> BufferViewList_size buffer = 0"
    and r: "BufferViewList_remove_prefix n buffer = Inr buffer'"
    by (metis to_size_zero)+
  from r have le: "n \<le> length (concat buffer)"
    using buffer_view_list.remove_too_many [of buffer n] by (force simp: not_le [symmetric])
  then have c: "concat buffer' = drop (n) (concat buffer)"
    using buffer_view_list.remove_ok r by fastforce
  have "n \<noteq> 0"
  proof
    assume "n = 0"
    with r z assms(2) show False
      by (cases buffer) (auto simp: BufferViewList_size_def)
  qed
  moreover have "concat buffer' \<noteq> []"
  proof
    assume "concat buffer' = []"
    then have "BufferViewList_size buffer' = 0"
      unfolding BufferViewList_size_def by (induction buffer') (simp_all add: add64_def)
    with assms(2) show False by simp
  qed
  ultimately show ?thesis using c le by (cases "concat buffer") auto
qed

function FileDescriptor_write_loop ::
    "('k, 'z) os_scheme \<Rightarrow> file_descriptor \<Rightarrow> bool \<Rightarrow> buffer_view_list \<Rightarrow> size_t \<Rightarrow> ('k, 'x) world_scheme \<Rightarrow>
     size_t result \<times> ('k, 'x) world_scheme" where
  "FileDescriptor_write_loop sys h write_all buffer total_bytes_written w =
     (case FileDescriptor_write_once sys h buffer w of
        (Inl e, w') \<Rightarrow> (Inl e, w')
      | (Inr (bytes_written, buffer'), w') \<Rightarrow>
          let total = add64 total_bytes_written bytes_written
          in if write_all \<and> BufferViewList_size buffer' \<noteq> 0
             then FileDescriptor_write_loop sys h write_all buffer' total w'
             else (Inr total, w'))"
  by pat_completeness auto

termination
  by (relation "measure (\<lambda>(sys, h, write_all, buffer, total, w). length (concat buffer))")
     (auto dest!: sym [of "(Inr _, _)"] write_once_shrinks)

declare FileDescriptor_write_loop.simps [simp del]

definition FileDescriptor_write ::
    "('k, 'z) os_scheme \<Rightarrow> file_descriptor \<Rightarrow> buffer_view_list \<Rightarrow> bool \<Rightarrow> (('k, 'x) world_scheme, size_t) io" where
  "FileDescriptor_write sys h buffer write_all w = FileDescriptor_write_loop sys h write_all buffer 0 w"

definition FileDescriptor_write_string ::
    "('k, 'z) os_scheme \<Rightarrow> file_descriptor \<Rightarrow> bytes \<Rightarrow> bool \<Rightarrow> (('k, 'x) world_scheme, size_t) io" where
  "FileDescriptor_write_string sys h str write_all =
     FileDescriptor_write sys h (BufferViewList_of_string str) write_all"

definition O_NONBLOCK :: int where
  "O_NONBLOCK = 0x800"

definition FileDescriptor_set_blocking ::
    "('k, 'z) os_scheme \<Rightarrow> file_descriptor \<Rightarrow> bool \<Rightarrow> (('k, 'x) world_scheme, unit) io" where
  "FileDescriptor_set_blocking sys h blocking_state w =
     bindIO (system_call ''fcntl'' (os_fcntl_getfl sys (FileDescriptor_fd_num w h))) (\<lambda>(flags, _).
       let flags = (if blocking_state then xor flags (and flags O_NONBLOCK) else or flags O_NONBLOCK)
       in bindIO (system_call ''fcntl'' (os_fcntl_setfl sys (FileDescriptor_fd_num w h) flags)) (\<lambda>_.
            returnIO ())) w"

section \<open>Writing\<close>

text \<open>
  What \<open>writev(2)\<close> documents, in terms of the bytes a descriptor has been sent: a failure
  returns -1, sets \<open>errno\<close> and sends nothing; a success returns the number of bytes sent, a
  prefix of the data of at most \<open>0x7ffff000\<close> bytes.
\<close>

definition writev_ok :: "('k, 'z) os_scheme \<Rightarrow> ('k \<Rightarrow> int \<Rightarrow> bytes) \<Rightarrow> bool" where
  "writev_ok sys sent \<longleftrightarrow>
     (\<forall>fd iov k ret errno k'. os_writev sys fd iov k = ((ret, errno, ()), k') \<longrightarrow>
        ret = -1 \<and> 0 < errno \<and> sent k' fd = sent k fd \<or>
        0 \<le> ret \<and> ret \<le> 0x7ffff000 \<and> nat ret \<le> length (concat (map fst iov)) \<and>
          sent k' fd = sent k fd @ take (nat ret) (concat (map fst iov)))"

definition write_error :: "cpp_error \<Rightarrow> bool" where
  "write_error e \<longleftrightarrow> e = RuntimeError \<or> (\<exists>n>0. e = unix_error ''writev'' n)"

lemma to_ssize_exact: "n < 2 ^ 63 \<Longrightarrow> to_ssize n = int n"
  by (simp add: to_ssize_def sint_uint signed_take_bit_int_eq_self take_bit_int_eq_self uint_word_of_int
      del: of_int_of_nat_eq)

lemma view_size: "BufferViewList_size vl = length (concat vl) mod 2 ^ 64"
proof -
  have "foldl (\<lambda>ret v. add64 ret (length v)) (n mod 2 ^ 64) vl = (n + length (concat vl)) mod 2 ^ 64" for n
  proof (induction vl arbitrary: n)
    case (Cons v vl)
    have "add64 (n mod 2 ^ 64) (length v) = (n + length v) mod 2 ^ 64"
      by (simp only: add64_def mod_add_left_eq)
    with Cons [of "n + length v"] show ?case by (simp add: add.assoc)
  qed simp
  from this [of 0] show ?thesis by (simp add: BufferViewList_size_def)
qed

lemma as_iovecs_data: "map fst (BufferViewList_as_iovecs vl) = vl"
proof -
  have "map fst (foldl (\<lambda>ret x. ret @ [(x, length x)]) acc vl) = map fst acc @ vl" for acc
    by (induction vl arbitrary: acc) simp_all
  from this [of "[]"] show ?thesis by (simp add: BufferViewList_as_iovecs_def)
qed

text \<open>The first \<open>n\<close> bytes of the data were sent, and nothing but the write count has changed.\<close>

definition wrote :: "('k \<Rightarrow> int \<Rightarrow> bytes) \<Rightarrow> file_descriptor \<Rightarrow> bytes \<Rightarrow> nat \<Rightarrow> ('k, 'x) world_scheme \<Rightarrow> ('k, 'x) world_scheme \<Rightarrow> bool" where
  "wrote sent h data n w w' \<longleftrightarrow> n \<le> length data \<and>
     sent (wd_kernel w') (FileDescriptor_fd_num w h) = sent (wd_kernel w) (FileDescriptor_fd_num w h) @ take n data \<and>
     (\<exists>c. wd_fds w' = (wd_fds w)(h := (wd_fds w h)\<lparr>fw_write_count := c\<rparr>)) \<and>
     wd_use_count w' = wd_use_count w \<and> wd_next w' = wd_next w"

lemma wrote_nothing:
  "sent k' (FileDescriptor_fd_num w h) = sent (wd_kernel w) (FileDescriptor_fd_num w h) \<Longrightarrow>
   wrote sent h data 0 w (w\<lparr>wd_kernel := k'\<rparr>)"
  by (auto simp: wrote_def intro!: exI [of _ "fw_write_count (wd_fds w h)"])

lemma wrote_trans:
  assumes "wrote sent h data n w w1" "wrote sent h (drop n data) m w1 w2"
  shows "wrote sent h data (n + m) w w2"
proof -
  have "FileDescriptor_fd_num w1 h = FileDescriptor_fd_num w h"
    using assms(1) by (auto simp: wrote_def FileDescriptor_fd_num_def)
  with assms show ?thesis by (auto simp: wrote_def take_add)
qed

lemma write_once_ok:
  assumes "writev_ok sys sent" "length (concat buffer) < 2 ^ 63"
  obtains (ok) n buffer' w' where "FileDescriptor_write_once sys h buffer w = (Inr (n, buffer'), w')"
      "wrote sent h (concat buffer) n w w'" "concat buffer' = drop n (concat buffer)" "n = 0 \<Longrightarrow> concat buffer = []"
    | (err) e w' where "FileDescriptor_write_once sys h buffer w = (Inl e, w')"
      "wrote sent h (concat buffer) 0 w w'" "write_error e"
proof -
  let ?fd = "FileDescriptor_fd_num w h"
  obtain ret errno k' where k: "os_writev sys ?fd (BufferViewList_as_iovecs buffer) (wd_kernel w) = ((ret, errno, ()), k')"
    by (metis old.unit.exhaust prod.exhaust)
  have "ret = -1 \<and> 0 < errno \<and> sent k' ?fd = sent (wd_kernel w) ?fd \<or>
      0 \<le> ret \<and> ret \<le> 0x7ffff000 \<and> nat ret \<le> length (concat buffer) \<and>
        sent k' ?fd = sent (wd_kernel w) ?fd @ take (nat ret) (concat buffer)"
    using assms(1) [unfolded writev_ok_def, rule_format, OF k] by (simp only: as_iovecs_data)
  then consider (fails) "ret = -1" "0 < errno" "sent k' ?fd = sent (wd_kernel w) ?fd"
    | (sends) "0 \<le> ret" "ret \<le> 0x7ffff000" "nat ret \<le> length (concat buffer)"
      "sent k' ?fd = sent (wd_kernel w) ?fd @ take (nat ret) (concat buffer)"
    by blast
  then show ?thesis
  proof cases
    case fails
    have "to_int (- 1) = - 1" by (simp add: to_int_def)
    with fails k have "FileDescriptor_write_once sys h buffer w = (Inl (unix_error ''writev'' errno), w\<lparr>wd_kernel := k'\<rparr>)"
      by (auto simp: FileDescriptor_write_once_def system_call_def SystemCall_def io)
    with fails show ?thesis by (intro err) (auto simp: write_error_def wrote_nothing)
  next
    case sends
    have n: "to_int ret = ret" "to_size ret = nat ret" "to_ssize (BufferViewList_size buffer) = int (length (concat buffer))"
      "BufferViewList_size buffer = length (concat buffer)"
      using sends assms(2) by (simp_all add: to_int_exact to_size_exact to_ssize_exact view_size)
    obtain buffer' where b: "BufferViewList_remove_prefix (nat ret) buffer = Inr buffer'"
      "concat buffer' = drop (nat ret) (concat buffer)"
      using buffer_view_list.remove_ok [of "nat ret" buffer] sends(3) by auto
    show ?thesis
    proof (cases "ret = 0 \<and> concat buffer \<noteq> []")
      case True
      with k n have "FileDescriptor_write_once sys h buffer w = (Inl RuntimeError, w\<lparr>wd_kernel := k'\<rparr>)"
        by (auto simp: FileDescriptor_write_once_def system_call_def SystemCall_def io)
      with sends True show ?thesis by (intro err) (auto simp: write_error_def wrote_nothing)
    next
      case False
      with sends k n b have "FileDescriptor_write_once sys h buffer w =
          (Inr (nat ret, buffer'), FileDescriptor_register_write h (w\<lparr>wd_kernel := k'\<rparr>))"
        by (auto simp: FileDescriptor_write_once_def system_call_def SystemCall_def io split: if_splits)
      with sends b(2) False show ?thesis
        by (intro ok) (auto simp: wrote_def FileDescriptor_register_write_def update_fd_def)
    qed
  qed
qed

lemma write_loop_ok:
  assumes "writev_ok sys sent" "length (concat buffer) < 2 ^ 63" "tot + length (concat buffer) < 2 ^ 64"
  shows "\<exists>r w' n. FileDescriptor_write_loop sys h write_all buffer tot w = (r, w') \<and>
    wrote sent h (concat buffer) n w w' \<and>
    (r = Inr (tot + n) \<and> (write_all \<longrightarrow> n = length (concat buffer)) \<and> (n = 0 \<longrightarrow> concat buffer = []) \<or>
     (\<exists>e. r = Inl e \<and> write_error e))"
  using assms
proof (induction sys h write_all buffer tot w rule: FileDescriptor_write_loop.induct)
  case (1 sys h write_all buffer tot w)
  show ?case
  proof (cases rule: write_once_ok [OF "1.prems"(1,2), where h = h and w = w, case_names ok err])
    case (err e w1)
    then show ?thesis by (subst FileDescriptor_write_loop.simps) auto
  next
    case (ok n buffer' w1)
    then have n: "n \<le> length (concat buffer)" by (simp add: wrote_def)
    with ok(3) "1.prems"(2,3) have size: "BufferViewList_size buffer' = length (concat buffer) - n"
      and add: "add64 tot n = tot + n" by (simp_all add: view_size add64_exact)
    show ?thesis
    proof (cases "write_all \<and> BufferViewList_size buffer' \<noteq> 0")
      case False
      with ok n size add show ?thesis by (subst FileDescriptor_write_loop.simps) auto
    next
      case True
      have step: "FileDescriptor_write_loop sys h write_all buffer tot w =
          FileDescriptor_write_loop sys h write_all buffer' (tot + n) w1"
        using ok(1) add True by (subst FileDescriptor_write_loop.simps) simp
      from "1.IH" [OF ok(1) [symmetric] refl refl refl True "1.prems"(1)] ok(3) n "1.prems"(2,3) add
      obtain r w' m where m: "FileDescriptor_write_loop sys h write_all buffer' (tot + n) w1 = (r, w')"
        "wrote sent h (drop n (concat buffer)) m w1 w'"
        "r = Inr (tot + n + m) \<and> (write_all \<longrightarrow> m = length (concat buffer) - n) \<or> (\<exists>e. r = Inl e \<and> write_error e)"
        by (fastforce simp: size)
      from wrote_trans [OF ok(2) m(2)] m(3) ok(4) n show ?thesis
        unfolding step m(1) by (intro exI [of _ r] exI [of _ w'] exI [of _ "n + m"]) auto
    qed
  qed
qed

text \<open>
  C34: writing. On a kernel whose \<open>writev\<close> behaves as documented, \<open>write\<close> returns. The
  descriptor is sent a prefix of the buffers, and no other state than the write count changes. The
  value is the length of that prefix, which is everything when \<open>write_all\<close> is set and is not
  empty unless the buffers are; otherwise an exception says that the system call failed or that it
  accepted nothing.
\<close>

theorem file_descriptor_writes:
  assumes "writev_ok sys sent" "length (concat buffer) < 2 ^ 63"
  shows "\<exists>r w' n. FileDescriptor_write sys h buffer write_all w = (r, w') \<and>
    wrote sent h (concat buffer) n w w' \<and>
    (r = Inr n \<and> (write_all \<longrightarrow> n = length (concat buffer)) \<and> (n = 0 \<longrightarrow> concat buffer = []) \<or>
     (\<exists>e. r = Inl e \<and> write_error e))"
  using write_loop_ok [OF assms, of 0 h write_all w] assms(2) by (simp add: FileDescriptor_write_def)

text \<open>A kernel that accepts two bytes at a time and reads nothing.\<close>

definition sample_os :: "bytes os" where
  "sample_os = \<lparr>os_read = \<lambda>fd n k. ((0, 0, []), k),
     os_writev = \<lambda>fd iov k. let d = take 2 (concat (map fst iov)) in ((int (length d), 0, ()), k @ d),
     os_close = \<lambda>fd k. ((0, 0, ()), k), os_fcntl_getfl = \<lambda>fd k. ((0, 0, ()), k),
     os_fcntl_setfl = \<lambda>fd flags k. ((0, 0, ()), k), os_poll = \<lambda>ps t k. ((1, 0, \<lambda>_. 1), k)\<rparr>"

definition sample_world :: "'k \<Rightarrow> 'k world" where
  "sample_world k =
     \<lparr>wd_fds = \<lambda>_. \<lparr>fw_fd = 3, fw_eof = False, fw_closed = False, fw_read_count = 0, fw_write_count = 0\<rparr>,
      wd_use_count = \<lambda>_. 1, wd_next = 1, wd_kernel = k\<rparr>"

lemma sample_os_writev: "writev_ok sample_os (\<lambda>k fd. k)"
  by (auto simp: writev_ok_def sample_os_def Let_def min_def)

theorem file_descriptor_writes_witness:
  "FileDescriptor_write sample_os 0 [[1, 2, 3], [4, 5]] True (sample_world []) =
     (Inr 5, snd (FileDescriptor_write sample_os 0 [[1, 2, 3], [4, 5]] True (sample_world []))) \<and>
   wd_kernel (snd (FileDescriptor_write sample_os 0 [[1, 2, 3], [4, 5]] True (sample_world []))) = [1, 2, 3, 4, 5]"
proof -
  have "fst (FileDescriptor_write sample_os 0 [[1, 2, 3], [4, 5]] True (sample_world [])) = Inr 5"
    by (simp add: FileDescriptor_write_def FileDescriptor_write_loop.simps FileDescriptor_write_once_def
        system_call_def SystemCall_def io sample_os_def to_int_exact to_size_exact to_ssize_exact view_size
        as_iovecs_data add64_def)
  with file_descriptor_writes [OF sample_os_writev, of "[[1, 2, 3], [4, 5]]" 0 True "sample_world []"]
  show ?thesis by (auto simp: wrote_def sample_world_def)
qed

section \<open>Handles\<close>

lemma duplicate_iter:
  "((\<lambda>w. snd (FileDescriptor_duplicate h w)) ^^ j) w = w\<lparr>wd_use_count := (wd_use_count w)(h := wd_use_count w h + j)\<rparr>"
  by (induction j) (simp_all add: FileDescriptor_duplicate_def fun_upd_def cong: if_cong)

lemma destroy_iter:
  "m < wd_use_count w h \<Longrightarrow>
   (FileDescriptor_destroy sys h ^^ m) w = w\<lparr>wd_use_count := (wd_use_count w)(h := wd_use_count w h - m)\<rparr>"
  by (induction m) (simp_all add: FileDescriptor_destroy_def Let_def)

lemma system_call_kernel: "wd_kernel (snd (system_call a call w)) = snd (call (wd_kernel w))"
  by (simp add: system_call_def split: prod.splits)

lemma FDWrapper_close_kernel:
  "wd_kernel (snd (FDWrapper_close sys h w)) = snd (os_close sys (fw_fd (wd_fds w h)) (wd_kernel w))"
  unfolding system_call_kernel [of "''close''", symmetric]
  by (simp add: FDWrapper_close_def io update_fd_def split: prod.splits sum.splits)

lemma destroy_all:
  assumes "0 < wd_use_count w h"
  shows "wd_kernel ((FileDescriptor_destroy sys h ^^ wd_use_count w h) w) =
    (if fw_closed (wd_fds w h) then wd_kernel w else snd (os_close sys (fw_fd (wd_fds w h)) (wd_kernel w)))"
proof -
  obtain m where m: "wd_use_count w h = Suc m" using assms by (cases "wd_use_count w h") auto
  then have "(FileDescriptor_destroy sys h ^^ m) w = w\<lparr>wd_use_count := (wd_use_count w)(h := 1)\<rparr>"
    by (simp add: destroy_iter)
  with m show ?thesis
    by (simp add: FileDescriptor_destroy_def FDWrapper_destroy_def FDWrapper_close_kernel)
qed

text \<open>
  C35: closing. However often a new descriptor is duplicated, giving up handles leaves the kernel
  alone until the last one goes; then the descriptor is closed, once. When it was closed
  explicitly before, it is not closed again.
\<close>

theorem descriptor_closed_with_last_handle:
  assumes "FileDescriptor_new fd w = (Inr h, w1)"
    and "w2 = ((\<lambda>w. snd (FileDescriptor_duplicate h w)) ^^ j) w1"
  shows "(m \<le> j \<longrightarrow> wd_kernel ((FileDescriptor_destroy sys h ^^ m) w2) = wd_kernel w) \<and>
    wd_kernel ((FileDescriptor_destroy sys h ^^ (j + 1)) w2) = snd (os_close sys fd (wd_kernel w)) \<and>
    (FileDescriptor_close sys h w2 = (Inr (), w3) \<longrightarrow>
      wd_kernel ((FileDescriptor_destroy sys h ^^ (j + 1)) w3) = wd_kernel w3)"
proof -
  from assms(1) have w1: "wd_use_count w1 h = 1" "wd_kernel w1 = wd_kernel w" "fw_fd (wd_fds w1 h) = fd"
      "\<not> fw_closed (wd_fds w1 h)"
    by (auto simp: FileDescriptor_new_def FDWrapper_new_def split: if_splits)
  then have w2: "wd_use_count w2 h = j + 1" "wd_kernel w2 = wd_kernel w" "wd_fds w2 = wd_fds w1"
    by (simp_all add: assms(2) duplicate_iter)
  have "wd_use_count w3 h = j + 1 \<and> fw_closed (wd_fds w3 h)" if "FileDescriptor_close sys h w2 = (Inr (), w3)"
    using that w2(1)
    by (auto simp: FileDescriptor_close_def FDWrapper_close_def system_call_def io update_fd_def
        split: prod.splits sum.splits)
  then show ?thesis
    using destroy_iter [of m w2 h sys] destroy_all [of w2 h sys] destroy_all [of w3 h sys] w1 w2 by auto
qed

theorem descriptor_closed_with_last_handle_witness:
  "wd_kernel ((FileDescriptor_destroy (sample_os\<lparr>os_close := \<lambda>fd k. ((0, 0, ()), k @ [9])\<rparr>) 1 ^^ 3)
    (((\<lambda>w. snd (FileDescriptor_duplicate 1 w)) ^^ 2) (snd (FileDescriptor_new 4 (sample_world []))))) = [9]"
proof -
  have "FileDescriptor_new 4 (sample_world []) = (Inr 1, snd (FileDescriptor_new 4 (sample_world [])))"
    by (simp add: FileDescriptor_new_def FDWrapper_new_def sample_world_def)
  from descriptor_closed_with_last_handle [OF this refl,
      of 0 2 "sample_os\<lparr>os_close := \<lambda>fd k. ((0, 0, ()), k @ [9])\<rparr>"] show ?thesis
    by (simp add: sample_world_def)
qed

section \<open>Reading\<close>

text \<open>What a successful \<open>read(2)\<close> gives is returned, counted, and remembered when it is the end.\<close>

lemma file_descriptor_reads:
  assumes "os_read sys (FileDescriptor_fd_num w h) (min BUFFER_SIZE limit) (wd_kernel w) = ((int (length data), errno, data), k)"
    and "length data \<le> min BUFFER_SIZE limit"
  shows "FileDescriptor_read sys h limit w = (Inr data,
    w\<lparr>wd_kernel := k, wd_fds := (wd_fds w)(h := (wd_fds w h)
        \<lparr>fw_eof := fw_eof (wd_fds w h) \<or> limit > 0 \<and> data = [], fw_read_count := fw_read_count (wd_fds w h) + 1\<rparr>)\<rparr>)"
proof -
  have "min BUFFER_SIZE limit \<le> 1048576" by (simp add: BUFFER_SIZE_def)
  with assms(2) have "length data \<le> 1048576" "min BUFFER_SIZE limit \<le> 1048576" by linarith+
  then have "to_int (int (length data)) = int (length data)" "to_size (int (length data)) = length data"
    "to_ssize (min BUFFER_SIZE limit) = int (min BUFFER_SIZE limit)" by (simp_all add: to_int_exact to_size_exact to_ssize_exact)
  with assms show ?thesis
    by (auto simp: FileDescriptor_read_def FileDescriptor_read_into_def system_call_def SystemCall_def io Let_def
        string_resize_cut FileDescriptor_register_read_def update_fd_def fun_eq_iff)
qed

end
