(* ===== verification/Sockets.thy ===== *)
theory Sockets
  imports File_Descriptor Address
begin

text \<open>
  Sockets of the operating system (\<open>util/socket.cc\<close>, \<open>util/socket.hh\<close>): \<open>Socket\<close>, the
  base class, and \<open>UDPSocket\<close>, \<open>TCPSocket\<close> and \<open>LocalStreamSocket\<close>. A socket is a
  \<open>FileDescriptor\<close>, so its value is a handle. The system calls extend those of the descriptors.
\<close>

section \<open>System calls and constants\<close>

record 'k socket_os = "'k os" +
  os_socket :: "int \<Rightarrow> int \<Rightarrow> int \<Rightarrow> ('k, unit) syscall"
  os_getsockopt :: "int \<Rightarrow> int \<Rightarrow> int \<Rightarrow> size_t \<Rightarrow> ('k, int \<times> size_t) syscall"
  os_setsockopt :: "int \<Rightarrow> int \<Rightarrow> int \<Rightarrow> int \<Rightarrow> size_t \<Rightarrow> ('k, unit) syscall"
  os_getsockname :: "int \<Rightarrow> size_t \<Rightarrow> ('k, bytes \<times> size_t) syscall"
  os_getpeername :: "int \<Rightarrow> size_t \<Rightarrow> ('k, bytes \<times> size_t) syscall"
  os_bind :: "int \<Rightarrow> bytes \<Rightarrow> size_t \<Rightarrow> ('k, unit) syscall"
  os_connect :: "int \<Rightarrow> bytes \<Rightarrow> size_t \<Rightarrow> ('k, unit) syscall"
  os_shutdown :: "int \<Rightarrow> int \<Rightarrow> ('k, unit) syscall"
  os_recvfrom :: "int \<Rightarrow> size_t \<Rightarrow> int \<Rightarrow> size_t \<Rightarrow> ('k, bytes \<times> bytes \<times> size_t) syscall"
  os_sendmsg :: "int \<Rightarrow> bytes option \<Rightarrow> size_t \<Rightarrow> (bytes \<times> size_t) list \<Rightarrow> int \<Rightarrow> ('k, unit) syscall"
  os_listen :: "int \<Rightarrow> int \<Rightarrow> ('k, unit) syscall"
  os_accept :: "int \<Rightarrow> ('k, unit) syscall"
  os_socketpair :: "int \<Rightarrow> int \<Rightarrow> int \<Rightarrow> ('k, int \<times> int) syscall"

definition SOL_SOCKET :: int where "SOL_SOCKET = 1"
definition SO_REUSEADDR :: int where "SO_REUSEADDR = 2"
definition SO_TYPE :: int where "SO_TYPE = 3"
definition SO_DOMAIN :: int where "SO_DOMAIN = 39"
definition AF_UNIX :: int where "AF_UNIX = 1"
definition SOCK_STREAM :: int where "SOCK_STREAM = 1"
definition SOCK_DGRAM :: int where "SOCK_DGRAM = 2"
definition SHUT_RD :: int where "SHUT_RD = 0"
definition SHUT_WR :: int where "SHUT_WR = 1"
definition SHUT_RDWR :: int where "SHUT_RDWR = 2"
definition MSG_TRUNC :: int where "MSG_TRUNC = 0x20"
definition sizeof_int :: size_t where "sizeof_int = 4"

section \<open>Socket\<close>

definition Socket_new :: "('k, 'z) socket_os_scheme \<Rightarrow> int \<Rightarrow> int \<Rightarrow> (('k, 'x) world_scheme, file_descriptor) io" where
  "Socket_new sys domain type =
     bindIO (system_call ''socket'' (os_socket sys domain type 0)) (\<lambda>(fd, _). FileDescriptor_new fd)"

definition Socket_verify ::
    "('k, 'z) socket_os_scheme \<Rightarrow> file_descriptor \<Rightarrow> int \<Rightarrow> int \<Rightarrow> (('k, 'x) world_scheme, unit) io" where
  "Socket_verify sys h option expected w =
     bindIO (system_call ''getsockopt''
               (os_getsockopt sys (FileDescriptor_fd_num w h) SOL_SOCKET option sizeof_int))
       (\<lambda>(_, actual_value, len).
         if len \<noteq> sizeof_int \<or> actual_value \<noteq> expected then throwIO RuntimeError else returnIO ()) w"

text \<open>
  Construction from a descriptor, whose handle the socket takes over; when a check fails, the part
  that is constructed already, the descriptor, is destroyed.
\<close>

definition Socket_of_fd ::
    "('k, 'z) socket_os_scheme \<Rightarrow> file_descriptor \<Rightarrow> int \<Rightarrow> int \<Rightarrow> (('k, 'x) world_scheme, file_descriptor) io" where
  "Socket_of_fd sys h domain type w =
     (case bindIO (Socket_verify sys h SO_DOMAIN domain) (\<lambda>_. Socket_verify sys h SO_TYPE type) w of
        (Inl e, w) \<Rightarrow> (Inl e, FileDescriptor_destroy sys h w)
      | (Inr _, w) \<Rightarrow> (Inr h, w))"

definition Socket_get_address ::
    "file_descriptor \<Rightarrow> string \<Rightarrow> (int \<Rightarrow> size_t \<Rightarrow> ('k, bytes \<times> size_t) syscall) \<Rightarrow> (('k, 'x) world_scheme, address) io" where
  "Socket_get_address h name_of_function function w =
     bindIO (system_call name_of_function (function (FileDescriptor_fd_num w h) sizeof_sockaddr_storage))
       (\<lambda>(_, address, size) w. (Address_of_sockaddr (string_resize sizeof_sockaddr_storage address) size, w)) w"

definition Socket_local_address :: "('k, 'z) socket_os_scheme \<Rightarrow> file_descriptor \<Rightarrow> (('k, 'x) world_scheme, address) io" where
  "Socket_local_address sys h = Socket_get_address h ''getsockname'' (os_getsockname sys)"

definition Socket_peer_address :: "('k, 'z) socket_os_scheme \<Rightarrow> file_descriptor \<Rightarrow> (('k, 'x) world_scheme, address) io" where
  "Socket_peer_address sys h = Socket_get_address h ''getpeername'' (os_getpeername sys)"

definition Socket_bind :: "('k, 'z) socket_os_scheme \<Rightarrow> file_descriptor \<Rightarrow> address \<Rightarrow> (('k, 'x) world_scheme, unit) io" where
  "Socket_bind sys h address w =
     bindIO (system_call ''bind'' (os_bind sys (FileDescriptor_fd_num w h) (ad_storage address) (ad_size address)))
       (\<lambda>_. returnIO ()) w"

definition Socket_connect :: "('k, 'z) socket_os_scheme \<Rightarrow> file_descriptor \<Rightarrow> address \<Rightarrow> (('k, 'x) world_scheme, unit) io" where
  "Socket_connect sys h address w =
     bindIO (system_call ''connect'' (os_connect sys (FileDescriptor_fd_num w h) (ad_storage address) (ad_size address)))
       (\<lambda>_. returnIO ()) w"

definition Socket_shutdown :: "('k, 'z) socket_os_scheme \<Rightarrow> file_descriptor \<Rightarrow> int \<Rightarrow> (('k, 'x) world_scheme, unit) io" where
  "Socket_shutdown sys h how w =
     bindIO (system_call ''shutdown'' (os_shutdown sys (FileDescriptor_fd_num w h) how)) (\<lambda>_.
       if how = SHUT_RD then modifyIO (FileDescriptor_register_read h)
       else if how = SHUT_WR then modifyIO (FileDescriptor_register_write h)
       else if how = SHUT_RDWR then
         bindIO (modifyIO (FileDescriptor_register_read h)) (\<lambda>_. modifyIO (FileDescriptor_register_write h))
       else throwIO RuntimeError) w"

definition Socket_setsockopt ::
    "('k, 'z) socket_os_scheme \<Rightarrow> file_descriptor \<Rightarrow> int \<Rightarrow> int \<Rightarrow> int \<Rightarrow> (('k, 'x) world_scheme, unit) io" where
  "Socket_setsockopt sys h level option option_value w =
     bindIO (system_call ''setsockopt''
               (os_setsockopt sys (FileDescriptor_fd_num w h) level option option_value sizeof_int))
       (\<lambda>_. returnIO ()) w"

definition Socket_set_reuseaddr :: "('k, 'z) socket_os_scheme \<Rightarrow> file_descriptor \<Rightarrow> (('k, 'x) world_scheme, unit) io" where
  "Socket_set_reuseaddr sys h = Socket_setsockopt sys h SOL_SOCKET SO_REUSEADDR 1"

section \<open>UDPSocket\<close>

definition UDPSocket_new :: "('k, 'z) socket_os_scheme \<Rightarrow> (('k, 'x) world_scheme, file_descriptor) io" where
  "UDPSocket_new sys = Socket_new sys (uint AF_INET) SOCK_DGRAM"

definition UDPSocket_of_fd ::
    "('k, 'z) socket_os_scheme \<Rightarrow> file_descriptor \<Rightarrow> (('k, 'x) world_scheme, file_descriptor) io" where
  "UDPSocket_of_fd sys h = Socket_of_fd sys h (uint AF_INET) SOCK_DGRAM"

record received_datagram =
  rd_source_address :: address
  rd_payload :: bytes

text \<open>
  \<open>recv(datagram, mtu)\<close>: the kernel fills the payload and the memory for the source address. A
  negative length, as a \<open>size_t\<close>, is longer than a string can be.
\<close>

definition UDPSocket_recv_into ::
    "('k, 'z) socket_os_scheme \<Rightarrow> file_descriptor \<Rightarrow> received_datagram \<Rightarrow> size_t \<Rightarrow>
     (('k, 'x) world_scheme, received_datagram) io" where
  "UDPSocket_recv_into sys h datagram mtu w =
     (let payload = string_resize mtu (rd_payload datagram)
      in bindIO (system_call ''recvfrom''
                   (os_recvfrom sys (FileDescriptor_fd_num w h) (length payload) MSG_TRUNC sizeof_sockaddr_storage))
           (\<lambda>(recv_len, data, source, fromlen).
             if recv_len > to_ssize mtu then throwIO RuntimeError
             else
               bindIO (modifyIO (FileDescriptor_register_read h)) (\<lambda>_ w.
               bindIO (\<lambda>w. (Address_of_sockaddr (string_resize sizeof_sockaddr_storage source) fromlen, w)) (\<lambda>address.
                 if recv_len < 0 then throwIO LengthError
                 else
                   returnIO (datagram\<lparr>rd_source_address := address,
                     rd_payload := string_resize (to_size recv_len)
                                     (take mtu data @ drop (length data) payload)\<rparr>)) w)) w)"

definition UDPSocket_recv ::
    "('k, 'z) socket_os_scheme \<Rightarrow> file_descriptor \<Rightarrow> size_t \<Rightarrow> (('k, 'x) world_scheme, received_datagram) io" where
  "UDPSocket_recv sys h mtu w =
     (case Address_of_sockaddr [] 0 of
        Inl e \<Rightarrow> (Inl e, w)
      | Inr a \<Rightarrow> UDPSocket_recv_into sys h \<lparr>rd_source_address = a, rd_payload = []\<rparr> mtu w)"

definition sendmsg_helper ::
    "('k, 'z) socket_os_scheme \<Rightarrow> int \<Rightarrow> bytes option \<Rightarrow> size_t \<Rightarrow> buffer_view_list \<Rightarrow> (('k, 'x) world_scheme, unit) io" where
  "sendmsg_helper sys fd_num destination_address destination_address_len payload =
     bindIO (system_call ''sendmsg''
               (os_sendmsg sys fd_num destination_address destination_address_len (BufferViewList_as_iovecs payload) 0))
       (\<lambda>(bytes_sent, _).
         if to_size bytes_sent \<noteq> BufferViewList_size payload then throwIO RuntimeError else returnIO ())"

definition UDPSocket_sendto ::
    "('k, 'z) socket_os_scheme \<Rightarrow> file_descriptor \<Rightarrow> address \<Rightarrow> buffer_view_list \<Rightarrow> (('k, 'x) world_scheme, unit) io" where
  "UDPSocket_sendto sys h destination payload w =
     bindIO (sendmsg_helper sys (FileDescriptor_fd_num w h) (Some (ad_storage destination)) (ad_size destination) payload)
       (\<lambda>_. modifyIO (FileDescriptor_register_write h)) w"

definition UDPSocket_send ::
    "('k, 'z) socket_os_scheme \<Rightarrow> file_descriptor \<Rightarrow> buffer_view_list \<Rightarrow> (('k, 'x) world_scheme, unit) io" where
  "UDPSocket_send sys h payload w =
     bindIO (sendmsg_helper sys (FileDescriptor_fd_num w h) None 0 payload)
       (\<lambda>_. modifyIO (FileDescriptor_register_write h)) w"

section \<open>TCPSocket and LocalStreamSocket\<close>

definition TCPSocket_new :: "('k, 'z) socket_os_scheme \<Rightarrow> (('k, 'x) world_scheme, file_descriptor) io" where
  "TCPSocket_new sys = Socket_new sys (uint AF_INET) SOCK_STREAM"

definition TCPSocket_of_fd ::
    "('k, 'z) socket_os_scheme \<Rightarrow> file_descriptor \<Rightarrow> (('k, 'x) world_scheme, file_descriptor) io" where
  "TCPSocket_of_fd sys h = Socket_of_fd sys h (uint AF_INET) SOCK_STREAM"

definition TCPSocket_listen :: "('k, 'z) socket_os_scheme \<Rightarrow> file_descriptor \<Rightarrow> int \<Rightarrow> (('k, 'x) world_scheme, unit) io" where
  "TCPSocket_listen sys h backlog w =
     bindIO (system_call ''listen'' (os_listen sys (FileDescriptor_fd_num w h) backlog)) (\<lambda>_. returnIO ()) w"

definition TCPSocket_accept :: "('k, 'z) socket_os_scheme \<Rightarrow> file_descriptor \<Rightarrow> (('k, 'x) world_scheme, file_descriptor) io" where
  "TCPSocket_accept sys h w =
     bindIO (modifyIO (FileDescriptor_register_read h)) (\<lambda>_.
     bindIO (system_call ''accept'' (os_accept sys (FileDescriptor_fd_num w h))) (\<lambda>(fd, _).
     bindIO (FileDescriptor_new fd) (TCPSocket_of_fd sys))) w"

definition LocalStreamSocket_of_fd ::
    "('k, 'z) socket_os_scheme \<Rightarrow> file_descriptor \<Rightarrow> (('k, 'x) world_scheme, file_descriptor) io" where
  "LocalStreamSocket_of_fd sys h = Socket_of_fd sys h AF_UNIX SOCK_STREAM"

section \<open>Receiving\<close>

text \<open>
  What \<open>recvfrom(2)\<close> documents of datagram sockets with \<open>MSG_TRUNC\<close>, in terms of the
  datagrams that wait at a descriptor, each with the address of its sender: the first is taken, the
  real length is returned even when the memory is too small, and what fits is copied.
\<close>

definition recvfrom_ok :: "('k, 'z) socket_os_scheme \<Rightarrow> ('k \<Rightarrow> int \<Rightarrow> (bytes \<times> bytes) list) \<Rightarrow> bool" where
  "recvfrom_ok sys waiting \<longleftrightarrow>
     (\<forall>fd n m k src d q. waiting k fd = (src, d) # q \<longrightarrow>
        (\<exists>k'. os_recvfrom sys fd n MSG_TRUNC m k = ((int (length d), 0, take n d, take m src, length src), k') \<and>
          waiting k' fd = q))"

text \<open>
  Receiving a datagram. On such a kernel \<open>recv\<close> takes the first datagram that waits. One of
  at most \<open>mtu\<close> bytes is returned whole, with the address of its sender, and counted as a read; a
  larger one is never returned cut off but reported by an exception.
\<close>

theorem udp_socket_receives:
  assumes "recvfrom_ok sys waiting"
    and "waiting (wd_kernel w) (FileDescriptor_fd_num w h) = (src, d) # q"
    and "length d < 2 ^ 31" "length src \<le> sizeof_sockaddr_storage" "mtu < 2 ^ 63"
  shows "\<exists>k'. waiting k' (FileDescriptor_fd_num w h) = q \<and>
    UDPSocket_recv sys h mtu w =
      (if length d \<le> mtu then
         (Inr \<lparr>rd_source_address =
                 \<lparr>ad_size = length src, ad_storage = src @ replicate (sizeof_sockaddr_storage - length src) 0\<rparr>,
               rd_payload = d\<rparr>,
          FileDescriptor_register_read h (w\<lparr>wd_kernel := k'\<rparr>))
       else (Inl RuntimeError, w\<lparr>wd_kernel := k'\<rparr>))"
proof -
  from assms(1,2) obtain k' where
    k: "os_recvfrom sys (FileDescriptor_fd_num w h) mtu MSG_TRUNC sizeof_sockaddr_storage (wd_kernel w) =
      ((int (length d), 0, take mtu d, take sizeof_sockaddr_storage src, length src), k')"
    "waiting k' (FileDescriptor_fd_num w h) = q"
    unfolding recvfrom_ok_def by blast
  have n: "to_int (int (length d)) = int (length d)" "to_size (int (length d)) = length d" "to_ssize mtu = int mtu"
    using assms(3,5) by (simp_all add: to_int_exact to_size_exact to_ssize_exact)
  have a: "Address_of_sockaddr (string_resize sizeof_sockaddr_storage src) (length src) =
      Inr \<lparr>ad_size = length src, ad_storage = src @ replicate (sizeof_sockaddr_storage - length src) 0\<rparr>"
    using assms(4) by (simp add: Address_of_sockaddr_def string_resize_grow)
  from k n a assms(4) show ?thesis
    by (intro exI [of _ k'])
       (auto simp: UDPSocket_recv_def UDPSocket_recv_into_def Address_of_sockaddr_def [of "[]"] system_call_def
         SystemCall_def io string_resize_cut)
qed

text \<open>A kernel whose state is the list of waiting datagrams.\<close>

definition sample_socket_os :: "(bytes \<times> bytes) list socket_os" where
  "sample_socket_os = \<lparr>os_read = \<lambda>fd n k. ((0, 0, []), k), os_writev = \<lambda>fd iov k. ((0, 0, ()), k),
     os_close = \<lambda>fd k. ((0, 0, ()), k), os_fcntl_getfl = \<lambda>fd k. ((0, 0, ()), k),
     os_fcntl_setfl = \<lambda>fd flags k. ((0, 0, ()), k), os_poll = \<lambda>ps t k. ((1, 0, \<lambda>_. 1), k),
     os_socket = \<lambda>d t p k. ((3, 0, ()), k), os_getsockopt = \<lambda>fd l opt n k. ((0, 0, 2, n), k),
     os_setsockopt = \<lambda>fd l opt v n k. ((0, 0, ()), k), os_getsockname = \<lambda>fd n k. ((0, 0, [], 0), k),
     os_getpeername = \<lambda>fd n k. ((0, 0, [], 0), k), os_bind = \<lambda>fd a n k. ((0, 0, ()), k),
     os_connect = \<lambda>fd a n k. ((0, 0, ()), k), os_shutdown = \<lambda>fd how k. ((0, 0, ()), k),
     os_recvfrom = \<lambda>fd n fl m k. case k of [] \<Rightarrow> ((- 1, 11, [], [], 0), [])
       | (src, d) # q \<Rightarrow> ((int (length d), 0, take n d, take m src, length src), q),
     os_sendmsg = \<lambda>fd a n iov fl k. ((0, 0, ()), k), os_listen = \<lambda>fd n k. ((0, 0, ()), k),
     os_accept = \<lambda>fd k. ((4, 0, ()), k), os_socketpair = \<lambda>d t p k. ((0, 0, 5, 6), k)\<rparr>"

theorem udp_socket_receives_witness:
  "fst (UDPSocket_recv sample_socket_os 0 2 (sample_world [([7], [1, 2, 3])])) = Inl RuntimeError"
proof -
  have "recvfrom_ok sample_socket_os (\<lambda>k fd. k)" by (simp add: recvfrom_ok_def sample_socket_os_def)
  from udp_socket_receives [OF this, where w = "sample_world [([7], [1, 2, 3])]" and h = 0 and src = "[7]"
      and d = "[1, 2, 3]" and q = "[]" and mtu = 2]
  show ?thesis by (auto simp: sample_world_def sizeof_sockaddr_storage_def)
qed

end
