(* ===== verification/Adapters.thy ===== *)
theory Adapters
  imports TCP_Segment Network_Interface Sockets
begin

text \<open>
  What lies between a TCP connection and a device: \<open>tcp_helpers/fd_adapter\<close>,
  \<open>lossy_fd_adapter\<close>, \<open>tcp_over_ip\<close> and \<open>tuntap_adapter\<close> (\<open>.hh\<close> and
  \<open>.cc\<close>) with the \<open>FdAdapterConfig\<close> of \<open>tcp_config.hh\<close>. What a device delivers is an
  argument of the reading operations, what it is given a result of the writing ones.
\<close>

section \<open>Configuration and base class\<close>

record fd_adapter_config =
  fc_source :: address
  fc_destination :: address
  fc_loss_rate_dn :: uint16
  fc_loss_rate_up :: uint16

definition FdAdapterConfig_new :: "getaddrinfo \<Rightarrow> fd_adapter_config result" where
  "FdAdapterConfig_new gai =
     bindR (Address_of_ip gai ''0'' 0) (\<lambda>source.
     bindR (Address_of_ip gai ''0'' 0) (\<lambda>destination.
       Inr \<lparr>fc_source = source, fc_destination = destination, fc_loss_rate_dn = 0, fc_loss_rate_up = 0\<rparr>))"

record fd_adapter =
  fa_cfg :: fd_adapter_config
  fa_listen :: bool

definition FdAdapterBase_new :: "getaddrinfo \<Rightarrow> fd_adapter result" where
  "FdAdapterBase_new gai = bindR (FdAdapterConfig_new gai) (\<lambda>cfg. Inr \<lparr>fa_cfg = cfg, fa_listen = False\<rparr>)"

definition FdAdapterBase_set_listening :: "'a fd_adapter_scheme \<Rightarrow> bool \<Rightarrow> 'a fd_adapter_scheme" where
  "FdAdapterBase_set_listening fa l = fa\<lparr>fa_listen := l\<rparr>"

definition FdAdapterBase_listening :: "'a fd_adapter_scheme \<Rightarrow> bool" where
  "FdAdapterBase_listening fa = fa_listen fa"

definition FdAdapterBase_config :: "'a fd_adapter_scheme \<Rightarrow> fd_adapter_config" where
  "FdAdapterBase_config fa = fa_cfg fa"

definition FdAdapterBase_config_mut ::
    "'a fd_adapter_scheme \<Rightarrow> fd_adapter_config \<Rightarrow> 'a fd_adapter_scheme" where
  "FdAdapterBase_config_mut fa cfg = fa\<lparr>fa_cfg := cfg\<rparr>"

definition FdAdapterBase_tick :: "'a fd_adapter_scheme \<Rightarrow> size_t \<Rightarrow> 'a fd_adapter_scheme" where
  "FdAdapterBase_tick fa ms = fa"

section \<open>TCP in UDP\<close>

definition TCPOverUDPSocketAdapter_read ::
    "'a fd_adapter_scheme \<Rightarrow> received_datagram \<Rightarrow> tcp_segment option \<times> 'a fd_adapter_scheme" where
  "TCPOverUDPSocketAdapter_read fa datagram =
     (if \<not> FdAdapterBase_listening fa \<and>
         \<not> Address_equal (rd_source_address datagram) (fc_destination (FdAdapterBase_config fa))
      then (None, fa)
      else
        let (seg, res) = TCPSegment_parse TCPSegment_default (Buffer_new (rd_payload datagram)) 0
        in if res \<noteq> NoError then (None, fa)
           else if FdAdapterBase_listening fa then
             if th_syn (ts_header seg) \<and> \<not> th_rst (ts_header seg) then
               let fa = FdAdapterBase_config_mut fa
                          ((FdAdapterBase_config fa)\<lparr>fc_destination := rd_source_address datagram\<rparr>)
               in (Some seg, FdAdapterBase_set_listening fa False)
             else (None, fa)
           else (Some seg, fa))"

definition TCPSegment_set_ports :: "tcp_segment \<Rightarrow> uint16 \<Rightarrow> uint16 \<Rightarrow> tcp_segment" where
  "TCPSegment_set_ports seg sport dport =
     seg\<lparr>ts_header := (ts_header seg)\<lparr>th_sport := sport, th_dport := dport\<rparr>\<rparr>"

text \<open>The segment is changed in place; what is sent goes to the configured destination.\<close>

definition TCPOverUDPSocketAdapter_write ::
    "getnameinfo \<Rightarrow> 'a fd_adapter_scheme \<Rightarrow> tcp_segment \<Rightarrow> (tcp_segment \<times> address \<times> buffer_list) result" where
  "TCPOverUDPSocketAdapter_write gni fa seg =
     bindR (Address_port gni (fc_source (FdAdapterBase_config fa))) (\<lambda>sport.
     bindR (Address_port gni (fc_destination (FdAdapterBase_config fa))) (\<lambda>dport.
       let seg = TCPSegment_set_ports seg sport dport
       in bindR (TCPSegment_serialize seg 0) (\<lambda>payload.
            Inr (seg, fc_destination (FdAdapterBase_config fa), payload))))"

section \<open>TCP in IPv4\<close>

text \<open>The test of the addresses; each comparison is made only while not listening.\<close>

definition TCPOverIPv4Adapter_for_us :: "'a fd_adapter_scheme \<Rightarrow> ipv4_datagram \<Rightarrow> bool result" where
  "TCPOverIPv4Adapter_for_us fa ip_dgram =
     (if FdAdapterBase_listening fa then Inr True
      else
        bindR (Address_ipv4_numeric (fc_source (FdAdapterBase_config fa))) (\<lambda>source.
          if ip_dst (dg_header ip_dgram) \<noteq> source then Inr False
          else
            bindR (Address_ipv4_numeric (fc_destination (FdAdapterBase_config fa))) (\<lambda>destination.
              Inr (ip_src (dg_header ip_dgram) = destination))))"

text \<open>Taking the addresses of a peer that opens a connection.\<close>

definition TCPOverIPv4Adapter_target ::
    "getnameinfo \<Rightarrow> getaddrinfo \<Rightarrow> 'a fd_adapter_scheme \<Rightarrow> ipv4_datagram \<Rightarrow> tcp_segment \<Rightarrow>
     'a fd_adapter_scheme result" where
  "TCPOverIPv4Adapter_target gni gai fa ip_dgram tcp_seg =
     bindR (Address_port gni (fc_source (FdAdapterBase_config fa))) (\<lambda>port.
     bindR (Address_of_ip gai (inet_ntoa (ip_dst (dg_header ip_dgram))) port) (\<lambda>source.
     bindR (Address_of_ip gai (inet_ntoa (ip_src (dg_header ip_dgram))) (th_sport (ts_header tcp_seg)))
       (\<lambda>destination.
         Inr (FdAdapterBase_set_listening
               (FdAdapterBase_config_mut fa
                 ((FdAdapterBase_config fa)\<lparr>fc_source := source, fc_destination := destination\<rparr>)) False))))"

definition TCPOverIPv4Adapter_unwrap_tcp_in_ip ::
    "getnameinfo \<Rightarrow> getaddrinfo \<Rightarrow> 'a fd_adapter_scheme \<Rightarrow> ipv4_datagram \<Rightarrow>
     (tcp_segment option \<times> 'a fd_adapter_scheme) result" where
  "TCPOverIPv4Adapter_unwrap_tcp_in_ip gni gai fa ip_dgram =
     bindR (TCPOverIPv4Adapter_for_us fa ip_dgram) (\<lambda>for_us.
       if \<not> for_us then Inr (None, fa)
       else if ip_proto (dg_header ip_dgram) \<noteq> IPv4Header_PROTO_TCP then Inr (None, fa)
       else
         bindR (BufferList_to_Buffer (dg_payload ip_dgram)) (\<lambda>payload.
           let (tcp_seg, res) =
             TCPSegment_parse TCPSegment_default payload (IPv4Header_pseudo_cksum (dg_header ip_dgram))
           in if res \<noteq> NoError then Inr (None, fa)
              else
                bindR (Address_port gni (fc_source (FdAdapterBase_config fa))) (\<lambda>source_port.
                  if th_dport (ts_header tcp_seg) \<noteq> source_port then Inr (None, fa)
                  else if FdAdapterBase_listening fa \<and>
                          \<not> (th_syn (ts_header tcp_seg) \<and> \<not> th_rst (ts_header tcp_seg))
                  then Inr (None, fa)
                  else
                    bindR (if FdAdapterBase_listening fa
                           then TCPOverIPv4Adapter_target gni gai fa ip_dgram tcp_seg else Inr fa) (\<lambda>fa.
                      bindR (Address_port gni (fc_destination (FdAdapterBase_config fa))) (\<lambda>destination_port.
                        if th_sport (ts_header tcp_seg) \<noteq> destination_port then Inr (None, fa)
                        else Inr (Some tcp_seg, fa))))))"

definition TCPOverIPv4Adapter_wrap_tcp_in_ip ::
    "getnameinfo \<Rightarrow> 'a fd_adapter_scheme \<Rightarrow> tcp_segment \<Rightarrow> (tcp_segment \<times> ipv4_datagram) result" where
  "TCPOverIPv4Adapter_wrap_tcp_in_ip gni fa seg =
     bindR (Address_port gni (fc_source (FdAdapterBase_config fa))) (\<lambda>sport.
     bindR (Address_port gni (fc_destination (FdAdapterBase_config fa))) (\<lambda>dport.
       let seg = TCPSegment_set_ports seg sport dport
       in bindR (Address_ipv4_numeric (fc_source (FdAdapterBase_config fa))) (\<lambda>src.
          bindR (Address_ipv4_numeric (fc_destination (FdAdapterBase_config fa))) (\<lambda>dst.
            let h = dg_header IPv4Datagram_default;
                h = h\<lparr>ip_src := src, ip_dst := dst,
                      ip_len := of_nat (unat (ip_hlen h) * 4 + unat (th_doff (ts_header seg)) * 4 +
                                  Buffer_size (ts_payload seg))\<rparr>
            in bindR (TCPSegment_serialize seg (IPv4Header_pseudo_cksum h)) (\<lambda>payload.
                 Inr (seg, IPv4Datagram_default\<lparr>dg_header := h, dg_payload := payload\<rparr>))))))"

section \<open>TUN and TAP devices\<close>

definition TCPOverIPv4OverTunFdAdapter_read ::
    "getnameinfo \<Rightarrow> getaddrinfo \<Rightarrow> 'a fd_adapter_scheme \<Rightarrow> bytes \<Rightarrow>
     (tcp_segment option \<times> 'a fd_adapter_scheme) result" where
  "TCPOverIPv4OverTunFdAdapter_read gni gai fa data =
     (let (ip_dgram, res) = IPv4Datagram_parse IPv4Datagram_default (Buffer_new data)
      in if res \<noteq> NoError then Inr (None, fa)
         else TCPOverIPv4Adapter_unwrap_tcp_in_ip gni gai fa ip_dgram)"

definition TCPOverIPv4OverTunFdAdapter_write ::
    "getnameinfo \<Rightarrow> 'a fd_adapter_scheme \<Rightarrow> tcp_segment \<Rightarrow> (tcp_segment \<times> buffer_list) result" where
  "TCPOverIPv4OverTunFdAdapter_write gni fa seg =
     bindR (TCPOverIPv4Adapter_wrap_tcp_in_ip gni fa seg) (\<lambda>(seg, dgram).
     bindR (IPv4Datagram_serialize dgram) (\<lambda>data. Inr (seg, data)))"

text \<open>The adapter for a TAP device, with what it has written to the device.\<close>

record ethernet_adapter = fd_adapter +
  ea_tap :: "buffer_list list"
  ea_interface :: network_interface
  ea_next_hop :: address

definition TCPOverIPv4OverEthernetAdapter_new ::
    "getnameinfo \<Rightarrow> getaddrinfo \<Rightarrow> ethernet_address \<Rightarrow> address \<Rightarrow> address \<Rightarrow> ethernet_adapter result" where
  "TCPOverIPv4OverEthernetAdapter_new gni gai eth_address ip_address next_hop =
     bindR (FdAdapterBase_new gai) (\<lambda>base.
     bindR (NetworkInterface_new gni eth_address ip_address) (\<lambda>interface.
       let dummy_frame = EthernetFrame_default
       in Inr \<lparr>fa_cfg = fa_cfg base, fa_listen = fa_listen base,
               ea_tap = [EthernetFrame_serialize dummy_frame],
               ea_interface = interface, ea_next_hop = next_hop\<rparr>))"

text \<open>The loop of \<open>send_pending\<close>: write the first frame and take it off the queue.\<close>

fun TCPOverIPv4OverEthernetAdapter_send_frames ::
    "buffer_list list \<Rightarrow> ethernet_frame list \<Rightarrow> buffer_list list" where
  "TCPOverIPv4OverEthernetAdapter_send_frames tap [] = tap"
| "TCPOverIPv4OverEthernetAdapter_send_frames tap (f # fs) =
     TCPOverIPv4OverEthernetAdapter_send_frames (tap @ [EthernetFrame_serialize f]) fs"

definition TCPOverIPv4OverEthernetAdapter_send_pending :: "ethernet_adapter \<Rightarrow> ethernet_adapter" where
  "TCPOverIPv4OverEthernetAdapter_send_pending ea =
     ea\<lparr>ea_tap := TCPOverIPv4OverEthernetAdapter_send_frames (ea_tap ea) (ni_frames_out (ea_interface ea)),
        ea_interface := (ea_interface ea)\<lparr>ni_frames_out := []\<rparr>\<rparr>"

definition TCPOverIPv4OverEthernetAdapter_read ::
    "getnameinfo \<Rightarrow> getaddrinfo \<Rightarrow> ethernet_adapter \<Rightarrow> bytes \<Rightarrow>
     (tcp_segment option \<times> ethernet_adapter) result" where
  "TCPOverIPv4OverEthernetAdapter_read gni gai ea data =
     (let (frame, res) = EthernetFrame_parse EthernetFrame_default (Buffer_new data)
      in if res \<noteq> NoError then Inr (None, ea)
         else
           bindR (NetworkInterface_recv_frame (ea_interface ea) frame) (\<lambda>(ip_dgram, interface).
             let ea = TCPOverIPv4OverEthernetAdapter_send_pending (ea\<lparr>ea_interface := interface\<rparr>)
             in case ip_dgram of
                  Some d \<Rightarrow> TCPOverIPv4Adapter_unwrap_tcp_in_ip gni gai ea d
                | None \<Rightarrow> Inr (None, ea)))"

definition TCPOverIPv4OverEthernetAdapter_tick :: "ethernet_adapter \<Rightarrow> size_t \<Rightarrow> ethernet_adapter" where
  "TCPOverIPv4OverEthernetAdapter_tick ea ms_since_last_tick =
     TCPOverIPv4OverEthernetAdapter_send_pending
       (ea\<lparr>ea_interface := NetworkInterface_tick (ea_interface ea) ms_since_last_tick\<rparr>)"

definition TCPOverIPv4OverEthernetAdapter_write ::
    "getnameinfo \<Rightarrow> ethernet_adapter \<Rightarrow> tcp_segment \<Rightarrow> (tcp_segment \<times> ethernet_adapter) result" where
  "TCPOverIPv4OverEthernetAdapter_write gni ea seg =
     bindR (TCPOverIPv4Adapter_wrap_tcp_in_ip gni ea seg) (\<lambda>(seg, dgram).
     bindR (NetworkInterface_send_datagram (ea_interface ea) dgram (ea_next_hop ea)) (\<lambda>interface.
       Inr (seg, TCPOverIPv4OverEthernetAdapter_send_pending (ea\<lparr>ea_interface := interface\<rparr>))))"

section \<open>The lossy adapter\<close>

text \<open>
  \<open>LossyFdAdapter\<close> is a template over the adapter it wraps; the operations of that adapter are
  arguments here. The random number generator is a state with a function that gives the next number.
\<close>

record ('g, 'a) lossy_fd_adapter =
  la_rand :: 'g
  la_adapter :: 'a

definition LossyFdAdapter_should_drop ::
    "('g \<Rightarrow> uint32 \<times> 'g) \<Rightarrow> ('a \<Rightarrow> fd_adapter_config) \<Rightarrow> ('g, 'a) lossy_fd_adapter \<Rightarrow> bool \<Rightarrow>
     bool \<times> ('g, 'a) lossy_fd_adapter" where
  "LossyFdAdapter_should_drop rng config la uplink =
     (let cfg = config (la_adapter la);
          loss = (if uplink then fc_loss_rate_up cfg else fc_loss_rate_dn cfg)
      in if loss \<noteq> 0 then
           let (r, g) = rng (la_rand la) in ((ucast r :: uint16) < loss, la\<lparr>la_rand := g\<rparr>)
         else (False, la))"

definition LossyFdAdapter_read ::
    "('g \<Rightarrow> uint32 \<times> 'g) \<Rightarrow> ('a \<Rightarrow> fd_adapter_config) \<Rightarrow> ('a \<Rightarrow> 'i \<Rightarrow> ('s option \<times> 'a) result) \<Rightarrow>
     ('g, 'a) lossy_fd_adapter \<Rightarrow> 'i \<Rightarrow> ('s option \<times> ('g, 'a) lossy_fd_adapter) result" where
  "LossyFdAdapter_read rng config read la input =
     bindR (read (la_adapter la) input) (\<lambda>(ret, adapter).
       let (drop, la) = LossyFdAdapter_should_drop rng config (la\<lparr>la_adapter := adapter\<rparr>) False
       in if drop then Inr (None, la) else Inr (ret, la))"

definition LossyFdAdapter_write ::
    "('g \<Rightarrow> uint32 \<times> 'g) \<Rightarrow> ('a \<Rightarrow> fd_adapter_config) \<Rightarrow> ('a \<Rightarrow> 's \<Rightarrow> ('s \<times> 'o) result) \<Rightarrow>
     ('g, 'a) lossy_fd_adapter \<Rightarrow> 's \<Rightarrow> ('s \<times> 'o option \<times> ('g, 'a) lossy_fd_adapter) result" where
  "LossyFdAdapter_write rng config write la seg =
     (let (drop, la) = LossyFdAdapter_should_drop rng config la True
      in if drop then Inr (seg, None, la)
         else bindR (write (la_adapter la) seg) (\<lambda>(seg, out). Inr (seg, Some out, la)))"

definition LossyFdAdapter_set_listening ::
    "('g, 'x fd_adapter_scheme) lossy_fd_adapter \<Rightarrow> bool \<Rightarrow> ('g, 'x fd_adapter_scheme) lossy_fd_adapter" where
  "LossyFdAdapter_set_listening la l = la\<lparr>la_adapter := FdAdapterBase_set_listening (la_adapter la) l\<rparr>"

definition LossyFdAdapter_config :: "('g, 'x fd_adapter_scheme) lossy_fd_adapter \<Rightarrow> fd_adapter_config" where
  "LossyFdAdapter_config la = FdAdapterBase_config (la_adapter la)"

definition LossyFdAdapter_config_mut ::
    "('g, 'x fd_adapter_scheme) lossy_fd_adapter \<Rightarrow> fd_adapter_config \<Rightarrow>
     ('g, 'x fd_adapter_scheme) lossy_fd_adapter" where
  "LossyFdAdapter_config_mut la cfg = la\<lparr>la_adapter := FdAdapterBase_config_mut (la_adapter la) cfg\<rparr>"

definition LossyFdAdapter_tick ::
    "('g, 'x fd_adapter_scheme) lossy_fd_adapter \<Rightarrow> size_t \<Rightarrow> ('g, 'x fd_adapter_scheme) lossy_fd_adapter" where
  "LossyFdAdapter_tick la ms_since_last_tick =
     la\<lparr>la_adapter := FdAdapterBase_tick (la_adapter la) ms_since_last_tick\<rparr>"

text \<open>
  What the wrapper relies on: reading leaves the loss rates of the adapter alone. Then the decisions
  are made at the rates configured, and what passes is what the adapter itself would read or write.
\<close>

locale wrapped_adapter =
  fixes config :: "'a \<Rightarrow> fd_adapter_config"
    and fetch :: "'a \<Rightarrow> 'i \<Rightarrow> ('s option \<times> 'a) result"
    and emit :: "'a \<Rightarrow> 's \<Rightarrow> ('s \<times> 'o) result"
  assumes read_rates: "fetch a i = Inr (s, a') \<Longrightarrow>
    fc_loss_rate_dn (config a') = fc_loss_rate_dn (config a) \<and>
    fc_loss_rate_up (config a') = fc_loss_rate_up (config a)"
begin

lemma lossless_read:
  assumes "fc_loss_rate_dn (config (la_adapter la)) = 0"
  shows "LossyFdAdapter_read rng config fetch la i =
    bindR (fetch (la_adapter la) i) (\<lambda>(s, a). Inr (s, la\<lparr>la_adapter := a\<rparr>))"
proof (cases "fetch (la_adapter la) i")
  case (Inr r)
  then obtain s a where r: "fetch (la_adapter la) i = Inr (s, a)" by (cases r) auto
  from read_rates [OF this] assms have "fc_loss_rate_dn (config a) = 0" by simp
  with r show ?thesis by (simp add: LossyFdAdapter_read_def LossyFdAdapter_should_drop_def)
qed (simp add: LossyFdAdapter_read_def)

lemma lossless_write:
  assumes "fc_loss_rate_up (config (la_adapter la)) = 0"
  shows "LossyFdAdapter_write rng config emit la s =
    bindR (emit (la_adapter la) s) (\<lambda>(s, out). Inr (s, Some out, la))"
  using assms by (simp add: LossyFdAdapter_write_def LossyFdAdapter_should_drop_def)

text \<open>With losses, the adapter's state advances as without; at most the segment is missing.\<close>

lemma lossy_read:
  assumes "fetch (la_adapter la) i = Inr (s, a)"
  shows "\<exists>s' la'. LossyFdAdapter_read rng config fetch la i = Inr (s', la') \<and> la_adapter la' = a \<and>
    (s' = s \<or> s' = None) \<and>
    (s' \<noteq> s \<longrightarrow> (ucast (fst (rng (la_rand la))) :: uint16) < fc_loss_rate_dn (config (la_adapter la)))"
  using assms read_rates [OF assms]
  by (auto simp: LossyFdAdapter_read_def LossyFdAdapter_should_drop_def Let_def split: prod.split)

lemma lossy_write:
  assumes "emit (la_adapter la) s = Inr (s', out)"
  shows "\<exists>s'' out' la'. LossyFdAdapter_write rng config emit la s = Inr (s'', out', la') \<and>
    la_adapter la' = la_adapter la \<and>
    (out' = Some out \<and> s'' = s' \<or> out' = None \<and> s'' = s \<and>
      (ucast (fst (rng (la_rand la))) :: uint16) < fc_loss_rate_up (config (la_adapter la)))"
  using assms
  by (auto simp: LossyFdAdapter_write_def LossyFdAdapter_should_drop_def Let_def split: prod.split)

end

text \<open>The two adapters the sources instantiate the template with.\<close>

lemma target_rates:
  "TCPOverIPv4Adapter_target gni gai fa d seg = Inr fa' \<Longrightarrow>
    fc_loss_rate_dn (fa_cfg fa') = fc_loss_rate_dn (fa_cfg fa) \<and>
    fc_loss_rate_up (fa_cfg fa') = fc_loss_rate_up (fa_cfg fa)"
  by (auto simp: TCPOverIPv4Adapter_target_def bindR_eq_Inr FdAdapterBase_config_def
      FdAdapterBase_config_mut_def FdAdapterBase_set_listening_def)

lemma unwrap_rates:
  "TCPOverIPv4Adapter_unwrap_tcp_in_ip gni gai fa d = Inr (s, fa') \<Longrightarrow>
    fc_loss_rate_dn (fa_cfg fa') = fc_loss_rate_dn (fa_cfg fa) \<and>
    fc_loss_rate_up (fa_cfg fa') = fc_loss_rate_up (fa_cfg fa)"
  by (auto simp: TCPOverIPv4Adapter_unwrap_tcp_in_ip_def bindR_eq_Inr split_def Let_def
      split: if_splits dest: target_rates)

interpretation lossy_udp: wrapped_adapter FdAdapterBase_config
  "\<lambda>fa d. Inr (TCPOverUDPSocketAdapter_read fa d)"
  "\<lambda>fa seg. TCPOverUDPSocketAdapter_write gni fa seg"
  for gni
  by unfold_locales
     (auto simp: TCPOverUDPSocketAdapter_read_def FdAdapterBase_config_def FdAdapterBase_config_mut_def
       FdAdapterBase_set_listening_def split_def Let_def split: if_splits)

interpretation lossy_tun: wrapped_adapter FdAdapterBase_config
  "TCPOverIPv4OverTunFdAdapter_read gni gai" "TCPOverIPv4OverTunFdAdapter_write gni"
  for gni gai
  by unfold_locales
     (auto simp: TCPOverIPv4OverTunFdAdapter_read_def FdAdapterBase_config_def split_def Let_def
       split: if_splits dest: unwrap_rates)

section \<open>Wrapping and unwrapping\<close>

lemma unat_plus_le: "unat (a + b) \<le> unat a + unat (b :: 'a::len word)"
  by (simp add: unat_word_ariths)

lemma unat_halves: "unat (drop_bit 16 w) < 65536" "unat (w AND 0xffff) < 65536" for w :: uint32
proof -
  have w: "unat w < 2 ^ 32" using unsigned_less [of w, where 'a = nat] by simp
  then have "take_bit 32 (unat w) = unat w" by (simp add: take_bit_eq_mod)
  then have "unat (drop_bit 16 w) = unat w div 2 ^ 16"
    by (simp only: unsigned_drop_bit_eq) (simp add: drop_bit_eq_div)
  moreover note w
  ultimately show "unat (drop_bit 16 w) < 65536" by (simp only:) (simp add: less_mult_imp_div_less)
  have "w AND 0xffff = take_bit 16 w" by (simp add: take_bit_eq_mask mask_eq_exp_minus_1)
  then show "unat (w AND 0xffff) < 65536"
    by (simp only: unsigned_take_bit_eq) (simp add: take_bit_eq_mod)
qed

lemma unat_ucast_small:
  "unat (ucast (b :: byte) :: uint32) < 65536" "unat (ucast (c :: uint16) :: uint32) < 65536"
  using unsigned_less [of b, where 'a = nat] unsigned_less [of c, where 'a = nat]
  by (simp_all add: unsigned_ucast_eq take_bit_eq_mod)

lemma pseudo_cksum_bound: "unat (IPv4Header_pseudo_cksum h) < 2 ^ 19"
proof -
  have step: "unat (a + b) < m + n" if "unat a < m" "unat b < n" for a b :: uint32 and m n
    using unat_plus_le [of a b] that by linarith
  have "unat (IPv4Header_pseudo_cksum h) < 65536 + 65536 + (65536 + 65536) + 65536 + 65536"
    unfolding IPv4Header_pseudo_cksum_def Let_def
    by (intro step unat_halves unat_ucast_small)
  then show ?thesis by simp
qed

text \<open>A segment whose header and data fit into a datagram.\<close>

definition segment_fits :: "tcp_segment \<Rightarrow> bool" where
  "segment_fits seg \<longleftrightarrow>
     5 \<le> unat (th_doff (ts_header seg)) \<and> unat (th_doff (ts_header seg)) < 16 \<and>
     20 + 4 * unat (th_doff (ts_header seg)) + length (Buffer_str (ts_payload seg)) < 2 ^ 16"

lemma fits_cksum:
  "segment_fits seg \<Longrightarrow> unat (IPv4Header_pseudo_cksum h) +
    65280 * (4 * unat (th_doff (ts_header seg)) + length (Buffer_str (ts_payload seg))) < 2 ^ 32"
  using pseudo_cksum_bound [of h] by (simp add: segment_fits_def)

lemma set_ports_fields [simp]:
  "ts_payload (TCPSegment_set_ports seg sp dp) = ts_payload seg"
  "ts_header (TCPSegment_set_ports seg sp dp) = (ts_header seg)\<lparr>th_sport := sp, th_dport := dp\<rparr>"
  "segment_fits (TCPSegment_set_ports seg sp dp) = segment_fits seg"
  by (simp_all add: TCPSegment_set_ports_def segment_fits_def)

text \<open>The header \<open>wrap_tcp_in_ip\<close> makes for a segment.\<close>

definition wrap_header :: "uint32 \<Rightarrow> uint32 \<Rightarrow> tcp_segment \<Rightarrow> ipv4_header" where
  "wrap_header src dst seg = IPv4Header_default
     \<lparr>ip_src := src, ip_dst := dst,
      ip_len := of_nat (20 + 4 * unat (th_doff (ts_header seg)) + length (Buffer_str (ts_payload seg)))\<rparr>"

text \<open>Both ends of a connection know the same addresses and ports.\<close>

definition adapter_addresses ::
    "getnameinfo \<Rightarrow> fd_adapter_config \<Rightarrow> uint32 \<Rightarrow> uint16 \<Rightarrow> uint32 \<Rightarrow> uint16 \<Rightarrow> bool" where
  "adapter_addresses gni cfg src sport dst dport \<longleftrightarrow>
     Address_ipv4_numeric (fc_source cfg) = Inr src \<and> Address_port gni (fc_source cfg) = Inr sport \<and>
     Address_ipv4_numeric (fc_destination cfg) = Inr dst \<and> Address_port gni (fc_destination cfg) = Inr dport"

lemma wrap_exact:
  assumes "adapter_addresses gni (fa_cfg fa) src sport dst dport" "segment_fits seg"
    and "seg' = TCPSegment_set_ports seg sport dport" "h = wrap_header src dst seg"
  shows "\<exists>bl. TCPSegment_serialize seg' (IPv4Header_pseudo_cksum h) = Inr bl \<and>
    TCPOverIPv4Adapter_wrap_tcp_in_ip gni fa seg = Inr (seg', \<lparr>dg_header = h, dg_payload = bl\<rparr>) \<and>
    datagram_ok \<lparr>dg_header = h, dg_payload = bl\<rparr>"
proof -
  have fits: "segment_fits seg'" using assms(2,3) by simp
  then have doff: "\<not> th_doff (ts_header seg') < 5" by (simp add: segment_fits_def word_less_nat_alt)
  from TCPSegment_serialize_bytes [OF doff fits_cksum [OF fits, of h]] obtain cksum bl where
    bl: "TCPSegment_serialize seg' (IPv4Header_pseudo_cksum h) = Inr bl"
    "BufferList_concatenate bl = header_prefix (ts_header seg') @ be_bytes (cksum :: uint16) @
      be_bytes (th_uptr (ts_header seg')) @ header_padding (ts_header seg') @ Buffer_str (ts_payload seg')"
    by blast
  let ?n = "4 * unat (th_doff (ts_header seg)) + length (Buffer_str (ts_payload seg))"
  have "5 \<le> unat (th_doff (ts_header seg))" using assms(2) by (simp add: segment_fits_def)
  then have len: "length (BufferList_concatenate bl) = ?n" by (simp add: bl(2) header_padding_def assms(3))
  have "unat (of_nat k :: uint16) = k" if "k < 2 ^ 16" for k
    using that by (simp add: unsigned_of_nat take_bit_eq_mod)
  from this [of "20 + ?n"] have "unat (of_nat (20 + ?n) :: uint16) = 20 + ?n"
    using assms(2) by (simp only: segment_fits_def add.assoc)
  then have "datagram_ok \<lparr>dg_header = h, dg_payload = bl\<rparr>"
    using len by (simp add: datagram_ok_def ip_header_ok_def assms(4) wrap_header_def IPv4Header_default_def
        IPv4Header_LENGTH_def add.assoc)
  moreover have "TCPOverIPv4Adapter_wrap_tcp_in_ip gni fa seg = Inr (seg', \<lparr>dg_header = h, dg_payload = bl\<rparr>)"
    using assms(1,3,4) bl(1)
    by (simp add: TCPOverIPv4Adapter_wrap_tcp_in_ip_def adapter_addresses_def FdAdapterBase_config_def
        IPv4Datagram_default_def wrap_header_def IPv4Header_default_def IPv4Header_LENGTH_def Buffer_size_def
        Let_def mult.commute)
  ultimately show ?thesis using bl(1) by blast
qed

text \<open>A datagram that carries a segment to the peer, seen from the receiving adapter.\<close>

lemma unwrap_exact:
  assumes "adapter_addresses gni (fa_cfg fa) src sport dst dport" "\<not> fa_listen fa"
    and "ip_src (dg_header d) = dst" "ip_dst (dg_header d) = src"
    and "ip_proto (dg_header d) = IPv4Header_PROTO_TCP" "dg_payload d = [b]"
    and "TCPSegment_parse TCPSegment_default b (IPv4Header_pseudo_cksum (dg_header d)) = (seg, NoError)"
    and "th_dport (ts_header seg) = sport" "th_sport (ts_header seg) = dport"
  shows "TCPOverIPv4Adapter_unwrap_tcp_in_ip gni gai fa d = Inr (Some seg, fa)"
  using assms
  by (simp add: TCPOverIPv4Adapter_unwrap_tcp_in_ip_def TCPOverIPv4Adapter_for_us_def adapter_addresses_def
      FdAdapterBase_config_def FdAdapterBase_listening_def BufferList_to_Buffer_def)

lemma pseudo_cksum_frame [simp]:
  "IPv4Header_pseudo_cksum (h\<lparr>ip_cksum := c\<rparr>) = IPv4Header_pseudo_cksum h"
  by (simp add: IPv4Header_pseudo_cksum_def IPv4Header_payload_length_def)

text \<open>What arrives of a segment: a datagram with the addresses of the sender, and the segment in it.\<close>

lemma wrap_delivers:
  assumes "adapter_addresses gni (fa_cfg a) src sport dst dport" "segment_fits seg"
  shows "\<exists>data d buf seg' cksum. TCPOverIPv4OverTunFdAdapter_write gni a seg =
      Inr (TCPSegment_set_ports seg sport dport, data) \<and>
    IPv4Datagram_parse IPv4Datagram_default (Buffer_new (BufferList_concatenate data)) = (d, NoError) \<and>
    dg_payload d = [buf] \<and> ip_src (dg_header d) = src \<and> ip_dst (dg_header d) = dst \<and>
    ip_proto (dg_header d) = IPv4Header_PROTO_TCP \<and>
    TCPSegment_parse TCPSegment_default buf (IPv4Header_pseudo_cksum (dg_header d)) = (seg', NoError) \<and>
    ts_header seg' = (ts_header seg)\<lparr>th_sport := sport, th_dport := dport, th_cksum := cksum\<rparr> \<and>
    Buffer_str (ts_payload seg') = Buffer_str (ts_payload seg)"
proof -
  let ?seg = "TCPSegment_set_ports seg sport dport" and ?h = "wrap_header src dst seg"
  from wrap_exact [OF assms refl refl] obtain bl where
    ser: "TCPSegment_serialize ?seg (IPv4Header_pseudo_cksum ?h) = Inr bl"
    and wrap: "TCPOverIPv4Adapter_wrap_tcp_in_ip gni a seg = Inr (?seg, \<lparr>dg_header = ?h, dg_payload = bl\<rparr>)"
    and ok: "datagram_ok \<lparr>dg_header = ?h, dg_payload = bl\<rparr>" by blast
  from IPv4Datagram_parse_serialized [OF ok, of IPv4Datagram_default IPv4Header_default] obtain data buf c where
    data: "IPv4Datagram_serialize \<lparr>dg_header = ?h, dg_payload = bl\<rparr> = Inr data"
    and d: "IPv4Datagram_parse IPv4Datagram_default (Buffer_new (BufferList_concatenate data)) =
      (\<lparr>dg_header = ?h\<lparr>ip_cksum := c\<rparr>, dg_payload = [buf]\<rparr>, NoError)"
    and buf: "buffer_ok buf" "Buffer_str buf = BufferList_concatenate bl"
    by (auto simp: IPv4Datagram_default_def)
  have doff: "5 \<le> unat (th_doff (ts_header ?seg))" "unat (th_doff (ts_header ?seg)) < 16"
    and fits: "segment_fits ?seg"
    using assms(2) by (simp_all add: segment_fits_def)
  from TCPSegment_parse_serialized [OF doff fits_cksum [OF fits, of ?h], of TCPSegment_default] ser buf
  obtain seg' cksum where seg': "TCPSegment_parse TCPSegment_default buf (IPv4Header_pseudo_cksum ?h) = (seg', NoError)"
    "ts_header seg' = (ts_header ?seg)\<lparr>th_cksum := cksum\<rparr>" "Buffer_str (ts_payload seg') = Buffer_str (ts_payload ?seg)"
    by auto
  have h: "ip_src ?h = src" "ip_dst ?h = dst" "ip_proto ?h = IPv4Header_PROTO_TCP"
    by (simp_all add: wrap_header_def IPv4Header_default_def)
  have "TCPOverIPv4OverTunFdAdapter_write gni a seg = Inr (?seg, data)"
    using wrap data by (simp add: TCPOverIPv4OverTunFdAdapter_write_def)
  with d seg' h show ?thesis by (intro exI [of _ data] exI) (auto intro!: exI)
qed

text \<open>Two ends of a connection, and resolver functions that know their addresses.\<close>

definition sample_config :: "uint32 \<Rightarrow> uint32 \<Rightarrow> fd_adapter_config" where
  "sample_config src dst =
     \<lparr>fc_source = address_of_ipv4 src, fc_destination = address_of_ipv4 dst,
      fc_loss_rate_dn = 0, fc_loss_rate_up = 0\<rparr>"

definition sample_gni :: getnameinfo where
  "sample_gni addr = (0, ''host'', dec (unat (be_value (take 2 (drop 6 addr)) :: uint16)))"

definition sample_gai :: getaddrinfo where
  "sample_gai node service hints =
     (0, Some (sockaddr_in (if node = inet_ntoa 0x0a000001 then 0x0a000001 else 0x0a000002)))"

lemma sample_port: "Address_port sample_gni (address_of_ipv4 ip) = Inr (ucast ip)"
proof -
  have "be_bytes ip = [ucast (drop_bit 24 ip), ucast (drop_bit 16 ip), ucast (drop_bit 8 ip), ucast ip]"
    by (rule be_bytes_32)
  moreover have "be_value [ucast (drop_bit 8 ip), ucast ip] = (ucast ip :: uint16)"
  proof -
    have "be_bytes (ucast ip :: uint16) = [ucast (drop_bit 8 ip), ucast ip]"
      unfolding be_bytes_16 by (simp, intro conjI; rule bit_word_eqI; auto simp: bit_simps)
    then show ?thesis using be_value_bytes(2) [of "ucast ip"] by simp
  qed
  moreover have "unat (ucast ip :: uint16) < 2 ^ 31" using unsigned_less [of "ucast ip :: uint16", where 'a = nat] by simp
  ultimately show ?thesis
    using stoi_dec [of "unat (ucast ip :: uint16)" "[]"]
    by (simp add: Address_port_def Address_ip_port_def sample_gni_def address_of_ipv4_def sockaddr_in_def)
qed

definition sample_adapter :: "uint32 \<Rightarrow> uint32 \<Rightarrow> fd_adapter" where
  "sample_adapter src dst = \<lparr>fa_cfg = sample_config src dst, fa_listen = False\<rparr>"

lemma sample_addresses:
  "adapter_addresses sample_gni (sample_config 0x0a000001 0x0a000002) 0x0a000001 1 0x0a000002 2"
  "adapter_addresses sample_gni (sample_config 0x0a000002 0x0a000001) 0x0a000002 2 0x0a000001 1"
proof -
  have "ucast (0x0a000001 :: uint32) = (1 :: uint16)" "ucast (0x0a000002 :: uint32) = (2 :: uint16)" by code_simp+
  then show "adapter_addresses sample_gni (sample_config 0x0a000001 0x0a000002) 0x0a000001 1 0x0a000002 2"
    "adapter_addresses sample_gni (sample_config 0x0a000002 0x0a000001) 0x0a000002 2 0x0a000001 1"
    unfolding adapter_addresses_def sample_config_def
    by (simp_all only: fd_adapter_config.simps sample_port ipv4_numeric)
qed

lemma sample_fits: "segment_fits TCPSegment_default"
  by (simp add: segment_fits_def TCPSegment_default_def TCPHeader_default_def TCPHeader_LENGTH_def)

section \<open>Properties\<close>

text \<open>
  C32: TCP over IP. A segment that one adapter writes to a TUN device and the adapter of its peer
  reads from one arrives as it was sent: the ports are those of the connection, all other fields of the
  header but the checksum and the whole payload are the same.
\<close>

theorem tcp_over_ip_roundtrip:
  assumes "adapter_addresses gni (fa_cfg a) src sport dst dport"
    and "adapter_addresses gni (fa_cfg b) dst dport src sport" "\<not> fa_listen b" "segment_fits seg"
  shows "\<exists>data seg' cksum. TCPOverIPv4OverTunFdAdapter_write gni a seg =
      Inr (TCPSegment_set_ports seg sport dport, data) \<and>
    TCPOverIPv4OverTunFdAdapter_read gni gai b (BufferList_concatenate data) = Inr (Some seg', b) \<and>
    ts_header seg' = (ts_header seg)\<lparr>th_sport := sport, th_dport := dport, th_cksum := cksum\<rparr> \<and>
    Buffer_str (ts_payload seg') = Buffer_str (ts_payload seg)"
proof -
  from wrap_delivers [OF assms(1,4)] obtain data d buf seg' cksum where
    w: "TCPOverIPv4OverTunFdAdapter_write gni a seg = Inr (TCPSegment_set_ports seg sport dport, data)"
    and p: "IPv4Datagram_parse IPv4Datagram_default (Buffer_new (BufferList_concatenate data)) = (d, NoError)"
    and d: "dg_payload d = [buf]" "ip_src (dg_header d) = src" "ip_dst (dg_header d) = dst"
      "ip_proto (dg_header d) = IPv4Header_PROTO_TCP"
      "TCPSegment_parse TCPSegment_default buf (IPv4Header_pseudo_cksum (dg_header d)) = (seg', NoError)"
    and seg': "ts_header seg' = (ts_header seg)\<lparr>th_sport := sport, th_dport := dport, th_cksum := cksum\<rparr>"
      "Buffer_str (ts_payload seg') = Buffer_str (ts_payload seg)" by blast
  have "TCPOverIPv4Adapter_unwrap_tcp_in_ip gni gai b d = Inr (Some seg', b)"
    by (rule unwrap_exact [OF assms(2,3)]) (use d seg' in simp_all)
  with w p seg' show ?thesis by (auto simp: TCPOverIPv4OverTunFdAdapter_read_def)
qed

theorem tcp_over_ip_roundtrip_witness:
  "\<exists>data seg' cksum. TCPOverIPv4OverTunFdAdapter_write sample_gni (sample_adapter 0x0a000001 0x0a000002)
      TCPSegment_default = Inr (TCPSegment_set_ports TCPSegment_default 1 2, data) \<and>
    TCPOverIPv4OverTunFdAdapter_read sample_gni sample_gai (sample_adapter 0x0a000002 0x0a000001)
      (BufferList_concatenate data) = Inr (Some seg', sample_adapter 0x0a000002 0x0a000001) \<and>
    ts_header seg' = (ts_header TCPSegment_default)\<lparr>th_sport := 1, th_dport := 2, th_cksum := cksum\<rparr>"
proof -
  have "adapter_addresses sample_gni (fa_cfg (sample_adapter 0x0a000001 0x0a000002)) 0x0a000001 1 0x0a000002 2"
    "adapter_addresses sample_gni (fa_cfg (sample_adapter 0x0a000002 0x0a000001)) 0x0a000002 2 0x0a000001 1"
    "\<not> fa_listen (sample_adapter 0x0a000002 0x0a000001)"
    using sample_addresses by (simp_all add: sample_adapter_def)
  from tcp_over_ip_roundtrip [OF this sample_fits, of sample_gai] show ?thesis by blast
qed

text \<open>
  C33: listening. An adapter that listens hands over a valid segment for its port only if it opens a
  connection; it then takes the sender as its peer, answers from the address contacted, and lets no
  datagram between any other two addresses through.
\<close>

theorem adapter_listens:
  assumes "fa_listen fa" "ip_proto (dg_header d) = IPv4Header_PROTO_TCP" "dg_payload d = [b]"
    and "TCPSegment_parse TCPSegment_default b (IPv4Header_pseudo_cksum (dg_header d)) = (seg, NoError)"
    and "Address_port gni (fc_source (fa_cfg fa)) = Inr (th_dport (ts_header seg))"
    and "Address_of_ip gai (inet_ntoa (ip_dst (dg_header d))) (th_dport (ts_header seg)) = Inr source"
    and "Address_of_ip gai (inet_ntoa (ip_src (dg_header d))) (th_sport (ts_header seg)) = Inr destination"
    and "cfg = (fa_cfg fa)\<lparr>fc_source := source, fc_destination := destination\<rparr>"
    and "adapter_addresses gni cfg (ip_dst (dg_header d)) (th_dport (ts_header seg))
      (ip_src (dg_header d)) (th_sport (ts_header seg))"
  shows "if th_syn (ts_header seg) \<and> \<not> th_rst (ts_header seg)
    then TCPOverIPv4Adapter_unwrap_tcp_in_ip gni gai fa d = Inr (Some seg, fa\<lparr>fa_cfg := cfg, fa_listen := False\<rparr>) \<and>
      (\<forall>d'. ip_src (dg_header d') \<noteq> ip_src (dg_header d) \<or> ip_dst (dg_header d') \<noteq> ip_dst (dg_header d) \<longrightarrow>
        TCPOverIPv4Adapter_unwrap_tcp_in_ip gni gai (fa\<lparr>fa_cfg := cfg, fa_listen := False\<rparr>) d' =
          Inr (None, fa\<lparr>fa_cfg := cfg, fa_listen := False\<rparr>))
    else TCPOverIPv4Adapter_unwrap_tcp_in_ip gni gai fa d = Inr (None, fa)"
proof -
  let ?fa = "fa\<lparr>fa_cfg := cfg, fa_listen := False\<rparr>"
  have "TCPOverIPv4Adapter_target gni gai fa d seg = Inr ?fa"
    using assms(5-8) by (simp add: TCPOverIPv4Adapter_target_def FdAdapterBase_config_def
        FdAdapterBase_config_mut_def FdAdapterBase_set_listening_def)
  then have "TCPOverIPv4Adapter_unwrap_tcp_in_ip gni gai fa d =
      Inr (if th_syn (ts_header seg) \<and> \<not> th_rst (ts_header seg) then (Some seg, ?fa) else (None, fa))"
    using assms(1-5,9)
    by (simp add: TCPOverIPv4Adapter_unwrap_tcp_in_ip_def TCPOverIPv4Adapter_for_us_def adapter_addresses_def
        FdAdapterBase_config_def FdAdapterBase_listening_def BufferList_to_Buffer_def)
  moreover have "TCPOverIPv4Adapter_unwrap_tcp_in_ip gni gai ?fa d' = Inr (None, ?fa)"
    if "ip_src (dg_header d') \<noteq> ip_src (dg_header d) \<or> ip_dst (dg_header d') \<noteq> ip_dst (dg_header d)" for d'
    using that assms(9)
    by (auto simp: TCPOverIPv4Adapter_unwrap_tcp_in_ip_def TCPOverIPv4Adapter_for_us_def adapter_addresses_def
        FdAdapterBase_config_def FdAdapterBase_listening_def)
  ultimately show ?thesis by auto
qed

theorem adapter_listens_witness:
  "\<exists>d seg. TCPOverIPv4Adapter_unwrap_tcp_in_ip sample_gni sample_gai
      \<lparr>fa_cfg = sample_config 0x0a000002 0, fa_listen = True\<rparr> d =
    Inr (Some seg, sample_adapter 0x0a000002 0x0a000001)"
proof -
  let ?fa = "\<lparr>fa_cfg = sample_config 0x0a000002 0, fa_listen = True\<rparr>"
  let ?syn = "TCPSegment_default\<lparr>ts_header := TCPHeader_default\<lparr>th_syn := True\<rparr>\<rparr>"
  have ad: "adapter_addresses sample_gni (fa_cfg (sample_adapter 0x0a000001 0x0a000002)) 0x0a000001 1 0x0a000002 2"
    using sample_addresses by (simp add: sample_adapter_def)
  have fits: "segment_fits ?syn" using sample_fits by (simp add: segment_fits_def TCPSegment_default_def)
  from wrap_delivers [OF ad fits] obtain d :: ipv4_datagram and buf seg cksum where d: "dg_payload d = [buf]" "ip_src (dg_header d) = 0x0a000001"
    "ip_dst (dg_header d) = 0x0a000002" "ip_proto (dg_header d) = IPv4Header_PROTO_TCP"
    "TCPSegment_parse TCPSegment_default buf (IPv4Header_pseudo_cksum (dg_header d)) = (seg, NoError)"
    "ts_header seg = (ts_header ?syn)\<lparr>th_sport := 1, th_dport := 2, th_cksum := cksum\<rparr>"
    by blast
  have seg: "th_sport (ts_header seg) = 1" "th_dport (ts_header seg) = 2" "th_syn (ts_header seg)"
    "\<not> th_rst (ts_header seg)" using d(6) by (simp_all add: TCPHeader_default_def)
  have "Address_of_ip sample_gai (inet_ntoa ip) p = Inr (address_of_ipv4 ip)" if "ip = 0x0a000001 \<or> ip = 0x0a000002" for ip p
    using that
    by (auto simp: Address_of_ip_def Address_resolve_def sample_gai_def inet_ntoa_inject
        Address_of_sockaddr_def address_of_ipv4_def sizeof_sockaddr_storage_def)
  note addr = this [of "0x0a000002" 2] this [of "0x0a000001" 1]
  have port: "Address_port sample_gni (fc_source (fa_cfg ?fa)) = Inr 2"
    using sample_addresses(2) by (simp add: adapter_addresses_def sample_config_def)
  from adapter_listens [of ?fa d buf seg sample_gni sample_gai "address_of_ipv4 0x0a000002"
      "address_of_ipv4 0x0a000001" "sample_config 0x0a000002 0x0a000001"]
  have "TCPOverIPv4Adapter_unwrap_tcp_in_ip sample_gni sample_gai ?fa d =
      Inr (Some seg, ?fa\<lparr>fa_cfg := sample_config 0x0a000002 0x0a000001, fa_listen := False\<rparr>)"
    using d(1-5) seg addr port sample_addresses(2) by (simp add: sample_config_def)
  then show ?thesis by (auto simp: sample_adapter_def)
qed

text \<open>
  Losses. Around a TUN adapter with loss rates of zero the lossy adapter reads and writes exactly
  as the adapter does; with other rates a segment read is the adapter's or is missing, and the adapter's
  own state moves on in the same way.
\<close>

theorem lossy_adapter_transparent:
  assumes "TCPOverIPv4OverTunFdAdapter_read gni gai (la_adapter la) data = Inr (s, fa)"
    and "TCPOverIPv4OverTunFdAdapter_write gni (la_adapter la) seg = Inr (seg', out)"
  shows "\<exists>s' la' seg'' out' la''.
    LossyFdAdapter_read rng FdAdapterBase_config (TCPOverIPv4OverTunFdAdapter_read gni gai) la data = Inr (s', la') \<and>
    LossyFdAdapter_write rng FdAdapterBase_config (TCPOverIPv4OverTunFdAdapter_write gni) la seg = Inr (seg'', out', la'') \<and>
    la_adapter la' = fa \<and> la_adapter la'' = la_adapter la \<and>
    (s' = s \<or> s' = None \<and> fc_loss_rate_dn (fa_cfg (la_adapter la)) \<noteq> 0) \<and>
    (seg'' = seg' \<and> out' = Some out \<or> seg'' = seg \<and> out' = None \<and> fc_loss_rate_up (fa_cfg (la_adapter la)) \<noteq> 0)"
proof -
  from lossy_tun.lossy_read [OF assms(1), of rng] obtain s' la' where
    "LossyFdAdapter_read rng FdAdapterBase_config (TCPOverIPv4OverTunFdAdapter_read gni gai) la data = Inr (s', la')"
    "la_adapter la' = fa" "s' = s \<or> s' = None"
    "s' \<noteq> s \<longrightarrow> (ucast (fst (rng (la_rand la))) :: uint16) < fc_loss_rate_dn (fa_cfg (la_adapter la))"
    by (auto simp: FdAdapterBase_config_def)
  moreover from lossy_tun.lossy_write [OF assms(2), of rng] obtain seg'' out' la'' where
    "LossyFdAdapter_write rng FdAdapterBase_config (TCPOverIPv4OverTunFdAdapter_write gni) la seg = Inr (seg'', out', la'')"
    "la_adapter la'' = la_adapter la"
    "out' = Some out \<and> seg'' = seg' \<or> out' = None \<and> seg'' = seg \<and>
      (ucast (fst (rng (la_rand la))) :: uint16) < fc_loss_rate_up (fa_cfg (la_adapter la))"
    by (auto simp: FdAdapterBase_config_def)
  ultimately show ?thesis by (metis word_not_simps(1))
qed

theorem lossy_adapter_transparent_witness:
  "\<exists>data s' la'. LossyFdAdapter_read (\<lambda>g. (0, g)) FdAdapterBase_config
      (TCPOverIPv4OverTunFdAdapter_read sample_gni sample_gai)
      \<lparr>la_rand = (), la_adapter = sample_adapter 0x0a000002 0x0a000001\<rparr> data = Inr (Some s', la') \<and>
    la_adapter la' = sample_adapter 0x0a000002 0x0a000001"
proof -
  let ?a = "sample_adapter 0x0a000001 0x0a000002" and ?b = "sample_adapter 0x0a000002 0x0a000001"
  let ?la = "\<lparr>la_rand = (), la_adapter = ?b\<rparr>"
  have ad: "adapter_addresses sample_gni (fa_cfg ?a) 0x0a000001 1 0x0a000002 2"
    "adapter_addresses sample_gni (fa_cfg ?b) 0x0a000002 2 0x0a000001 1" "\<not> fa_listen ?b"
    using sample_addresses by (simp_all add: sample_adapter_def)
  from wrap_delivers [OF ad(1) sample_fits] obtain data d buf seg cksum where
    p: "IPv4Datagram_parse IPv4Datagram_default (Buffer_new (BufferList_concatenate data)) = (d, NoError)"
    and d: "dg_payload d = [buf]" "ip_src (dg_header d) = 0x0a000001" "ip_dst (dg_header d) = 0x0a000002"
      "ip_proto (dg_header d) = IPv4Header_PROTO_TCP"
      "TCPSegment_parse TCPSegment_default buf (IPv4Header_pseudo_cksum (dg_header d)) = (seg, NoError)"
    and seg: "ts_header seg = (ts_header TCPSegment_default)\<lparr>th_sport := 1, th_dport := 2, th_cksum := cksum\<rparr>"
    by blast
  have "TCPOverIPv4Adapter_unwrap_tcp_in_ip sample_gni sample_gai ?b d = Inr (Some seg, ?b)"
    by (rule unwrap_exact [OF ad(2,3)]) (use d seg in simp_all)
  with p have r: "TCPOverIPv4OverTunFdAdapter_read sample_gni sample_gai (la_adapter ?la)
      (BufferList_concatenate data) = Inr (Some seg, ?b)"
    by (simp add: TCPOverIPv4OverTunFdAdapter_read_def)
  obtain out where w: "TCPOverIPv4OverTunFdAdapter_write sample_gni (la_adapter ?la) TCPSegment_default =
      Inr (TCPSegment_set_ports TCPSegment_default 2 1, out)"
    using wrap_delivers [OF ad(2) sample_fits] by auto
  have "fc_loss_rate_dn (fa_cfg (la_adapter ?la)) = 0" by (simp add: sample_adapter_def sample_config_def)
  with lossy_adapter_transparent [OF r w, of "\<lambda>g. (0, g)"] show ?thesis by auto
qed

end
