(* ===== verification/Event_Loop.thy ===== *)
theory Event_Loop
  imports File_Descriptor "HOL-Library.Sublist"
begin

unbundle bit_operations_syntax

text \<open>
  The event loop (\<open>util/eventloop.cc\<close>, \<open>util/eventloop.hh\<close>): rules that wait for a
  descriptor to become readable or writable, and \<open>wait_next_event\<close>, which polls and calls back.

  The three functions of a rule are computations on the world, so that they may read, write and
  close descriptors; they do not change the list of rules. \<open>wait_next_event\<close> gives its result
  or exception together with the rules that are left and the world reached.
\<close>

section \<open>Rules\<close>

datatype direction = In | Out

definition POLLIN :: uint16 where "POLLIN = 1"
definition POLLOUT :: uint16 where "POLLOUT = 4"
definition POLLERR :: uint16 where "POLLERR = 8"
definition POLLHUP :: uint16 where "POLLHUP = 16"
definition POLLNVAL :: uint16 where "POLLNVAL = 32"

lemmas poll_bits = POLLIN_def POLLOUT_def POLLERR_def POLLHUP_def POLLNVAL_def

fun Direction_value :: "direction \<Rightarrow> uint16" where
  "Direction_value In = POLLIN"
| "Direction_value Out = POLLOUT"

record ('k, 'x) rule =
  ru_fd :: file_descriptor
  ru_direction :: direction
  ru_callback :: "(('k, 'x) world_scheme, unit) io"
  ru_interest :: "(('k, 'x) world_scheme, bool) io"
  ru_cancel :: "(('k, 'x) world_scheme, unit) io"

definition Rule_service_count :: "('k, 'x) rule \<Rightarrow> ('k, 'x) world_scheme \<Rightarrow> uint32" where
  "Rule_service_count r w =
     (if ru_direction r = In then FileDescriptor_read_count w (ru_fd r)
      else FileDescriptor_write_count w (ru_fd r))"

record ('k, 'x) event_loop =
  el_rules :: "('k, 'x) rule list"

definition EventLoop_add_rule ::
    "file_descriptor \<Rightarrow> direction \<Rightarrow> (('k, 'x) world_scheme, unit) io \<Rightarrow> (('k, 'x) world_scheme, bool) io \<Rightarrow> (('k, 'x) world_scheme, unit) io \<Rightarrow>
     ('k, 'x) event_loop \<Rightarrow> ('k, 'x) world_scheme \<Rightarrow> ('k, 'x) event_loop \<times> ('k, 'x) world_scheme" where
  "EventLoop_add_rule fd direction callback interest cancel el w =
     (let (fd', w) = FileDescriptor_duplicate fd w
      in (el\<lparr>el_rules := el_rules el @
              [\<lparr>ru_fd = fd', ru_direction = direction, ru_callback = callback, ru_interest = interest,
                ru_cancel = cancel\<rparr>]\<rparr>, w))"

section \<open>Waiting\<close>

datatype event_loop_result = Success | Timeout | Exit

text \<open>\<open>this_rule.cancel(); it = _rules.erase(it)\<close>: the handle of the rule goes with it.\<close>

definition EventLoop_erase :: "('k, 'z) os_scheme \<Rightarrow> ('k, 'x) rule \<Rightarrow> (('k, 'x) world_scheme, unit) io" where
  "EventLoop_erase sys r = bindIO (ru_cancel r) (\<lambda>_. modifyIO (FileDescriptor_destroy sys (ru_fd r)))"

definition pollfd_for :: "('k, 'x) world_scheme \<Rightarrow> ('k, 'x) rule \<Rightarrow> bool \<Rightarrow> pollfd" where
  "pollfd_for w r interested =
     \<lparr>pf_fd = FileDescriptor_fd_num w (ru_fd r),
      pf_events = (if interested then Direction_value (ru_direction r) else 0), pf_revents = 0\<rparr>"

text \<open>The first loop: the structures for \<open>poll\<close>, and whether there is something to poll.\<close>

fun EventLoop_setup ::
    "('k, 'z) os_scheme \<Rightarrow> ('k, 'x) rule list \<Rightarrow> ('k, 'x) world_scheme \<Rightarrow> (pollfd list \<times> bool) result \<times> ('k, 'x) rule list \<times> ('k, 'x) world_scheme" where
  "EventLoop_setup sys [] w = (Inr ([], False), [], w)"
| "EventLoop_setup sys (r # rs) w =
     (if ru_direction r = In \<and> FileDescriptor_eof w (ru_fd r) then
        case EventLoop_erase sys r w of
          (Inl e, w) \<Rightarrow> (Inl e, r # rs, w)
        | (Inr _, w) \<Rightarrow> EventLoop_setup sys rs w
      else if FileDescriptor_closed w (ru_fd r) then
        case EventLoop_erase sys r w of
          (Inl e, w) \<Rightarrow> (Inl e, r # rs, w)
        | (Inr _, w) \<Rightarrow> EventLoop_setup sys rs w
      else
        case ru_interest r w of
          (Inl e, w) \<Rightarrow> (Inl e, r # rs, w)
        | (Inr interested, w) \<Rightarrow>
            let p = pollfd_for w r interested;
                (res, rs, w) = EventLoop_setup sys rs w
            in (bindR res (\<lambda>(ps, something_to_poll). Inr (p # ps, interested \<or> something_to_poll)), r # rs, w))"

definition poll_ready :: "pollfd \<Rightarrow> bool" where
  "poll_ready p \<longleftrightarrow> pf_revents p AND pf_events p \<noteq> 0"

definition poll_error :: "pollfd \<Rightarrow> bool" where
  "poll_error p \<longleftrightarrow> pf_revents p AND (POLLERR OR POLLNVAL) \<noteq> 0"

definition poll_hup :: "pollfd \<Rightarrow> bool" where
  "poll_hup p \<longleftrightarrow> pf_revents p AND POLLHUP \<noteq> 0"

text \<open>Calling back, with the check for a busy wait.\<close>

definition EventLoop_serve :: "('k, 'x) rule \<Rightarrow> (('k, 'x) world_scheme, unit) io" where
  "EventLoop_serve r w =
     (let count_before = Rule_service_count r w
      in bindIO (ru_callback r) (\<lambda>_ w.
           if count_before = Rule_service_count r w then
             bindIO (ru_interest r) (\<lambda>interested. if interested then throwIO RuntimeError else returnIO ()) w
           else (Inr (), w)) w)"

text \<open>The second loop. \<open>pollfds[idx]\<close> is read for every rule that is left.\<close>

fun EventLoop_results ::
    "('k, 'z) os_scheme \<Rightarrow> ('k, 'x) rule list \<Rightarrow> pollfd list \<Rightarrow> ('k, 'x) world_scheme \<Rightarrow> unit result \<times> ('k, 'x) rule list \<times> ('k, 'x) world_scheme" where
  "EventLoop_results sys [] ps w = (Inr (), [], w)"
| "EventLoop_results sys (r # rs) [] w = (Inl UndefinedBehaviour, r # rs, w)"
| "EventLoop_results sys (r # rs) (p # ps) w =
     (if poll_error p then (Inl RuntimeError, r # rs, w)
      else if poll_hup p \<and> pf_events p \<noteq> 0 \<and> \<not> poll_ready p then
        case EventLoop_erase sys r w of
          (Inl e, w) \<Rightarrow> (Inl e, r # rs, w)
        | (Inr _, w) \<Rightarrow> EventLoop_results sys rs ps w
      else
        case (if poll_ready p then EventLoop_serve r else returnIO ()) w of
          (Inl e, w) \<Rightarrow> (Inl e, r # rs, w)
        | (Inr _, w) \<Rightarrow>
            let (res, rs, w) = EventLoop_results sys rs ps w in (res, r # rs, w))"

definition EINTR :: int where "EINTR = 4"

text \<open>What \<open>poll\<close> reports is written into the structures it was given.\<close>

definition set_revents :: "(nat \<Rightarrow> uint16) \<Rightarrow> pollfd list \<Rightarrow> pollfd list" where
  "set_revents f ps = map2 (\<lambda>i p. p\<lparr>pf_revents := f i\<rparr>) [0..<length ps] ps"

definition EventLoop_wait_next_event ::
    "('k, 'z) os_scheme \<Rightarrow> int \<Rightarrow> ('k, 'x) event_loop \<Rightarrow> ('k, 'x) world_scheme \<Rightarrow>
     event_loop_result result \<times> ('k, 'x) event_loop \<times> ('k, 'x) world_scheme" where
  "EventLoop_wait_next_event sys timeout_ms el w =
     (let (res, rs, w) = EventLoop_setup sys (el_rules el) w; el = el\<lparr>el_rules := rs\<rparr>
      in case res of
           Inl e \<Rightarrow> (Inl e, el, w)
         | Inr (pollfds, something_to_poll) \<Rightarrow>
             if \<not> something_to_poll then (Inr Exit, el, w)
             else
               let ((ret, errno, revents), k) = os_poll sys pollfds timeout_ms (wd_kernel w);
                   w = w\<lparr>wd_kernel := k\<rparr>;
                   results =
                     (let (res, rs, w) = EventLoop_results sys rs (set_revents revents pollfds) w
                      in (bindR res (\<lambda>_. Inr Success), el\<lparr>el_rules := rs\<rparr>, w))
               in case SystemCall ''poll'' (to_int ret) errno 0 of
                    Inr n \<Rightarrow> if n = 0 then (Inr Timeout, el, w) else results
                  | Inl (TaggedError System_category attempt code) \<Rightarrow>
                      if code = EINTR then (Inr Exit, el, w) else results
                  | Inl e \<Rightarrow> (Inl e, el, w))"

section \<open>The contract of the rules\<close>

text \<open>
  What the documentation asks of a rule, on the worlds of an invariant \<open>I\<close>: its functions return,
  and the callback reads or writes the descriptor or ends the interest.
\<close>

definition rule_contract :: "(('k, 'x) world_scheme \<Rightarrow> bool) \<Rightarrow> ('k, 'x) rule \<Rightarrow> bool" where
  "rule_contract I r \<longleftrightarrow>
     (\<forall>w. I w \<longrightarrow> (\<exists>w'. ru_callback r w = (Inr (), w') \<and> I w' \<and>
        (Rule_service_count r w' \<noteq> Rule_service_count r w \<or> (\<exists>w''. ru_interest r w' = (Inr False, w''))))) \<and>
     (\<forall>w. I w \<longrightarrow> (\<exists>b w'. ru_interest r w = (Inr b, w') \<and> I w')) \<and>
     (\<forall>w. I w \<longrightarrow> (\<exists>w'. ru_cancel r w = (Inr (), w') \<and> I w'))"

text \<open>The invariant survives what the loop itself does: giving up handles and polling.\<close>

definition loop_contract :: "('k, 'z) os_scheme \<Rightarrow> (('k, 'x) world_scheme \<Rightarrow> bool) \<Rightarrow> bool" where
  "loop_contract sys I \<longleftrightarrow>
     (\<forall>h w. I w \<longrightarrow> I (FileDescriptor_destroy sys h w)) \<and>
     (\<forall>ps t w. I w \<longrightarrow> I (w\<lparr>wd_kernel := snd (os_poll sys ps t (wd_kernel w))\<rparr>))"

lemma wait_polled:
  assumes "EventLoop_setup sys (el_rules el) w = (Inr (ps, True), rs, w1)"
    and "os_poll sys ps timeout_ms (wd_kernel w1) = ((ret, errno, revents), k)"
    and "EventLoop_results sys rs (set_revents revents ps) (w1\<lparr>wd_kernel := k\<rparr>) = (res, rs', w2)"
  shows "EventLoop_wait_next_event sys timeout_ms el w =
    (if to_int ret = 0 then (Inr Timeout, el\<lparr>el_rules := rs\<rparr>, w1\<lparr>wd_kernel := k\<rparr>)
     else if to_int ret < 0 \<and> errno = EINTR then (Inr Exit, el\<lparr>el_rules := rs\<rparr>, w1\<lparr>wd_kernel := k\<rparr>)
     else (bindR res (\<lambda>_. Inr Success), el\<lparr>el_rules := rs'\<rparr>, w2))"
  using assms by (simp add: EventLoop_wait_next_event_def Let_def SystemCall_def unix_error_def EINTR_def)

lemma wait_unpolled:
  assumes "EventLoop_setup sys (el_rules el) w = (sr, rs, w1)" "\<nexists>ps. sr = Inr (ps, True)"
  shows "EventLoop_wait_next_event sys timeout_ms el w = (bindR sr (\<lambda>_. Inr Exit), el\<lparr>el_rules := rs\<rparr>, w1)"
proof (cases sr)
  case (Inr p)
  with assms(2) obtain ps where "sr = Inr (ps, False)" by (cases p) auto
  with assms(1) show ?thesis by (simp add: EventLoop_wait_next_event_def)
qed (use assms(1) in \<open>simp add: EventLoop_wait_next_event_def\<close>)

lemma subseq_subset: "subseq xs ys \<Longrightarrow> set xs \<subseteq> set ys"
  by (induction rule: list_emb.induct) auto

lemma serve_ok:
  assumes "rule_contract I r" "I w"
  obtains w' where "EventLoop_serve r w = (Inr (), w')" "I w'"
proof -
  from assms obtain w1 where w1: "ru_callback r w = (Inr (), w1)" "I w1"
    "Rule_service_count r w1 \<noteq> Rule_service_count r w \<or> (\<exists>w''. ru_interest r w1 = (Inr False, w''))"
    unfolding rule_contract_def by blast
  moreover from assms(1) w1(2) obtain b w2 where "ru_interest r w1 = (Inr b, w2)" "I w2"
    unfolding rule_contract_def by blast
  ultimately show ?thesis
    using that by (cases "Rule_service_count r w1 = Rule_service_count r w") (auto simp: EventLoop_serve_def returnIO_def)
qed

lemma erase_ok:
  assumes "rule_contract I r" "loop_contract sys I" "I w"
  obtains w' where "EventLoop_erase sys r w = (Inr (), w')" "I w'"
proof -
  from assms obtain w1 where "ru_cancel r w = (Inr (), w1)" "I w1" unfolding rule_contract_def by blast
  with assms(2) that show ?thesis by (auto simp: EventLoop_erase_def modifyIO_def loop_contract_def)
qed

lemma setup_ok:
  assumes "loop_contract sys I"
  shows "\<forall>r\<in>set rs. rule_contract I r \<Longrightarrow> I w \<Longrightarrow>
    \<exists>ps b rs' w'. EventLoop_setup sys rs w = (Inr (ps, b), rs', w') \<and> I w' \<and> subseq rs' rs \<and> length ps = length rs'"
proof (induction rs arbitrary: w)
  case (Cons r rs)
  then have r: "rule_contract I r" and rs: "\<forall>r\<in>set rs. rule_contract I r" by simp_all
  from r \<open>I w\<close> obtain i w1 where i: "ru_interest r w = (Inr i, w1)" "I w1" unfolding rule_contract_def by blast
  from erase_ok [OF r assms \<open>I w\<close>] obtain w2 where e: "EventLoop_erase sys r w = (Inr (), w2)" "I w2" .
  from Cons.IH [OF rs i(2)] Cons.IH [OF rs e(2)] i(1) e(1) show ?case
    by (auto intro: list_emb_Cons)
qed (auto intro: exI [of _ False])

lemma results_ok:
  assumes "loop_contract sys I"
  shows "\<forall>r\<in>set rs. rule_contract I r \<Longrightarrow> I w \<Longrightarrow> length ps = length rs \<Longrightarrow>
    \<exists>rs' w'. EventLoop_results sys rs ps w =
      (if \<exists>p\<in>set ps. poll_error p then Inl RuntimeError else Inr (), rs', w') \<and> I w' \<and> subseq rs' rs"
proof (induction rs arbitrary: ps w)
  case (Cons r rs)
  then obtain p qs where ps: "ps = p # qs" by (cases ps) auto
  from Cons.prems have r: "rule_contract I r" and rs: "\<forall>r\<in>set rs. rule_contract I r" by simp_all
  from Cons.prems ps have qs: "length qs = length rs" by simp
  from erase_ok [OF r assms \<open>I w\<close>] obtain w2 where e: "EventLoop_erase sys r w = (Inr (), w2)" "I w2" .
  from serve_ok [OF r \<open>I w\<close>] obtain w0 where "EventLoop_serve r w = (Inr (), w0)" "I w0" .
  with \<open>I w\<close> obtain w1 where s: "(if poll_ready p then EventLoop_serve r else returnIO ()) w = (Inr (), w1)" "I w1"
    by (cases "poll_ready p") (auto simp: returnIO_def)
  show ?case
  proof (cases "poll_error p")
    case True
    with Cons.prems(2) show ?thesis by (simp add: ps)
  next
    case False
    with Cons.IH [OF rs e(2) qs] Cons.IH [OF rs s(2) qs] e(1) s(1) show ?thesis
      by (auto simp: ps intro: list_emb_Cons)
  qed
qed simp

lemma length_set_revents: "length (set_revents f ps) = length ps"
  by (simp add: set_revents_def)

lemma set_revents_error:
  "(\<exists>p\<in>set (set_revents f ps). poll_error p) \<longleftrightarrow> (\<exists>i<length ps. f i AND (POLLERR OR POLLNVAL) \<noteq> 0)"
proof -
  have "set_revents f ps = map (\<lambda>i. (ps ! i)\<lparr>pf_revents := f i\<rparr>) [0..<length ps]"
    by (rule nth_equalityI) (simp_all add: set_revents_def)
  then show ?thesis by (auto simp: poll_error_def)
qed

text \<open>
  C36: the loop keeps its promise. When the rules keep their contract, \<open>wait_next_event\<close> gets
  past its first loop and has exactly these outcomes: \<open>Exit\<close> with nothing to wait for or when a
  signal interrupts \<open>poll\<close>, \<open>Timeout\<close> when \<open>poll\<close> counts nothing, a runtime error exactly when
  \<open>poll\<close> flags \<open>POLLERR\<close> or \<open>POLLNVAL\<close> for one of the descriptors, and \<open>Success\<close>
  otherwise. No busy wait is reported and no element behind the polled structures is read. In every
  case, the exception included, the rules that are left are rules it had, in their order.
\<close>

theorem event_loop_returns:
  assumes "\<forall>r\<in>set (el_rules el). rule_contract I r" "loop_contract sys I" "I w"
  shows "\<exists>ps something_to_poll rs w1 ret errno revents k el' w'.
    EventLoop_setup sys (el_rules el) w = (Inr (ps, something_to_poll), rs, w1) \<and>
    os_poll sys ps timeout_ms (wd_kernel w1) = ((ret, errno, revents), k) \<and>
    EventLoop_wait_next_event sys timeout_ms el w =
      (if \<not> something_to_poll then Inr Exit
       else if to_int ret = 0 then Inr Timeout
       else if to_int ret < 0 \<and> errno = EINTR then Inr Exit
       else if \<exists>i<length ps. revents i AND (POLLERR OR POLLNVAL) \<noteq> 0 then Inl RuntimeError
       else Inr Success, el', w') \<and>
    I w' \<and> subseq (el_rules el') (el_rules el)"
proof -
  from setup_ok [OF assms(2,1,3)] obtain ps b rs w1 where
    s: "EventLoop_setup sys (el_rules el) w = (Inr (ps, b), rs, w1)" "I w1" "subseq rs (el_rules el)" "length ps = length rs"
    by blast
  obtain ret errno revents k where p: "os_poll sys ps timeout_ms (wd_kernel w1) = ((ret, errno, revents), k)"
    by (metis prod.exhaust)
  have w2: "I (w1\<lparr>wd_kernel := k\<rparr>)"
    using assms(2) s(2) p unfolding loop_contract_def by (metis snd_conv)
  have "\<forall>r\<in>set rs. rule_contract I r"
    using assms(1) subseq_subset [OF s(3)] by blast
  then obtain rs' w3 where
    r: "EventLoop_results sys rs (set_revents revents ps) (w1\<lparr>wd_kernel := k\<rparr>) =
      (if \<exists>i<length ps. revents i AND (POLLERR OR POLLNVAL) \<noteq> 0 then Inl RuntimeError else Inr (), rs', w3)"
      "I w3" "subseq rs' rs"
    using results_ok [OF assms(2) _ w2, of rs "set_revents revents ps"] s(4)
    by (simp only: set_revents_error length_set_revents) blast
  have "subseq rs' (el_rules el)" using r(3) s(3) by (rule subseq_order.trans)
  moreover have "EventLoop_wait_next_event sys timeout_ms el w = (Inr Exit, el\<lparr>el_rules := rs\<rparr>, w1)" if "\<not> b"
    using wait_unpolled [OF s(1)] that by simp
  ultimately show ?thesis
    using wait_polled [OF _ p r(1)] s(1-3) r(2) w2 p by (cases b) auto
qed

text \<open>A rule that reads its descriptor keeps the contract.\<close>

definition sample_rule :: "(bytes, unit) rule" where
  "sample_rule = \<lparr>ru_fd = 0, ru_direction = In,
     ru_callback = bindIO (FileDescriptor_read sample_os 0 10) (\<lambda>_. returnIO ()),
     ru_interest = returnIO True, ru_cancel = returnIO ()\<rparr>"

lemma sample_rule_contract: "rule_contract (\<lambda>_. True) sample_rule"
proof -
  have r: "FileDescriptor_read sample_os 0 10 w = (Inr [], w\<lparr>wd_kernel := wd_kernel w, wd_fds := (wd_fds w)(0 := (wd_fds w 0)
      \<lparr>fw_eof := True, fw_read_count := fw_read_count (wd_fds w 0) + 1\<rparr>)\<rparr>)" for w
    using file_descriptor_reads [of sample_os w 0 10 "[]"] by (simp add: sample_os_def)
  show ?thesis
    by (auto simp: rule_contract_def sample_rule_def bindIO_def r returnIO_def Rule_service_count_def
        FileDescriptor_read_count_def intro: exI [of _ True])
qed

lemma sample_rule_setup:
  "EventLoop_setup sys [sample_rule] (sample_world []) =
    (Inr ([pollfd_for (sample_world []) sample_rule True], True), [sample_rule], sample_world [])"
  by (simp add: sample_rule_def sample_world_def returnIO_def FileDescriptor_eof_def FileDescriptor_closed_def)

theorem event_loop_returns_witness:
  "fst (EventLoop_wait_next_event (sample_os\<lparr>os_poll := \<lambda>ps t k. ((1, 0, \<lambda>_. POLLIN), k)\<rparr>) 0
      \<lparr>el_rules = [sample_rule]\<rparr> (sample_world [])) = Inr Success \<and>
   fst (EventLoop_wait_next_event (sample_os\<lparr>os_poll := \<lambda>ps t k. ((1, 0, \<lambda>_. POLLNVAL), k)\<rparr>) 0
      \<lparr>el_rules = [sample_rule]\<rparr> (sample_world [])) = Inl RuntimeError"
proof -
  let ?os = "\<lambda>flags. sample_os\<lparr>os_poll := \<lambda>ps t k. ((1, 0, \<lambda>_. flags), k)\<rparr>"
  have "fst (EventLoop_wait_next_event (?os flags) 0 \<lparr>el_rules = [sample_rule]\<rparr> (sample_world [])) =
      (if flags AND (POLLERR OR POLLNVAL) \<noteq> 0 then Inl RuntimeError else Inr Success)" for flags
    using event_loop_returns [of "\<lparr>el_rules = [sample_rule]\<rparr>" "\<lambda>_. True" "?os flags" "sample_world []" 0]
      sample_rule_contract
    by (auto simp: loop_contract_def sample_rule_setup to_int_def simp del: EventLoop_setup.simps)
  from this [of POLLIN] this [of POLLNVAL] show ?thesis by (simp add: poll_bits)
qed

text \<open>
  C37: errors of \<open>poll\<close>. An interruption by a signal ends the wait with \<open>Exit\<close>. Any other
  failure of \<open>poll\<close> is caught and forgotten: with nothing reported, the result is
  \<open>Success\<close>, although no callback was called.
\<close>

theorem event_loop_ignores_poll_failure:
  assumes "EventLoop_setup sys (el_rules el) w = (Inr (ps, True), rs, w1)" "length ps = length rs"
    and "os_poll sys ps timeout_ms (wd_kernel w1) = ((- 1, errno, \<lambda>_. 0), k)"
  shows "EventLoop_wait_next_event sys timeout_ms el w =
    (Inr (if errno = EINTR then Exit else Success), el\<lparr>el_rules := rs\<rparr>, w1\<lparr>wd_kernel := k\<rparr>)"
proof -
  have "EventLoop_results sys rs qs w2 = (Inr (), rs, w2)"
    if "length qs = length rs" "\<forall>p\<in>set qs. pf_revents p = 0" for qs w2
    using that
    by (induction sys rs qs w2 rule: EventLoop_results.induct)
       (simp_all add: poll_error_def poll_hup_def poll_ready_def returnIO_def)
  moreover have "length (set_revents (\<lambda>_. 0) ps) = length rs" "\<forall>p\<in>set (set_revents (\<lambda>_. 0) ps). pf_revents p = 0"
    using assms(2) by (auto simp: set_revents_def)
  ultimately have "EventLoop_results sys rs (set_revents (\<lambda>_. 0) ps) (w1\<lparr>wd_kernel := k\<rparr>) = (Inr (), rs, w1\<lparr>wd_kernel := k\<rparr>)"
    by blast
  from wait_polled [OF assms(1,3) this] show ?thesis by (simp add: to_int_def)
qed

theorem event_loop_ignores_poll_failure_witness:
  "fst (EventLoop_wait_next_event (sample_os\<lparr>os_poll := \<lambda>ps t k. ((- 1, 12, \<lambda>_. 0), k)\<rparr>) 0
    \<lparr>el_rules = [sample_rule]\<rparr> (sample_world [])) = Inr Success"
proof -
  let ?os = "sample_os\<lparr>os_poll := \<lambda>ps t k. ((- 1, 12, \<lambda>_. 0), k)\<rparr>"
  from sample_rule_setup [of ?os] show ?thesis
    by (subst event_loop_ignores_poll_failure) (auto simp: EINTR_def)
qed

section \<open>Clients of the loop\<close>

text \<open>
  The interface between the loop and the program that adds the rules: an invariant that every
  function of a rule keeps, whether it returns or throws, and that survives giving up handles and
  polling, holds however often the loop is entered.
\<close>

locale event_loop_client =
  fixes sys :: "('k, 'z) os_scheme"
    and rules :: "('k, 'x) rule set"
    and I :: "('k, 'x) world_scheme \<Rightarrow> bool"
  assumes callback: "r \<in> rules \<Longrightarrow> I w \<Longrightarrow> I (snd (ru_callback r w))"
    and interest: "r \<in> rules \<Longrightarrow> I w \<Longrightarrow> I (snd (ru_interest r w))"
    and cancel: "r \<in> rules \<Longrightarrow> I w \<Longrightarrow> I (snd (ru_cancel r w))"
    and destroy: "I w \<Longrightarrow> I (FileDescriptor_destroy sys h w)"
    and poll: "I w \<Longrightarrow> I (w\<lparr>wd_kernel := snd (os_poll sys ps t (wd_kernel w))\<rparr>)"
begin

lemma erase_keeps: "r \<in> rules \<Longrightarrow> I w \<Longrightarrow> EventLoop_erase sys r w = (res, w') \<Longrightarrow> I w'"
  using cancel [of r w] destroy
  by (auto simp: EventLoop_erase_def bindIO_def modifyIO_def split: prod.splits sum.splits)

lemma serve_keeps: "r \<in> rules \<Longrightarrow> I w \<Longrightarrow> EventLoop_serve r w = (res, w') \<Longrightarrow> I w'"
  using callback [of r w] interest [of r "snd (ru_callback r w)"]
  by (auto simp: EventLoop_serve_def bindIO_def throwIO_def returnIO_def split: prod.splits sum.splits if_splits)

lemma setup_keeps:
  "set rs \<subseteq> rules \<Longrightarrow> I w \<Longrightarrow> EventLoop_setup sys rs w = (res, rs', w') \<Longrightarrow> set rs' \<subseteq> rules \<and> I w'"
proof (induction rs arbitrary: w res rs' w')
  case (Cons r rs)
  obtain e w1 where e: "EventLoop_erase sys r w = (e, w1)" by fastforce
  obtain i w2 where i: "ru_interest r w = (i, w2)" by fastforce
  from Cons.prems(1,2) e have w1: "I w1" by (auto intro: erase_keeps)
  from Cons.prems(1,2) i have w2: "I w2" using interest [of r w] by auto
  obtain res2 rs2 w3 where s: "EventLoop_setup sys rs w2 = (res2, rs2, w3)" by (metis prod.exhaust)
  from Cons.IH [OF _ w1] Cons.IH [OF _ w2 s] Cons.prems(1,3) e i s w1 w2 show ?case
    by (cases e; cases i) (auto split: if_splits)
qed simp

lemma results_keeps:
  "set rs \<subseteq> rules \<Longrightarrow> I w \<Longrightarrow> EventLoop_results sys rs ps w = (res, rs', w') \<Longrightarrow> set rs' \<subseteq> rules \<and> I w'"
proof (induction rs arbitrary: ps w res rs' w')
  case (Cons r rs)
  show ?case
  proof (cases ps)
    case Nil
    with Cons.prems show ?thesis by auto
  next
    case ps: (Cons p qs)
    obtain e w1 where e: "EventLoop_erase sys r w = (e, w1)" by fastforce
    obtain i w2 where i: "(if poll_ready p then EventLoop_serve r else returnIO ()) w = (i, w2)" by fastforce
    from Cons.prems(1,2) e have w1: "I w1" by (auto intro: erase_keeps)
    from Cons.prems(1,2) i have w2: "I w2"
      by (cases "poll_ready p") (auto simp: returnIO_def intro: serve_keeps)
    obtain res2 rs2 w3 where s: "EventLoop_results sys rs qs w2 = (res2, rs2, w3)" by (metis prod.exhaust)
    from Cons.IH [OF _ w1] Cons.IH [OF _ w2 s] Cons.prems e i s w1 w2 show ?thesis
      by (cases e; cases i) (auto simp: ps split: if_splits)
  qed
qed simp

lemma wait_keeps:
  assumes "set (el_rules el) \<subseteq> rules" "I w" "EventLoop_wait_next_event sys t el w = (res, el', w')"
  shows "set (el_rules el') \<subseteq> rules \<and> I w'"
proof -
  obtain sr rs w1 where s: "EventLoop_setup sys (el_rules el) w = (sr, rs, w1)" by (metis prod.exhaust)
  from setup_keeps [OF assms(1,2) s] have k: "set rs \<subseteq> rules" "I w1" by simp_all
  show ?thesis
  proof (cases "\<exists>ps. sr = Inr (ps, True)")
    case False
    with wait_unpolled [OF s False, of t] assms(3) k show ?thesis by auto
  next
    case True
    then obtain ps where ps: "EventLoop_setup sys (el_rules el) w = (Inr (ps, True), rs, w1)" using s by auto
    obtain ret errno revents kr where p: "os_poll sys ps t (wd_kernel w1) = ((ret, errno, revents), kr)"
      by (metis prod.exhaust)
    with poll [OF k(2), of ps t] have w2: "I (w1\<lparr>wd_kernel := kr\<rparr>)" by simp
    obtain rr rs' w3 where r: "EventLoop_results sys rs (set_revents revents ps) (w1\<lparr>wd_kernel := kr\<rparr>) = (rr, rs', w3)"
      by (metis prod.exhaust)
    from wait_polled [OF ps p r] assms(3) k(1) w2 results_keeps [OF k(1) w2 r] show ?thesis
      by (auto split: if_splits)
  qed
qed

end

end
