(* ===== verification/Byte_Stream.thy ===== *)
theory Byte_Stream
  imports Sponge_Prelude
begin

text \<open>
  The in-order byte stream of \<open>byte_stream.hh\<close> and \<open>byte_stream.cc\<close>: a bounded queue
  of octets with counters of everything ever written and read, an end-of-input flag and an error
  flag.
\<close>

section \<open>The contract of a bounded byte queue\<close>

text \<open>
  What the users of a stream rely on: a writer appends as much of its data as fits, a reader takes
  a prefix of the contents, and the capacity bounds what is held. \<open>stream_run\<close> performs a
  sequence of such calls and collects the bytes accepted and the bytes delivered.
\<close>

datatype stream_op = Put bytes | Get size_t

fun stream_run ::
  "('s \<Rightarrow> bytes \<Rightarrow> 's \<times> size_t) \<Rightarrow> ('s \<Rightarrow> size_t \<Rightarrow> 's \<times> bytes) \<Rightarrow> stream_op list \<Rightarrow> 's
   \<Rightarrow> 's \<times> bytes \<times> bytes" where
  "stream_run put get [] s = (s, [], [])"
| "stream_run put get (Put data # ops) s =
     (case put s data of (s1, n) \<Rightarrow>
      case stream_run put get ops s1 of (s2, acc, out) \<Rightarrow> (s2, take n data @ acc, out))"
| "stream_run put get (Get len # ops) s =
     (case get s len of (s1, d) \<Rightarrow>
      case stream_run put get ops s1 of (s2, acc, out) \<Rightarrow> (s2, acc, d @ out))"

locale fifo_stream =
  fixes put :: "'s \<Rightarrow> bytes \<Rightarrow> 's \<times> size_t"
    and get :: "'s \<Rightarrow> size_t \<Rightarrow> 's \<times> bytes"
    and contents :: "'s \<Rightarrow> bytes"
    and limit :: "'s \<Rightarrow> size_t"
    and invar :: "'s \<Rightarrow> bool"
  assumes bounded: "invar s \<Longrightarrow> length (contents s) \<le> limit s"
    and put_law: "invar s \<Longrightarrow> put s data = (s', n) \<Longrightarrow>
      n = min (length data) (limit s - length (contents s)) \<and>
      contents s' = contents s @ take n data \<and> limit s' = limit s \<and> invar s'"
    and get_law: "invar s \<Longrightarrow> get s len = (s', d) \<Longrightarrow>
      d = take len (contents s) \<and> contents s' = drop len (contents s) \<and>
      limit s' = limit s \<and> invar s'"
begin

lemma run_fifo:
  "invar s \<Longrightarrow> stream_run put get ops s = (s', acc, out) \<Longrightarrow>
   contents s @ acc = out @ contents s' \<and> limit s' = limit s \<and> invar s'"
proof (induction ops arbitrary: s acc out)
  case Nil
  then show ?case by simp
next
  case (Cons op ops)
  show ?case
  proof (cases op)
    case (Put data)
    obtain s1 n where p: "put s data = (s1, n)" by fastforce
    obtain acc1 where r: "stream_run put get ops s1 = (s', acc1, out)"
      and acc: "acc = take n data @ acc1"
      using Cons.prems(2) Put p by (auto split: prod.splits)
    from put_law [OF Cons.prems(1) p] Cons.IH [OF _ r] show ?thesis
      by (simp add: acc)
  next
    case (Get len)
    obtain s1 d where g: "get s len = (s1, d)" by fastforce
    obtain out1 where r: "stream_run put get ops s1 = (s', acc, out1)"
      and out: "out = d @ out1"
      using Cons.prems(2) Get g by (auto split: prod.splits)
    from get_law [OF Cons.prems(1) g] Cons.IH [OF _ r] show ?thesis
      by (simp add: out) (metis append.assoc append_take_drop_id)
  qed
qed

lemma run_from_empty:
  assumes "invar s" "contents s = []" "stream_run put get ops s = (s', acc, out)"
  shows "acc = out @ contents s' \<and> length (contents s') \<le> limit s"
  using run_fifo [OF assms(1,3)] assms(2) bounded [of s'] by simp

end

text \<open>A stream that also counts, modulo the width of \<open>size_t\<close>, what went through it.\<close>

locale counted_stream = fifo_stream +
  fixes put_count :: "'a \<Rightarrow> size_t" and get_count :: "'a \<Rightarrow> size_t"
  assumes put_counts: "invar s \<Longrightarrow> put s data = (s', n) \<Longrightarrow>
      put_count s' = add64 (put_count s) n \<and> get_count s' = get_count s"
    and get_counts: "invar s \<Longrightarrow> get s len = (s', d) \<Longrightarrow>
      put_count s' = put_count s \<and> get_count s' = add64 (get_count s) (length d)"
    and counts_fit: "invar s \<Longrightarrow> put_count s < 2 ^ 64 \<and> get_count s < 2 ^ 64"
begin

lemma run_counts:
  "invar s \<Longrightarrow> stream_run put get ops s = (s', acc, out) \<Longrightarrow>
   put_count s' = add64 (put_count s) (length acc) \<and>
   get_count s' = add64 (get_count s) (length out)"
proof (induction ops arbitrary: s acc out)
  case Nil
  then show ?case using counts_fit [of s] by (simp add: add64_zero_right)
next
  case (Cons op ops)
  show ?case
  proof (cases op)
    case (Put data)
    obtain s1 n where p: "put s data = (s1, n)" by fastforce
    obtain acc1 where r: "stream_run put get ops s1 = (s', acc1, out)"
      and acc: "acc = take n data @ acc1"
      using Cons.prems(2) Put p by (auto split: prod.splits)
    from put_law [OF Cons.prems(1) p] put_counts [OF Cons.prems(1) p] Cons.IH [OF _ r]
    show ?thesis by (simp add: acc add64_assoc min_absorb2)
  next
    case (Get len)
    obtain s1 d where g: "get s len = (s1, d)" by fastforce
    obtain out1 where r: "stream_run put get ops s1 = (s', acc, out1)"
      and out: "out = d @ out1"
      using Cons.prems(2) Get g by (auto split: prod.splits)
    from get_law [OF Cons.prems(1) g] get_counts [OF Cons.prems(1) g] Cons.IH [OF _ r]
    show ?thesis by (simp add: out add64_assoc)
  qed
qed

end

section \<open>State\<close>

record byte_stream =
  bs_buf :: bytes
  bs_cap :: size_t
  bs_eof :: bool
  bs_written :: size_t
  bs_read :: size_t
  bs_error :: bool

definition ByteStream_new :: "size_t \<Rightarrow> byte_stream" where
  "ByteStream_new capacity =
     \<lparr>bs_buf = [], bs_cap = capacity, bs_eof = False, bs_written = 0, bs_read = 0,
      bs_error = False\<rparr>"

section \<open>Operations\<close>

definition ByteStream_buffer_size :: "byte_stream \<Rightarrow> size_t" where
  "ByteStream_buffer_size s = length (bs_buf s)"

definition ByteStream_buffer_empty :: "byte_stream \<Rightarrow> bool" where
  "ByteStream_buffer_empty s \<longleftrightarrow> ByteStream_buffer_size s = 0"

definition ByteStream_remaining_capacity :: "byte_stream \<Rightarrow> size_t" where
  "ByteStream_remaining_capacity s =
     (if sub64 (bs_cap s) (ByteStream_buffer_size s) > 0
      then sub64 (bs_cap s) (ByteStream_buffer_size s) else 0)"

definition ByteStream_write :: "byte_stream \<Rightarrow> bytes \<Rightarrow> byte_stream \<times> size_t" where
  "ByteStream_write s data =
     (let bw = (if length data > ByteStream_remaining_capacity s
                then ByteStream_remaining_capacity s else length data)
      in (s\<lparr>bs_buf := bs_buf s @ take bw data, bs_written := add64 (bs_written s) bw\<rparr>, bw))"

definition ByteStream_peek_output :: "byte_stream \<Rightarrow> size_t \<Rightarrow> bytes" where
  "ByteStream_peek_output s len = take len (bs_buf s)"

definition ByteStream_pop_output :: "byte_stream \<Rightarrow> size_t \<Rightarrow> byte_stream" where
  "ByteStream_pop_output s len =
     s\<lparr>bs_buf := drop len (bs_buf s), bs_read := add64 (bs_read s) len\<rparr>"

definition ByteStream_read :: "byte_stream \<Rightarrow> size_t \<Rightarrow> byte_stream \<times> bytes" where
  "ByteStream_read s len =
     (let b = (if len > ByteStream_buffer_size s then ByteStream_buffer_size s else len);
          r = ByteStream_peek_output s b
      in (ByteStream_pop_output s b, r))"

definition ByteStream_end_input :: "byte_stream \<Rightarrow> byte_stream" where
  "ByteStream_end_input s = s\<lparr>bs_eof := True\<rparr>"

definition ByteStream_set_error :: "byte_stream \<Rightarrow> byte_stream" where
  "ByteStream_set_error s = s\<lparr>bs_error := True\<rparr>"

definition ByteStream_input_ended :: "byte_stream \<Rightarrow> bool" where
  "ByteStream_input_ended s = bs_eof s"

definition ByteStream_eof :: "byte_stream \<Rightarrow> bool" where
  "ByteStream_eof s \<longleftrightarrow> bs_eof s \<and> ByteStream_buffer_empty s"

definition ByteStream_bytes_written :: "byte_stream \<Rightarrow> size_t" where
  "ByteStream_bytes_written s = bs_written s"

definition ByteStream_bytes_read :: "byte_stream \<Rightarrow> size_t" where
  "ByteStream_bytes_read s = bs_read s"

lemmas ByteStream_accessors =
  ByteStream_buffer_size_def ByteStream_buffer_empty_def ByteStream_input_ended_def
  ByteStream_eof_def ByteStream_bytes_written_def ByteStream_bytes_read_def
  ByteStream_peek_output_def ByteStream_end_input_def ByteStream_set_error_def

section \<open>The representation invariant\<close>

text \<open>
  The buffer never exceeds the capacity and the two counters differ by what is buffered (modulo
  the width of \<open>size_t\<close>).
\<close>

definition bs_inv :: "byte_stream \<Rightarrow> bool" where
  "bs_inv s \<longleftrightarrow>
     bs_cap s < 2 ^ 64 \<and> length (bs_buf s) \<le> bs_cap s \<and> bs_read s < 2 ^ 64 \<and>
     bs_written s = add64 (bs_read s) (length (bs_buf s))"

lemma bs_inv_new: "capacity < 2 ^ 64 \<Longrightarrow> bs_inv (ByteStream_new capacity)"
  by (simp add: bs_inv_def ByteStream_new_def add64_def)

lemma remaining_capacity_exact:
  "bs_inv s \<Longrightarrow> ByteStream_remaining_capacity s = bs_cap s - length (bs_buf s)"
  by (simp add: bs_inv_def ByteStream_remaining_capacity_def ByteStream_buffer_size_def
      sub64_exact)

lemma write_exact:
  assumes "bs_inv s"
  shows "ByteStream_write s data =
    (let bw = min (length data) (bs_cap s - length (bs_buf s))
     in (s\<lparr>bs_buf := bs_buf s @ take bw data, bs_written := add64 (bs_written s) bw\<rparr>, bw))"
  using assms by (simp add: ByteStream_write_def remaining_capacity_exact min_def)

lemma bs_inv_write: "bs_inv s \<Longrightarrow> bs_inv (fst (ByteStream_write s data))"
  by (simp add: write_exact Let_def) (auto simp: bs_inv_def add64_assoc)

lemma bs_inv_pop:
  "bs_inv s \<Longrightarrow> len \<le> length (bs_buf s) \<Longrightarrow> bs_inv (ByteStream_pop_output s len)"
  by (auto simp: bs_inv_def ByteStream_pop_output_def add64_assoc)

lemma bs_inv_read: "bs_inv s \<Longrightarrow> bs_inv (fst (ByteStream_read s len))"
  by (simp add: ByteStream_read_def ByteStream_buffer_size_def Let_def bs_inv_pop)

lemma bs_inv_end_input: "bs_inv s \<Longrightarrow> bs_inv (ByteStream_end_input s)"
  by (simp add: bs_inv_def ByteStream_end_input_def)

lemma bs_inv_set_error: "bs_inv s \<Longrightarrow> bs_inv (ByteStream_set_error s)"
  by (simp add: bs_inv_def ByteStream_set_error_def)

lemma read_exact:
  "ByteStream_read s len =
     (s\<lparr>bs_buf := drop len (bs_buf s),
        bs_read := add64 (bs_read s) (min len (length (bs_buf s)))\<rparr>, take len (bs_buf s))"
  by (simp add: ByteStream_read_def ByteStream_buffer_size_def ByteStream_peek_output_def
      ByteStream_pop_output_def Let_def min_def)

section \<open>The stream keeps the contract\<close>

interpretation bs: counted_stream ByteStream_write ByteStream_read bs_buf bs_cap bs_inv
  bs_written bs_read
proof unfold_locales
  fix s s' data n len d
  assume inv: "bs_inv s"
  then show "length (bs_buf s) \<le> bs_cap s" by (simp add: bs_inv_def)
  from inv show "bs_written s < 2 ^ 64 \<and> bs_read s < 2 ^ 64" by (simp add: bs_inv_def)
  {
    assume w: "ByteStream_write s data = (s', n)"
    show "n = min (length data) (bs_cap s - length (bs_buf s)) \<and>
        bs_buf s' = bs_buf s @ take n data \<and> bs_cap s' = bs_cap s \<and> bs_inv s'"
      using w bs_inv_write [OF inv, of data] by (auto simp: write_exact [OF inv] Let_def)
    show "bs_written s' = add64 (bs_written s) n \<and> bs_read s' = bs_read s"
      using w by (auto simp: write_exact [OF inv] Let_def)
  }
  {
    assume r: "ByteStream_read s len = (s', d)"
    show "d = take len (bs_buf s) \<and> bs_buf s' = drop len (bs_buf s) \<and>
        bs_cap s' = bs_cap s \<and> bs_inv s'"
      using r bs_inv_read [OF inv, of len] by (auto simp: read_exact)
    show "bs_written s' = bs_written s \<and> bs_read s' = add64 (bs_read s) (length d)"
      using r by (auto simp: read_exact min.commute)
  }
qed

section \<open>Properties\<close>

text \<open>
  C11: the stream is a bounded FIFO. Starting from a fresh stream of any capacity, after any
  sequence of \<open>write\<close> and \<open>read\<close> calls the bytes accepted are exactly the bytes
  delivered followed by the bytes still buffered, the buffer fits in the capacity, and
  \<open>bytes_written\<close> and \<open>bytes_read\<close> count the accepted and the delivered bytes.
\<close>

theorem byte_stream_is_bounded_fifo:
  assumes "capacity < 2 ^ 64"
    and "stream_run ByteStream_write ByteStream_read ops (ByteStream_new capacity) = (s, acc, out)"
  shows "acc = out @ bs_buf s \<and> ByteStream_buffer_size s \<le> capacity \<and>
    ByteStream_bytes_written s = length acc mod 2 ^ 64 \<and>
    ByteStream_bytes_read s = length out mod 2 ^ 64"
proof -
  note inv = bs_inv_new [OF assms(1)]
  have "bs_buf (ByteStream_new capacity) = []" by (simp add: ByteStream_new_def)
  from bs.run_from_empty [OF inv this assms(2)] bs.run_counts [OF inv assms(2)]
  show ?thesis by (simp add: ByteStream_new_def ByteStream_accessors add64_def)
qed

lemma fifo_sample_run:
  "stream_run ByteStream_write ByteStream_read [Put [1, 2, 3], Get 1, Put [4, 5]]
     (ByteStream_new 3) =
   ((ByteStream_new 3)\<lparr>bs_buf := [2, 3, 4], bs_written := 4, bs_read := 1\<rparr>, [1, 2, 3, 4], [1])"
proof -
  have "ByteStream_write (ByteStream_new 3) [1, 2, 3] =
      ((ByteStream_new 3)\<lparr>bs_buf := [1, 2, 3], bs_written := 3\<rparr>, 3)"
    by (simp add: ByteStream_write_def ByteStream_new_def ByteStream_remaining_capacity_def
        ByteStream_buffer_size_def sub64_def add64_def)
  moreover have "ByteStream_read ((ByteStream_new 3)\<lparr>bs_buf := [1, 2, 3], bs_written := 3\<rparr>) 1 =
      ((ByteStream_new 3)\<lparr>bs_buf := [2, 3], bs_written := 3, bs_read := 1\<rparr>, [1])"
    by (simp add: read_exact ByteStream_new_def add64_def)
  moreover have "ByteStream_write
        ((ByteStream_new 3)\<lparr>bs_buf := [2, 3], bs_written := 3, bs_read := 1\<rparr>) [4, 5] =
      ((ByteStream_new 3)\<lparr>bs_buf := [2, 3, 4], bs_written := 4, bs_read := 1\<rparr>, 1)"
    by (simp add: ByteStream_write_def ByteStream_new_def ByteStream_remaining_capacity_def
        ByteStream_buffer_size_def sub64_def add64_def)
  ultimately show ?thesis by simp
qed

theorem byte_stream_is_bounded_fifo_witness:
  "[1, 2, 3, 4] = [1] @ bs_buf ((ByteStream_new 3)\<lparr>bs_buf := [2, 3, 4], bs_written := 4, bs_read := 1\<rparr>)
   \<and> ByteStream_buffer_size
       ((ByteStream_new 3)\<lparr>bs_buf := [2, 3, 4], bs_written := 4, bs_read := 1\<rparr>) \<le> 3"
  using byte_stream_is_bounded_fifo [OF _ fifo_sample_run] by simp

end
