(* ===== verification/Stream_Copy.thy ===== *)
theory Stream_Copy
  imports Event_Loop Sockets Byte_Stream
begin

text \<open>
  \<open>bidirectional_stream_copy\<close> (\<open>apps/bidirectional_stream_copy.cc\<close>): the program that
  connects a socket with the standard input and output by two byte streams and four rules of an
  event loop. The variables the rules capture extend the world.
\<close>

section \<open>The program\<close>

record 'k copy_world = "'k world" +
  cw_outbound :: byte_stream
  cw_inbound :: byte_stream
  cw_outbound_shutdown :: bool
  cw_inbound_shutdown :: bool

type_synonym 'k copy_rule = "('k, unit copy_world_ext) rule"

definition max_copy_length :: size_t where "max_copy_length = 65536"
definition buffer_size :: size_t where "buffer_size = 1048576"

definition outbound_do :: "(byte_stream \<Rightarrow> byte_stream) \<Rightarrow> ('k copy_world, unit) io" where
  "outbound_do f = modifyIO (\<lambda>w. w\<lparr>cw_outbound := f (cw_outbound w)\<rparr>)"

definition inbound_do :: "(byte_stream \<Rightarrow> byte_stream) \<Rightarrow> ('k copy_world, unit) io" where
  "inbound_do f = modifyIO (\<lambda>w. w\<lparr>cw_inbound := f (cw_inbound w)\<rparr>)"

text \<open>Rule 1: read from the standard input into the outbound stream.\<close>

definition copy_rule1 :: "('k, 'z) socket_os_scheme \<Rightarrow> file_descriptor \<Rightarrow> 'k copy_rule" where
  "copy_rule1 sys input = \<lparr>ru_fd = input, ru_direction = In,
     ru_callback = (\<lambda>w.
       bindIO (FileDescriptor_read sys input (ByteStream_remaining_capacity (cw_outbound w))) (\<lambda>data.
       bindIO (outbound_do (\<lambda>s. fst (ByteStream_write s data))) (\<lambda>_ w.
         if FileDescriptor_eof w input then outbound_do ByteStream_end_input w else (Inr (), w))) w),
     ru_interest = (\<lambda>w. (Inr (\<not> bs_error (cw_outbound w) \<and>
       ByteStream_remaining_capacity (cw_outbound w) > 0 \<and> \<not> bs_error (cw_inbound w)), w)),
     ru_cancel = outbound_do ByteStream_end_input\<rparr>"

text \<open>Rule 2: write from the outbound stream into the socket.\<close>

definition copy_rule2 :: "('k, 'z) socket_os_scheme \<Rightarrow> file_descriptor \<Rightarrow> 'k copy_rule" where
  "copy_rule2 sys socket = \<lparr>ru_fd = socket, ru_direction = Out,
     ru_callback = (\<lambda>w.
       let bytes_to_write = min max_copy_length (ByteStream_buffer_size (cw_outbound w))
       in bindIO (FileDescriptor_write_string sys socket (ByteStream_peek_output (cw_outbound w) bytes_to_write) False)
            (\<lambda>bytes_written.
              bindIO (outbound_do (\<lambda>s. ByteStream_pop_output s bytes_written)) (\<lambda>_ w.
                if ByteStream_eof (cw_outbound w) then
                  bindIO (Socket_shutdown sys socket SHUT_WR) (\<lambda>_.
                    modifyIO (\<lambda>w. w\<lparr>cw_outbound_shutdown := True\<rparr>)) w
                else (Inr (), w))) w),
     ru_interest = (\<lambda>w. (Inr (\<not> ByteStream_buffer_empty (cw_outbound w) \<or>
       ByteStream_eof (cw_outbound w) \<and> \<not> cw_outbound_shutdown w), w)),
     ru_cancel = outbound_do ByteStream_set_error\<rparr>"

text \<open>Rule 3: read from the socket into the inbound stream.\<close>

definition copy_rule3 :: "('k, 'z) socket_os_scheme \<Rightarrow> file_descriptor \<Rightarrow> 'k copy_rule" where
  "copy_rule3 sys socket = \<lparr>ru_fd = socket, ru_direction = In,
     ru_callback = (\<lambda>w.
       bindIO (FileDescriptor_read sys socket (ByteStream_remaining_capacity (cw_inbound w))) (\<lambda>data.
       bindIO (inbound_do (\<lambda>s. fst (ByteStream_write s data))) (\<lambda>_ w.
         if FileDescriptor_eof w socket then inbound_do ByteStream_end_input w else (Inr (), w))) w),
     ru_interest = (\<lambda>w. (Inr (\<not> bs_error (cw_inbound w) \<and>
       ByteStream_remaining_capacity (cw_inbound w) > 0 \<and> \<not> bs_error (cw_outbound w)), w)),
     ru_cancel = inbound_do ByteStream_end_input\<rparr>"

text \<open>Rule 4: write from the inbound stream to the standard output.\<close>

definition copy_rule4 :: "('k, 'z) socket_os_scheme \<Rightarrow> file_descriptor \<Rightarrow> 'k copy_rule" where
  "copy_rule4 sys output = \<lparr>ru_fd = output, ru_direction = Out,
     ru_callback = (\<lambda>w.
       let bytes_to_write = min max_copy_length (ByteStream_buffer_size (cw_inbound w))
       in bindIO (FileDescriptor_write_string sys output (ByteStream_peek_output (cw_inbound w) bytes_to_write) False)
            (\<lambda>bytes_written.
              bindIO (inbound_do (\<lambda>s. ByteStream_pop_output s bytes_written)) (\<lambda>_ w.
                if ByteStream_eof (cw_inbound w) then
                  bindIO (FileDescriptor_close sys output) (\<lambda>_.
                    modifyIO (\<lambda>w. w\<lparr>cw_inbound_shutdown := True\<rparr>)) w
                else (Inr (), w))) w),
     ru_interest = (\<lambda>w. (Inr (\<not> ByteStream_buffer_empty (cw_inbound w) \<or>
       ByteStream_eof (cw_inbound w) \<and> \<not> cw_inbound_shutdown w), w)),
     ru_cancel = inbound_do ByteStream_set_error\<rparr>"

text \<open>A rule is added by the arguments of \<open>add_rule\<close>, which duplicates the handle.\<close>

definition add_rule_of :: "('k, 'x) rule \<Rightarrow> ('k, 'x) event_loop \<times> ('k, 'x) world_scheme \<Rightarrow>
    ('k, 'x) event_loop \<times> ('k, 'x) world_scheme" where
  "add_rule_of r = (\<lambda>(el, w).
     EventLoop_add_rule (ru_fd r) (ru_direction r) (ru_callback r) (ru_interest r) (ru_cancel r) el w)"

definition copy_rules ::
    "('k, 'z) socket_os_scheme \<Rightarrow> file_descriptor \<Rightarrow> file_descriptor \<Rightarrow> file_descriptor \<Rightarrow> 'k copy_rule list" where
  "copy_rules sys input output socket =
     [copy_rule1 sys input, copy_rule2 sys socket, copy_rule3 sys socket, copy_rule4 sys output]"

text \<open>
  The loop until completion. It may wait for ever, so the number of rounds is bounded by an
  argument; \<open>None\<close> says that more are needed.
\<close>

fun copy_loop :: "('k, 'z) os_scheme \<Rightarrow> nat \<Rightarrow> ('k, 'x) event_loop \<Rightarrow> ('k, 'x) world_scheme \<Rightarrow>
    unit result option \<times> ('k, 'x) event_loop \<times> ('k, 'x) world_scheme" where
  "copy_loop sys 0 el w = (None, el, w)"
| "copy_loop sys (Suc n) el w =
     (case EventLoop_wait_next_event sys (- 1) el w of
        (Inl e, el, w) \<Rightarrow> (Some (Inl e), el, w)
      | (Inr res, el, w) \<Rightarrow> if res = Exit then (Some (Inr ()), el, w) else copy_loop sys n el w)"

definition STDIN_FILENO :: int where "STDIN_FILENO = 0"
definition STDOUT_FILENO :: int where "STDOUT_FILENO = 1"

text \<open>What follows the construction of the local variables, up to the end of the block.\<close>

definition copy_body ::
    "('k, 'z) socket_os_scheme \<Rightarrow> nat \<Rightarrow> file_descriptor \<Rightarrow> file_descriptor \<Rightarrow> file_descriptor \<Rightarrow> 'k copy_world \<Rightarrow>
     unit result option \<times> ('k, unit copy_world_ext) event_loop \<times> 'k copy_world" where
  "copy_body sys rounds socket input output w =
     (case bindIO (FileDescriptor_set_blocking sys socket False) (\<lambda>_.
           bindIO (FileDescriptor_set_blocking sys input False) (\<lambda>_.
             FileDescriptor_set_blocking sys output False)) w of
        (Inl e, w) \<Rightarrow> (Some (Inl e), \<lparr>el_rules = []\<rparr>, w)
      | (Inr _, w) \<Rightarrow>
          let (el, w) = fold add_rule_of (copy_rules sys input output socket) (\<lparr>el_rules = []\<rparr>, w)
          in copy_loop sys rounds el w)"

definition copy_variables :: "'k copy_world \<Rightarrow> 'k copy_world" where
  "copy_variables w = w\<lparr>cw_outbound := ByteStream_new buffer_size, cw_inbound := ByteStream_new buffer_size,
     cw_outbound_shutdown := False, cw_inbound_shutdown := False\<rparr>"

text \<open>The local variables are destroyed in the reverse order of their declaration.\<close>

definition bidirectional_stream_copy ::
    "('k, 'z) socket_os_scheme \<Rightarrow> nat \<Rightarrow> file_descriptor \<Rightarrow> 'k copy_world \<Rightarrow> unit result option \<times> 'k copy_world" where
  "bidirectional_stream_copy sys rounds socket w =
     (case FileDescriptor_new STDIN_FILENO w of
        (Inl e, w) \<Rightarrow> (Some (Inl e), w)
      | (Inr input, w) \<Rightarrow>
     (case FileDescriptor_new STDOUT_FILENO w of
        (Inl e, w) \<Rightarrow> (Some (Inl e), FileDescriptor_destroy sys input w)
      | (Inr output, w) \<Rightarrow>
          let (res, el, w) = copy_body sys rounds socket input output (copy_variables w)
          in case res of
               None \<Rightarrow> (None, w)
             | Some r \<Rightarrow>
                 let w = FileDescriptor_destroy sys input (FileDescriptor_destroy sys output w)
                 in (Some r, fold (\<lambda>r. FileDescriptor_destroy sys (ru_fd r)) (el_rules el) w)))"

section \<open>The kernel\<close>

text \<open>
  What the calls document, in terms of the bytes that were read from and sent to each descriptor:
  \<open>read\<close> and \<open>writev\<close> fail with -1 and \<open>errno\<close> and without an effect, or transfer
  what they report; the other calls transfer nothing.
\<close>

definition quiet :: "('k \<Rightarrow> int \<Rightarrow> bytes) \<Rightarrow> ('k \<Rightarrow> int \<Rightarrow> bytes) \<Rightarrow> ('k, 'a) syscall \<Rightarrow> bool" where
  "quiet got sent call \<longleftrightarrow> (\<forall>k. got (snd (call k)) = got k \<and> sent (snd (call k)) = sent k)"

definition kernel_ok :: "('k, 'z) socket_os_scheme \<Rightarrow> ('k \<Rightarrow> int \<Rightarrow> bytes) \<Rightarrow> ('k \<Rightarrow> int \<Rightarrow> bytes) \<Rightarrow> bool" where
  "kernel_ok sys got sent \<longleftrightarrow>
     (\<forall>fd n k ret errno data k'. os_read sys fd n k = ((ret, errno, data), k') \<longrightarrow> sent k' = sent k \<and>
        (ret = - 1 \<and> 0 < errno \<and> got k' = got k \<or>
         ret = int (length data) \<and> length data \<le> n \<and> got k' = (got k)(fd := got k fd @ data))) \<and>
     (\<forall>fd iov k ret errno k'. os_writev sys fd iov k = ((ret, errno, ()), k') \<longrightarrow> got k' = got k \<and>
        (ret = - 1 \<and> 0 < errno \<and> sent k' = sent k \<or>
         0 \<le> ret \<and> ret \<le> 0x7ffff000 \<and> nat ret \<le> length (concat (map fst iov)) \<and>
           sent k' = (sent k)(fd := sent k fd @ take (nat ret) (concat (map fst iov))))) \<and>
     (\<forall>fd. quiet got sent (os_close sys fd)) \<and>
     (\<forall>fd. quiet got sent (os_fcntl_getfl sys fd)) \<and>
     (\<forall>fd flags. quiet got sent (os_fcntl_setfl sys fd flags)) \<and>
     (\<forall>fd how. quiet got sent (os_shutdown sys fd how)) \<and>
     (\<forall>ps t. quiet got sent (os_poll sys ps t))"

text \<open>A world that differs in the kernel and in the wrapper of one handle, not in its number.\<close>

definition moved :: "file_descriptor \<Rightarrow> 'k \<Rightarrow> ('k, 'x) world_scheme \<Rightarrow> ('k, 'x) world_scheme \<Rightarrow> bool" where
  "moved h k w w' \<longleftrightarrow>
     (\<exists>f. fw_fd f = fw_fd (wd_fds w h) \<and> w' = w\<lparr>wd_kernel := k, wd_fds := (wd_fds w)(h := f)\<rparr>)"

lemma moved_kernel: "moved h k w (w\<lparr>wd_kernel := k\<rparr>)"
  by (auto simp: moved_def intro!: exI [of _ "wd_fds w h"])

lemma moved_fd:
  "fw_fd f = fw_fd (wd_fds w h) \<Longrightarrow> moved h k w (w\<lparr>wd_kernel := k, wd_fds := (wd_fds w)(h := f)\<rparr>)"
  by (auto simp: moved_def)

lemma moved_update: "(\<And>f. fw_fd (g f) = fw_fd f) \<Longrightarrow> moved h k w (update_fd h g (w\<lparr>wd_kernel := k\<rparr>))"
  by (auto simp: moved_def update_fd_def)

lemma system_call_fails: "0 < errno \<Longrightarrow> call (wd_kernel w) = ((- 1, errno, a), k) \<Longrightarrow>
    system_call attempt call w = (Inl (unix_error attempt errno), w\<lparr>wd_kernel := k\<rparr>)"
  by (simp add: system_call_def SystemCall_def to_int_def)

lemma read_cases:
  assumes "kernel_ok sys got sent"
  obtains (ok) data k w' where "FileDescriptor_read sys h limit w = (Inr data, w')" "moved h k w w'"
      "length data \<le> limit" "sent k = sent (wd_kernel w)"
      "got k = (got (wd_kernel w))(fw_fd (wd_fds w h) := got (wd_kernel w) (fw_fd (wd_fds w h)) @ data)"
    | (err) e k w' where "FileDescriptor_read sys h limit w = (Inl e, w')" "moved h k w w'"
      "got k = got (wd_kernel w)" "sent k = sent (wd_kernel w)"
proof -
  obtain ret errno data k where
    c: "os_read sys (FileDescriptor_fd_num w h) (min BUFFER_SIZE limit) (wd_kernel w) = ((ret, errno, data), k)"
    by (metis prod.exhaust)
  have s: "sent k = sent (wd_kernel w)" and
    d: "ret = - 1 \<and> 0 < errno \<and> got k = got (wd_kernel w) \<or>
      ret = int (length data) \<and> length data \<le> min BUFFER_SIZE limit \<and>
      got k = (got (wd_kernel w))(fw_fd (wd_fds w h) := got (wd_kernel w) (fw_fd (wd_fds w h)) @ data)"
    using assms [unfolded kernel_ok_def, THEN conjunct1, rule_format, OF c]
    by (simp_all only: FileDescriptor_fd_num_def)
  from d show ?thesis
  proof
    assume "ret = - 1 \<and> 0 < errno \<and> got k = got (wd_kernel w)"
    with c have "FileDescriptor_read sys h limit w = (Inl (unix_error ''read'' errno), w\<lparr>wd_kernel := k\<rparr>)"
      by (simp add: FileDescriptor_read_def FileDescriptor_read_into_def Let_def system_call_fails)
    with \<open>ret = - 1 \<and> _\<close> s show ?thesis by (intro err [where k = k and w' = "w\<lparr>wd_kernel := k\<rparr>"]) (simp_all add: moved_kernel)
  next
    assume o: "ret = int (length data) \<and> length data \<le> min BUFFER_SIZE limit \<and>
      got k = (got (wd_kernel w))(fw_fd (wd_fds w h) := got (wd_kernel w) (fw_fd (wd_fds w h)) @ data)"
    with file_descriptor_reads [of sys w h limit data errno k] c s show ?thesis
      by (intro ok [where k = k]) (auto intro!: moved_fd)
  qed
qed

lemma write_cases:
  assumes "kernel_ok sys got sent" "length data < 2 ^ 63"
  obtains (ok) n k w' where "FileDescriptor_write_string sys h data False w = (Inr n, w')" "moved h k w w'"
      "n \<le> length data" "got k = got (wd_kernel w)"
      "sent k = (sent (wd_kernel w))(fw_fd (wd_fds w h) := sent (wd_kernel w) (fw_fd (wd_fds w h)) @ take n data)"
    | (err) e k w' where "FileDescriptor_write_string sys h data False w = (Inl e, w')" "moved h k w w'"
      "got k = got (wd_kernel w)" "sent k = sent (wd_kernel w)"
proof -
  let ?fd = "fw_fd (wd_fds w h)" and ?k = "wd_kernel w"
  have one: "FileDescriptor_write_string sys h data False w =
      bindIO (FileDescriptor_write_once sys h [data]) (\<lambda>(n, _). returnIO (add64 0 n)) w"
    by (simp add: FileDescriptor_write_string_def FileDescriptor_write_def BufferViewList_of_string_def
        FileDescriptor_write_loop.simps [of sys h False] bindIO_def returnIO_def split: prod.splits sum.splits)
  obtain ret errno k where
    c: "os_writev sys (FileDescriptor_fd_num w h) (BufferViewList_as_iovecs [data]) ?k = ((ret, errno, ()), k)"
    by (metis old.unit.exhaust prod.exhaust)
  from assms(1) [unfolded kernel_ok_def, THEN conjunct2, THEN conjunct1, rule_format, OF c]
  have g: "got k = got ?k" and d: "ret = - 1 \<and> 0 < errno \<and> sent k = sent ?k \<or>
      0 \<le> ret \<and> ret \<le> 0x7ffff000 \<and> nat ret \<le> length data \<and> sent k = (sent ?k)(?fd := sent ?k ?fd @ take (nat ret) data)"
    by (simp_all add: FileDescriptor_fd_num_def as_iovecs_data)
  consider (fails) "ret = - 1" "0 < errno" "sent k = sent ?k"
    | (refuses) "ret = 0" "data \<noteq> []" "sent k = sent ?k"
    | (sends) "0 \<le> ret" "ret \<le> 0x7ffff000" "nat ret \<le> length data" "ret = 0 \<longrightarrow> data = []"
      "sent k = (sent ?k)(?fd := sent ?k ?fd @ take (nat ret) data)"
    using d by fastforce
  then show ?thesis
  proof cases
    case fails
    with c have "FileDescriptor_write_once sys h [data] w = (Inl (unix_error ''writev'' errno), w\<lparr>wd_kernel := k\<rparr>)"
      by (simp add: FileDescriptor_write_once_def system_call_fails)
    with one fails(3) g show ?thesis by (intro err [where k = k and w' = "w\<lparr>wd_kernel := k\<rparr>"]) (simp_all add: moved_kernel)
  next
    case refuses
    with c assms(2) have "FileDescriptor_write_once sys h [data] w = (Inl RuntimeError, w\<lparr>wd_kernel := k\<rparr>)"
      by (simp add: FileDescriptor_write_once_def system_call_def SystemCall_def to_int_exact view_size io)
    with one refuses(3) g show ?thesis by (intro err [where k = k and w' = "w\<lparr>wd_kernel := k\<rparr>"]) (simp_all add: moved_kernel)
  next
    case sends
    have "BufferViewList_remove_prefix (nat ret) [data] \<noteq> Inl e" for e
      using buffer_view_list.remove_ok [of "nat ret" "[data]"] sends(3) by auto
    then obtain b where "BufferViewList_remove_prefix (nat ret) [data] = Inr b" by (metis sum.exhaust)
    with c sends assms(2) have "FileDescriptor_write_once sys h [data] w =
        (Inr (nat ret, b), FileDescriptor_register_write h (w\<lparr>wd_kernel := k\<rparr>))"
      by (auto simp: FileDescriptor_write_once_def system_call_def SystemCall_def to_int_exact to_size_exact
          to_ssize_exact view_size io)
    with one sends g assms(2) show ?thesis
      by (intro ok [of "nat ret"])
         (auto simp: returnIO_def add64_exact FileDescriptor_register_write_def intro!: moved_update)
  qed
qed

lemma call_cases:
  assumes "quiet got sent call"
  obtains r k where "system_call a call w = (r, w\<lparr>wd_kernel := k\<rparr>)" "got k = got (wd_kernel w)" "sent k = sent (wd_kernel w)"
proof -
  let ?k = "snd (call (wd_kernel w))"
  have "system_call a call w = (fst (system_call a call w), w\<lparr>wd_kernel := ?k\<rparr>)"
    by (simp add: system_call_def split: prod.splits)
  moreover have "got ?k = got (wd_kernel w)" "sent ?k = sent (wd_kernel w)" using assms by (simp_all add: quiet_def)
  ultimately show ?thesis by (rule that)
qed

lemma kernel_quiet:
  assumes "kernel_ok sys got sent"
  shows "quiet got sent (os_close sys fd)" "quiet got sent (os_fcntl_getfl sys fd)"
    "quiet got sent (os_fcntl_setfl sys fd flags)" "quiet got sent (os_shutdown sys fd how)"
    "quiet got sent (os_poll sys ps t)"
  using assms by (simp_all add: kernel_ok_def)

lemma shutdown_moved:
  assumes "kernel_ok sys got sent"
  obtains k where "moved h k w (snd (Socket_shutdown sys h SHUT_WR w))" "got k = got (wd_kernel w)" "sent k = sent (wd_kernel w)"
proof (rule call_cases [OF kernel_quiet(4) [OF assms]])
  fix r k
  assume "system_call ''shutdown'' (os_shutdown sys (FileDescriptor_fd_num w h) SHUT_WR) w = (r, w\<lparr>wd_kernel := k\<rparr>)"
  then have "moved h k w (snd (Socket_shutdown sys h SHUT_WR w))"
    by (cases r) (auto simp: Socket_shutdown_def modifyIO_def SHUT_RD_def SHUT_WR_def FileDescriptor_register_write_def
        intro: moved_kernel moved_update)
  then show "got k = got (wd_kernel w) \<Longrightarrow> sent k = sent (wd_kernel w) \<Longrightarrow> thesis" by (rule that)
qed

lemma close_moved:
  assumes "kernel_ok sys got sent"
  obtains k where "moved h k w (snd (FileDescriptor_close sys h w))" "got k = got (wd_kernel w)" "sent k = sent (wd_kernel w)"
proof (rule call_cases [OF kernel_quiet(1) [OF assms]])
  fix r k
  assume "system_call ''close'' (os_close sys (fw_fd (wd_fds w h))) w = (r, w\<lparr>wd_kernel := k\<rparr>)"
  then have "moved h k w (snd (FileDescriptor_close sys h w))"
    by (cases r) (auto simp: FileDescriptor_close_def FDWrapper_close_def modifyIO_def intro: moved_kernel moved_update)
  then show "got k = got (wd_kernel w) \<Longrightarrow> sent k = sent (wd_kernel w) \<Longrightarrow> thesis" by (rule that)
qed

section \<open>The invariant of the relay\<close>

text \<open>
  What was sent to the socket, followed by what the outbound stream holds, is what was read from the
  standard input; what was sent to the standard output, followed by what the inbound stream holds,
  is what was read from the socket.
\<close>

definition relay ::
    "('k \<Rightarrow> int \<Rightarrow> bytes) \<Rightarrow> ('k \<Rightarrow> int \<Rightarrow> bytes) \<Rightarrow> file_descriptor \<Rightarrow> file_descriptor \<Rightarrow> file_descriptor \<Rightarrow> int \<Rightarrow>
     'k copy_world \<Rightarrow> bool" where
  "relay got sent input output socket n w \<longleftrightarrow>
     bs_inv (cw_outbound w) \<and> bs_inv (cw_inbound w) \<and> n \<noteq> STDIN_FILENO \<and> n \<noteq> STDOUT_FILENO \<and>
     fw_fd (wd_fds w input) = STDIN_FILENO \<and> fw_fd (wd_fds w output) = STDOUT_FILENO \<and> fw_fd (wd_fds w socket) = n \<and>
     sent (wd_kernel w) n @ bs_buf (cw_outbound w) = got (wd_kernel w) STDIN_FILENO \<and>
     sent (wd_kernel w) STDOUT_FILENO @ bs_buf (cw_inbound w) = got (wd_kernel w) n"

lemma relay_moved:
  assumes "relay got sent input output socket n w" "moved h k w w'"
    and "got k = got (wd_kernel w)" "sent k = sent (wd_kernel w)"
  shows "relay got sent input output socket n w'"
  using assms by (auto simp: relay_def moved_def)

lemma relay_kernel:
  assumes "relay got sent input output socket n w" "got k = got (wd_kernel w)" "sent k = sent (wd_kernel w)"
  shows "relay got sent input output socket n (w\<lparr>wd_kernel := k\<rparr>)"
  using assms by (auto simp: relay_def)

lemma relay_flags:
  assumes "relay got sent input output socket n w"
  shows "relay got sent input output socket n (snd (outbound_do ByteStream_end_input w))"
    "relay got sent input output socket n (snd (outbound_do ByteStream_set_error w))"
    "relay got sent input output socket n (snd (inbound_do ByteStream_end_input w))"
    "relay got sent input output socket n (snd (inbound_do ByteStream_set_error w))"
  using assms
  by (simp_all add: relay_def outbound_do_def inbound_do_def modifyIO_def bs_inv_end_input bs_inv_set_error)
     (simp_all add: ByteStream_end_input_def ByteStream_set_error_def)

lemma stream_write_all:
  assumes "bs_inv s" "length data \<le> ByteStream_remaining_capacity s"
  shows "bs_buf (fst (ByteStream_write s data)) = bs_buf s @ data"
  using assms by (simp add: ByteStream_write_def Let_def)

lemma rule1_keeps:
  assumes "kernel_ok sys got sent" "relay got sent input output socket n w"
  shows "relay got sent input output socket n (snd (ru_callback (copy_rule1 sys input) w))"
proof -
  let ?limit = "ByteStream_remaining_capacity (cw_outbound w)"
  show ?thesis
  proof (cases rule: read_cases [OF assms(1), where h = input and limit = ?limit and w = w, case_names ok err])
    case (err e k w')
    with assms(2) show ?thesis by (auto simp: copy_rule1_def intro: relay_moved)
  next
    case (ok data k w')
    let ?w = "w'\<lparr>cw_outbound := fst (ByteStream_write (cw_outbound w') data)\<rparr>"
    have "cw_outbound w' = cw_outbound w" using ok(2) by (auto simp: moved_def)
    with assms(2) ok(2-5) have r: "relay got sent input output socket n ?w"
      by (auto simp: relay_def moved_def stream_write_all bs_inv_write)
    show ?thesis
      using ok(1) r relay_flags(1) [OF r] by (simp add: copy_rule1_def outbound_do_def bindIO_def modifyIO_def)
  qed
qed

lemma rule3_keeps:
  assumes "kernel_ok sys got sent" "relay got sent input output socket n w"
  shows "relay got sent input output socket n (snd (ru_callback (copy_rule3 sys socket) w))"
proof -
  let ?limit = "ByteStream_remaining_capacity (cw_inbound w)"
  show ?thesis
  proof (cases rule: read_cases [OF assms(1), where h = socket and limit = ?limit and w = w, case_names ok err])
    case (err e k w')
    with assms(2) show ?thesis by (auto simp: copy_rule3_def intro: relay_moved)
  next
    case (ok data k w')
    let ?w = "w'\<lparr>cw_inbound := fst (ByteStream_write (cw_inbound w') data)\<rparr>"
    have "cw_inbound w' = cw_inbound w" using ok(2) by (auto simp: moved_def)
    with assms(2) ok(2-5) have r: "relay got sent input output socket n ?w"
      by (auto simp: relay_def moved_def stream_write_all bs_inv_write)
    show ?thesis
      using ok(1) r relay_flags(3) [OF r] by (simp add: copy_rule3_def inbound_do_def bindIO_def modifyIO_def)
  qed
qed

lemma peeked:
  "m \<le> length (ByteStream_peek_output s (min c (ByteStream_buffer_size s))) \<Longrightarrow>
   take m (ByteStream_peek_output s (min c (ByteStream_buffer_size s))) = take m (bs_buf s) \<and> m \<le> length (bs_buf s)"
  by (simp add: ByteStream_peek_output_def ByteStream_buffer_size_def min_absorb1)

lemma rule2_keeps:
  assumes "kernel_ok sys got sent" "relay got sent input output socket n w"
  shows "relay got sent input output socket n (snd (ru_callback (copy_rule2 sys socket) w))"
proof -
  let ?data = "ByteStream_peek_output (cw_outbound w) (min max_copy_length (ByteStream_buffer_size (cw_outbound w)))"
  have "length ?data < 2 ^ 63" by (simp add: ByteStream_peek_output_def max_copy_length_def)
  from assms(1) this show ?thesis
  proof (cases rule: write_cases [where h = socket and w = w, case_names ok err])
    case (err e k w')
    with assms(2) show ?thesis by (auto simp: copy_rule2_def Let_def intro: relay_moved)
  next
    case (ok m k w')
    let ?w = "w'\<lparr>cw_outbound := ByteStream_pop_output (cw_outbound w') m\<rparr>"
    from ok(2) have w': "cw_outbound w' = cw_outbound w" by (auto simp: moved_def)
    have "take m ?data = take m (bs_buf (cw_outbound w))" "m \<le> length (bs_buf (cw_outbound w))"
      using peeked [OF ok(3)] by simp_all
    with assms(2) ok(2,4,5) w' have r: "relay got sent input output socket n ?w"
      by (auto simp: relay_def moved_def bs_inv_pop) (simp_all add: ByteStream_pop_output_def flip: append_assoc)
    have "relay got sent input output socket n (snd (Socket_shutdown sys socket SHUT_WR ?w))"
      by (rule shutdown_moved [OF assms(1)]) (rule relay_moved [OF r])
    then have "relay got sent input output socket n (snd (bindIO (Socket_shutdown sys socket SHUT_WR)
        (\<lambda>_. modifyIO (\<lambda>w. w\<lparr>cw_outbound_shutdown := True\<rparr>)) ?w))"
      by (auto simp: bindIO_def modifyIO_def relay_def split: prod.splits sum.splits)
    with ok(1) r show ?thesis by (simp add: copy_rule2_def Let_def outbound_do_def bindIO_def [of "modifyIO _"] modifyIO_def)
  qed
qed

lemma rule4_keeps:
  assumes "kernel_ok sys got sent" "relay got sent input output socket n w"
  shows "relay got sent input output socket n (snd (ru_callback (copy_rule4 sys output) w))"
proof -
  let ?data = "ByteStream_peek_output (cw_inbound w) (min max_copy_length (ByteStream_buffer_size (cw_inbound w)))"
  have "length ?data < 2 ^ 63" by (simp add: ByteStream_peek_output_def max_copy_length_def)
  from assms(1) this show ?thesis
  proof (cases rule: write_cases [where h = "output" and w = w, case_names ok err])
    case (err e k w')
    with assms(2) show ?thesis by (auto simp: copy_rule4_def Let_def intro: relay_moved)
  next
    case (ok m k w')
    let ?w = "w'\<lparr>cw_inbound := ByteStream_pop_output (cw_inbound w') m\<rparr>"
    from ok(2) have w': "cw_inbound w' = cw_inbound w" by (auto simp: moved_def)
    have "take m ?data = take m (bs_buf (cw_inbound w))" "m \<le> length (bs_buf (cw_inbound w))"
      using peeked [OF ok(3)] by simp_all
    with assms(2) ok(2,4,5) w' have r: "relay got sent input output socket n ?w"
      by (auto simp: relay_def moved_def bs_inv_pop) (simp_all add: ByteStream_pop_output_def flip: append_assoc)
    have "relay got sent input output socket n (snd (FileDescriptor_close sys output ?w))"
      by (rule close_moved [OF assms(1)]) (rule relay_moved [OF r])
    then have "relay got sent input output socket n (snd (bindIO (FileDescriptor_close sys output)
        (\<lambda>_. modifyIO (\<lambda>w. w\<lparr>cw_inbound_shutdown := True\<rparr>)) ?w))"
      by (auto simp: bindIO_def modifyIO_def relay_def split: prod.splits sum.splits)
    with ok(1) r show ?thesis by (simp add: copy_rule4_def Let_def inbound_do_def bindIO_def [of "modifyIO _"] modifyIO_def)
  qed
qed

lemmas copy_rule_defs = copy_rule1_def copy_rule2_def copy_rule3_def copy_rule4_def

text \<open>The rules are clients of the event loop with this invariant, on every kernel that keeps its promises.\<close>

interpretation copy: event_loop_client sys "set (copy_rules sys inp outp sock)"
  "\<lambda>w. kernel_ok sys got sent \<longrightarrow> relay got sent inp outp sock n w"
  for sys :: "('k, 'z) socket_os_scheme" and inp outp sock got sent n
proof unfold_locales
  fix r and w :: "'k copy_world"
  assume r: "r \<in> set (copy_rules sys inp outp sock)"
    and w: "kernel_ok sys got sent \<longrightarrow> relay got sent inp outp sock n w"
  then show "kernel_ok sys got sent \<longrightarrow> relay got sent inp outp sock n (snd (ru_callback r w))"
    by (auto simp: copy_rules_def intro: rule1_keeps rule2_keeps rule3_keeps rule4_keeps)
  show "kernel_ok sys got sent \<longrightarrow> relay got sent inp outp sock n (snd (ru_interest r w))"
    using r w by (auto simp: copy_rules_def copy_rule_defs)
  show "kernel_ok sys got sent \<longrightarrow> relay got sent inp outp sock n (snd (ru_cancel r w))"
    using r w by (auto simp: copy_rules_def copy_rule_defs intro: relay_flags)
next
  fix h and w :: "'k copy_world"
  assume w: "kernel_ok sys got sent \<longrightarrow> relay got sent inp outp sock n w"
  show "kernel_ok sys got sent \<longrightarrow> relay got sent inp outp sock n (FileDescriptor_destroy sys h w)"
  proof
    assume k: "kernel_ok sys got sent"
    let ?w = "w\<lparr>wd_use_count := (wd_use_count w)(h := wd_use_count w h - 1)\<rparr>"
    have r: "relay got sent inp outp sock n ?w" using w k by (simp add: relay_def)
    have "relay got sent inp outp sock n (snd (FDWrapper_close sys h ?w))"
      by (rule close_moved [OF k, of h ?w]) (auto simp: FileDescriptor_close_def intro: relay_moved [OF r])
    with r show "relay got sent inp outp sock n (FileDescriptor_destroy sys h w)"
      by (auto simp only: FileDescriptor_destroy_def FDWrapper_destroy_def Let_def split: if_splits)
  qed
next
  fix ps t and w :: "'k copy_world"
  assume "kernel_ok sys got sent \<longrightarrow> relay got sent inp outp sock n w"
  then show "kernel_ok sys got sent \<longrightarrow>
      relay got sent inp outp sock n (w\<lparr>wd_kernel := snd (os_poll sys ps t (wd_kernel w))\<rparr>)"
    using kernel_quiet(5) [of sys got sent ps t] by (auto simp: quiet_def intro: relay_kernel)
qed

lemma copy_loop_keeps:
  assumes "kernel_ok sys got sent"
  shows "set (el_rules el) \<subseteq> set (copy_rules sys inp outp sock) \<Longrightarrow> relay got sent inp outp sock n w \<Longrightarrow>
    copy_loop sys rounds el w = (res, el', w') \<Longrightarrow> relay got sent inp outp sock n w'"
proof (induction rounds arbitrary: el w)
  case (Suc m)
  obtain r1 el1 w1 where w1: "EventLoop_wait_next_event sys (- 1) el w = (r1, el1, w1)" by (metis prod.exhaust)
  from copy.wait_keeps [OF Suc.prems(1) _ w1, of got sent n] Suc.prems(2) assms
  have "set (el_rules el1) \<subseteq> set (copy_rules sys inp outp sock)" "relay got sent inp outp sock n w1" by simp_all
  with Suc w1 show ?case by (cases r1) (auto split: if_splits)
qed simp

lemma add_rules_of:
  "\<exists>u. fold add_rule_of rs (el, w) = (el\<lparr>el_rules := el_rules el @ rs\<rparr>, w\<lparr>wd_use_count := u\<rparr>)"
proof (induction rs arbitrary: el w)
  case Nil
  show ?case by (rule exI [of _ "wd_use_count w"]) simp
next
  case (Cons r rs)
  have "add_rule_of r (el, w) = (el\<lparr>el_rules := el_rules el @ [r]\<rparr>,
      w\<lparr>wd_use_count := (wd_use_count w)(ru_fd r := wd_use_count w (ru_fd r) + 1)\<rparr>)"
    by (simp add: add_rule_of_def EventLoop_add_rule_def FileDescriptor_duplicate_def)
  with Cons [of "el\<lparr>el_rules := el_rules el @ [r]\<rparr>"
      "w\<lparr>wd_use_count := (wd_use_count w)(ru_fd r := wd_use_count w (ru_fd r) + 1)\<rparr>"]
  show ?case by auto
qed

lemma set_blocking_keeps:
  assumes "kernel_ok sys got sent" "relay got sent inp outp sock n w" "FileDescriptor_set_blocking sys h b w = (r, w')"
  shows "relay got sent inp outp sock n w'"
proof (rule call_cases [OF kernel_quiet(2) [OF assms(1)]])
  fix r1 k1
  assume c1: "system_call ''fcntl'' (os_fcntl_getfl sys (FileDescriptor_fd_num w h)) w = (r1, w\<lparr>wd_kernel := k1\<rparr>)"
    "got k1 = got (wd_kernel w)" "sent k1 = sent (wd_kernel w)"
  then have w1: "relay got sent inp outp sock n (w\<lparr>wd_kernel := k1\<rparr>)" using assms(2) by (intro relay_kernel)
  have "relay got sent inp outp sock n w2"
    if w2: "system_call ''fcntl'' (os_fcntl_setfl sys fd fl) (w\<lparr>wd_kernel := k1\<rparr>) = (r2, w2)" for fd fl r2 w2
  proof -
    obtain r' k2 where "system_call ''fcntl'' (os_fcntl_setfl sys fd fl) (w\<lparr>wd_kernel := k1\<rparr>) =
        (r', w\<lparr>wd_kernel := k1, wd_kernel := k2\<rparr>)" "got k2 = got (wd_kernel (w\<lparr>wd_kernel := k1\<rparr>))"
        "sent k2 = sent (wd_kernel (w\<lparr>wd_kernel := k1\<rparr>))"
      by (rule call_cases [OF kernel_quiet(3) [OF assms(1)]])
    with relay_kernel [OF w1, of k2] w2 show ?thesis by simp
  qed
  with w1 c1(1) assms(3) show ?thesis
    by (auto simp: FileDescriptor_set_blocking_def bindIO_def returnIO_def Let_def split: prod.splits sum.splits)
qed

lemma copy_body_keeps:
  assumes "kernel_ok sys got sent" "relay got sent inp outp sock n w" "copy_body sys rounds sock inp outp w = (res, el, w')"
  shows "relay got sent inp outp sock n w'"
proof -
  obtain r w1 where b: "bindIO (FileDescriptor_set_blocking sys sock False) (\<lambda>_.
      bindIO (FileDescriptor_set_blocking sys inp False) (\<lambda>_. FileDescriptor_set_blocking sys outp False)) w = (r, w1)"
    by fastforce
  then have w1: "relay got sent inp outp sock n w1"
    using assms(2)
    by (auto simp: bindIO_def split: prod.splits sum.splits) (blast intro: set_blocking_keeps [OF assms(1)])+
  obtain u where "fold add_rule_of (copy_rules sys inp outp sock) (\<lparr>el_rules = []\<rparr>, w1) =
      (\<lparr>el_rules = copy_rules sys inp outp sock\<rparr>, w1\<lparr>wd_use_count := u\<rparr>)"
    using add_rules_of [of "copy_rules sys inp outp sock" "\<lparr>el_rules = []\<rparr>" w1] by auto
  moreover have "relay got sent inp outp sock n (w1\<lparr>wd_use_count := u\<rparr>)" using w1 by (simp add: relay_def)
  then have "relay got sent inp outp sock n w2"
    if "copy_loop sys rounds \<lparr>el_rules = copy_rules sys inp outp sock\<rparr> (w1\<lparr>wd_use_count := u\<rparr>) = (res2, el2, w2)"
    for res2 el2 w2
    using that by (rule copy_loop_keeps [OF assms(1), rotated]) simp
  ultimately show ?thesis
    using assms(3) b w1 by (cases r) (auto simp: copy_body_def)
qed

text \<open>
  C38: relaying. On a kernel that behaves as documented, with a socket that is neither the standard
  input nor the standard output and nothing transferred yet, the program never loses, repeats or
  reorders a byte: after any number of rounds, and when it has returned or thrown, what was sent to the
  socket is a prefix of what was read from the standard input, and what was sent to the standard
  output is a prefix of what was read from the socket.
\<close>

theorem stream_copy_relays:
  fixes w :: "'k copy_world"
  assumes "kernel_ok sys got sent" "socket < wd_next w" "fw_fd (wd_fds w socket) = n"
    and "n \<noteq> STDIN_FILENO" "n \<noteq> STDOUT_FILENO"
    and "\<And>fd. got (wd_kernel w) fd = [] \<and> sent (wd_kernel w) fd = []"
    and "bidirectional_stream_copy sys rounds socket w = (res, w')"
  shows "prefix (sent (wd_kernel w') n) (got (wd_kernel w') STDIN_FILENO) \<and>
    prefix (sent (wd_kernel w') STDOUT_FILENO) (got (wd_kernel w') n)"
proof -
  let ?inp = "wd_next w" and ?outp = "Suc (wd_next w)"
  obtain w0 w1 where n1: "FileDescriptor_new STDIN_FILENO w = (Inr ?inp, w0)"
    and n2: "FileDescriptor_new STDOUT_FILENO w0 = (Inr ?outp, w1)"
    by (simp add: FileDescriptor_new_def FDWrapper_new_def STDIN_FILENO_def STDOUT_FILENO_def)
  let ?w = "copy_variables w1"
  have "bs_inv (ByteStream_new buffer_size)" "bs_buf (ByteStream_new buffer_size) = []"
    by (simp_all add: bs_inv_new buffer_size_def) (simp add: ByteStream_new_def)
  then have r: "relay got sent ?inp ?outp socket n ?w"
    using assms(2-6) n1 n2
    by (auto simp: relay_def copy_variables_def FileDescriptor_new_def FDWrapper_new_def STDIN_FILENO_def STDOUT_FILENO_def)
  obtain res2 el w2 where b: "copy_body sys rounds socket ?inp ?outp ?w = (res2, el, w2)" by (metis prod.exhaust)
  have r2: "relay got sent ?inp ?outp socket n w2" by (rule copy_body_keeps [OF assms(1) r b])
  have d: "relay got sent ?inp ?outp socket n v \<Longrightarrow> relay got sent ?inp ?outp socket n (FileDescriptor_destroy sys h v)" for h v
    using copy.destroy [of sys got sent ?inp ?outp socket n v h] assms(1) by simp
  have "relay got sent ?inp ?outp socket n v \<Longrightarrow>
      relay got sent ?inp ?outp socket n (fold (\<lambda>r. FileDescriptor_destroy sys (ru_fd r)) rs v)" for rs :: "'k copy_rule list" and v
    by (induction rs arbitrary: v) (auto intro: d)
  then have "relay got sent ?inp ?outp socket n w'"
    using assms(7) n1 n2 b r2 d by (auto simp: bidirectional_stream_copy_def split: option.splits)
  then show ?thesis unfolding relay_def by (metis prefixI)
qed

text \<open>
  A kernel whose descriptors deliver one byte after the other, accept one at a time and are always
  ready; its state is what was read and what was sent.
\<close>

definition sample_relay_os :: "((int \<Rightarrow> bytes) \<times> (int \<Rightarrow> bytes)) socket_os" where
  "sample_relay_os = \<lparr>os_read = \<lambda>fd n (g, s). let d = take n [7] in ((int (length d), 0, d), (g(fd := g fd @ d), s)),
     os_writev = \<lambda>fd iov (g, s). let d = take 1 (concat (map fst iov)) in ((int (length d), 0, ()), (g, s(fd := s fd @ d))),
     os_close = \<lambda>fd k. ((0, 0, ()), k), os_fcntl_getfl = \<lambda>fd k. ((0, 0, ()), k),
     os_fcntl_setfl = \<lambda>fd flags k. ((0, 0, ()), k), os_poll = \<lambda>ps t k. ((1, 0, \<lambda>_. 5), k),
     os_socket = \<lambda>d t p k. ((3, 0, ()), k), os_getsockopt = \<lambda>fd l opt n k. ((0, 0, 2, n), k),
     os_setsockopt = \<lambda>fd l opt v n k. ((0, 0, ()), k), os_getsockname = \<lambda>fd n k. ((0, 0, [], 0), k),
     os_getpeername = \<lambda>fd n k. ((0, 0, [], 0), k), os_bind = \<lambda>fd a n k. ((0, 0, ()), k),
     os_connect = \<lambda>fd a n k. ((0, 0, ()), k), os_shutdown = \<lambda>fd how k. ((0, 0, ()), k),
     os_recvfrom = \<lambda>fd n fl m k. ((- 1, 11, [], [], 0), k),
     os_sendmsg = \<lambda>fd a n iov fl k. ((0, 0, ()), k), os_listen = \<lambda>fd n k. ((0, 0, ()), k),
     os_accept = \<lambda>fd k. ((4, 0, ()), k), os_socketpair = \<lambda>d t p k. ((0, 0, 5, 6), k)\<rparr>"

definition sample_copy_world :: "((int \<Rightarrow> bytes) \<times> (int \<Rightarrow> bytes)) copy_world" where
  "sample_copy_world =
     \<lparr>wd_fds = \<lambda>_. \<lparr>fw_fd = 3, fw_eof = False, fw_closed = False, fw_read_count = 0, fw_write_count = 0\<rparr>,
      wd_use_count = \<lambda>_. 1, wd_next = 1, wd_kernel = (\<lambda>_. [], \<lambda>_. []),
      cw_outbound = ByteStream_new 0, cw_inbound = ByteStream_new 0,
      cw_outbound_shutdown = False, cw_inbound_shutdown = False\<rparr>"

lemma sample_relay_kernel: "kernel_ok sample_relay_os fst snd"
  by (auto simp: kernel_ok_def quiet_def sample_relay_os_def Let_def min_def)

theorem stream_copy_relays_witness:
  "let w' = snd (bidirectional_stream_copy sample_relay_os 3 0 sample_copy_world)
   in prefix (snd (wd_kernel w') 3) (fst (wd_kernel w') 0) \<and> prefix (snd (wd_kernel w') 1) (fst (wd_kernel w') 3)"
  using stream_copy_relays [OF sample_relay_kernel, of 0 sample_copy_world 3 3
      "fst (bidirectional_stream_copy sample_relay_os 3 0 sample_copy_world)"
      "snd (bidirectional_stream_copy sample_relay_os 3 0 sample_copy_world)"]
  by (simp add: sample_copy_world_def STDIN_FILENO_def STDOUT_FILENO_def)

end
