(* ===== verification/Reassembler.thy ===== *)
theory Reassembler
  imports Byte_Stream
begin

text \<open>
  The stream reassembler of \<open>stream_reassembler.hh\<close> and \<open>stream_reassembler.cc\<close>:
  substrings arrive in any order, possibly overlapping, and leave in order through a
  \<^typ>\<open>byte_stream\<close>.

  The \<open>std::set<Segment>\<close> is the list of its elements in increasing order of
  \<open>start\<close>; an iterator is a position in that list and \<open>end()\<close> is its length.
  The code does two things the C++ standard leaves undefined: \<open>push_substring\<close> reads
  \<open>it->start\<close> when \<open>it\<close> may be \<open>end()\<close>, and \<open>insert\<close> increments an iterator
  after erasing the element it points to. Neither has a meaning, so the model gives both the result
  \<open>UndefinedBehaviour\<close>. A compiled program may still get past them; how far is the parameter
  \<open>stl_env\<close>. No theorem assumes that it does: each holds for every platform, also for the
  one where nothing comes back from an undefined operation.
\<close>

section \<open>State\<close>

record segment =
  sg_data :: bytes
  sg_start :: size_t

record stream_reassembler =
  sr_segments :: "segment list"
  sr_unassembled_byte :: size_t
  sr_eof :: bool
  sr_pos_eof :: size_t
  sr_output :: byte_stream
  sr_capacity :: size_t

text \<open>
  \<open>end_start\<close>: the number found where \<open>end()->start\<close> would be; \<open>None\<close> when the access does
  not come back with one. Where the number makes the loop go on, the next step is undefined in turn.
  \<open>erased_succ\<close>: whether incrementing an iterator whose element \<open>x\<close> was just erased, with
  \<open>L\<close> in front of it and \<open>R\<close> behind it, ends at the first element of \<open>R\<close>. Every other
  outcome (another element, freed memory, a crash) is \<open>UndefinedBehaviour\<close>.
\<close>

record stl_env =
  end_start :: "stream_reassembler \<Rightarrow> size_t option"
  erased_succ :: "segment list \<Rightarrow> segment \<Rightarrow> segment list \<Rightarrow> bool"

definition StreamReassembler_new :: "size_t \<Rightarrow> stream_reassembler" where
  "StreamReassembler_new capacity =
     \<lparr>sr_segments = [], sr_unassembled_byte = 0, sr_eof = False, sr_pos_eof = 0,
      sr_output = ByteStream_new capacity, sr_capacity = capacity\<rparr>"

section \<open>Operations\<close>

definition sg_end :: "segment \<Rightarrow> size_t" where
  "sg_end x = add64 (sg_start x) (length (sg_data x))"

text \<open>\<open>std::set::insert\<close>: an element with the same key is kept.\<close>

fun set_insert :: "segment \<Rightarrow> segment list \<Rightarrow> segment list" where
  "set_insert s [] = [s]"
| "set_insert s (x # xs) =
     (if sg_start s < sg_start x then s # x # xs
      else if sg_start x < sg_start s then x # set_insert s xs
      else x # xs)"

text \<open>The loop of \<open>insert\<close> over the segments on the right hand side.\<close>

function StreamReassembler_insert_loop ::
  "stl_env \<Rightarrow> segment list \<Rightarrow> nat \<Rightarrow> segment \<Rightarrow> size_t \<Rightarrow> size_t \<Rightarrow> size_t
   \<Rightarrow> (segment list \<times> size_t) result" where
  "StreamReassembler_insert_loop env segs it tmp start sz unassembled =
     (if it < length segs \<and> add64 start sz \<ge> sg_start (segs ! it) then
        let x = segs ! it; left = take it segs; right = drop (Suc it) segs
        in if start \<ge> sg_start x \<and> add64 start sz \<le> sg_end x then Inr (segs, unassembled)
           else
             bindR
               (if add64 start sz < sg_end x
                then bindR (substr_from (sg_data x) (sub64 (add64 start sz) (sg_start x)))
                       (\<lambda>d. Inr (tmp\<lparr>sg_data := sg_data tmp @ d\<rparr>))
                else Inr tmp)
               (\<lambda>tmp'.
                  if erased_succ env left x right
                  then StreamReassembler_insert_loop env (left @ right) (length left) tmp' start sz
                         (sub64 unassembled (length (sg_data x)))
                  else Inl UndefinedBehaviour)
      else Inr (set_insert tmp segs, add64 unassembled (length (sg_data tmp))))"
  by pat_completeness auto
termination
  by (relation "measure (\<lambda>(env, segs, it, tmp, start, sz, unassembled). length segs)") auto

declare StreamReassembler_insert_loop.simps [simp del]

definition StreamReassembler_insert ::
  "stl_env \<Rightarrow> stream_reassembler \<Rightarrow> segment \<Rightarrow> stream_reassembler result" where
  "StreamReassembler_insert env r s =
     (let segs = sr_segments r; start = sg_start s; sz = length (sg_data s);
          store = (\<lambda>(segs', n). r\<lparr>sr_segments := segs', sr_unassembled_byte := n\<rparr>)
      in if segs = [] then
           Inr (r\<lparr>sr_segments := [s],
                  sr_unassembled_byte := add64 (sr_unassembled_byte r) (length (sg_data s))\<rparr>)
         else
           let left = takeWhile (\<lambda>x. sg_start x < start) segs;
               right = dropWhile (\<lambda>x. sg_start x < start) segs
           in if left \<noteq> [] \<and> start \<le> sg_end (last left) then
                let x = last left
                in if add64 start sz \<le> sg_end x then Inr r
                   else
                     bindR (substr_from (sg_data s) (sub64 (sg_end x) start))
                       (\<lambda>d. let tmp = \<lparr>sg_data = sg_data x @ d, sg_start = sg_start x\<rparr>
                            in if erased_succ env (butlast left) x right then
                                 bindR
                                   (StreamReassembler_insert_loop env (butlast left @ right)
                                      (length (butlast left)) tmp (sg_start tmp) (length (sg_data tmp))
                                      (sub64 (sr_unassembled_byte r) (length (sg_data x))))
                                   (Inr \<circ> store)
                               else Inl UndefinedBehaviour)
              else
                bindR
                  (StreamReassembler_insert_loop env segs (length left) s start sz
                     (sr_unassembled_byte r))
                  (Inr \<circ> store))"

text \<open>
  The loop of \<open>push_substring\<close>: segments that start at or before \<open>pos\<close>, the end of the
  substring just written, are consumed; the iterator stands at the first element.
\<close>

fun StreamReassembler_assemble ::
  "stl_env \<Rightarrow> size_t \<Rightarrow> segment list \<Rightarrow> stream_reassembler \<Rightarrow> stream_reassembler result" where
  "StreamReassembler_assemble env pos [] r =
     (case end_start env r of
        None \<Rightarrow> Inl UndefinedBehaviour
      | Some start \<Rightarrow> if start \<le> pos then Inl UndefinedBehaviour else Inr r)"
| "StreamReassembler_assemble env pos (x # xs) r =
     (if sg_start x \<le> pos then
        bindR
          (if pos < sg_end x
           then bindR (substr_from (sg_data x) (sub64 pos (sg_start x)))
                  (\<lambda>d. Inr (r\<lparr>sr_output := fst (ByteStream_write (sr_output r) d)\<rparr>))
           else Inr r)
          (\<lambda>r'. StreamReassembler_assemble env pos xs
             (r'\<lparr>sr_segments := xs,
                 sr_unassembled_byte := sub64 (sr_unassembled_byte r') (length (sg_data x))\<rparr>))
      else Inr r)"

text \<open>The code at the label \<open>JUDGE_EOF\<close>.\<close>

definition StreamReassembler_judge_eof ::
  "bytes \<Rightarrow> size_t \<Rightarrow> bool \<Rightarrow> stream_reassembler \<Rightarrow> stream_reassembler" where
  "StreamReassembler_judge_eof data index eof r =
     (let r' = (if eof then r\<lparr>sr_eof := True, sr_pos_eof := add64 index (length data)\<rparr> else r)
      in if sr_eof r' \<and> ByteStream_bytes_written (sr_output r') = sr_pos_eof r'
         then r'\<lparr>sr_output := ByteStream_end_input (sr_output r')\<rparr> else r')"

definition StreamReassembler_push_substring ::
  "stl_env \<Rightarrow> stream_reassembler \<Rightarrow> bytes \<Rightarrow> size_t \<Rightarrow> bool \<Rightarrow> stream_reassembler result" where
  "StreamReassembler_push_substring env r data index eof =
     (let first_unread = ByteStream_bytes_read (sr_output r);
          first_unassembled = ByteStream_bytes_written (sr_output r);
          first_unaccepted = add64 first_unread (sr_capacity r);
          judge_eof = StreamReassembler_judge_eof data index eof
      in if add64 index (length data) < first_unassembled \<or> first_unaccepted \<le> index
         then Inr (judge_eof r)
         else
           let seg_data = (if first_unaccepted < add64 index (length data)
                           then take (sub64 first_unaccepted index) data else data)
           in if index \<le> first_unassembled then
                bindR (substr_from seg_data (sub64 first_unassembled index))
                  (\<lambda>d. bindR
                    (StreamReassembler_assemble env (add64 index (length seg_data)) (sr_segments r)
                       (r\<lparr>sr_output := fst (ByteStream_write (sr_output r) d)\<rparr>))
                    (Inr \<circ> judge_eof))
              else
                bindR (StreamReassembler_insert env r \<lparr>sg_data = seg_data, sg_start = index\<rparr>)
                  (Inr \<circ> judge_eof))"

definition StreamReassembler_unassembled_bytes :: "stream_reassembler \<Rightarrow> size_t" where
  "StreamReassembler_unassembled_bytes r = sr_unassembled_byte r"

definition StreamReassembler_empty :: "stream_reassembler \<Rightarrow> bool" where
  "StreamReassembler_empty r \<longleftrightarrow> sr_unassembled_byte r = 0"

definition StreamReassembler_stream_out :: "stream_reassembler \<Rightarrow> byte_stream" where
  "StreamReassembler_stream_out r = sr_output r"

end
