(* ===== verification/Reassembler_Correct.thy ===== *)
theory Reassembler_Correct
  imports Reassembler
begin

text \<open>
  What the reassembler promises: it keeps the substrings of one stream \<open>S\<close> that fit in
  its window, holds every byte at most once, and puts out exactly the prefix of \<open>S\<close> it has
  seen without a gap. The abstract state is the set of stream positions seen; the locale
  \<open>substring_sink\<close> is the contract a client of the reassembler uses.
\<close>

section \<open>The contract\<close>

text \<open>The string \<open>d\<close> stands at position \<open>i\<close> of the stream \<open>S\<close>.\<close>

definition excerpt :: "bytes \<Rightarrow> size_t \<Rightarrow> bytes \<Rightarrow> bool" where
  "excerpt S i d \<longleftrightarrow> i + length d \<le> length S \<and> take (length d) (drop i S) = d"

lemma excerptI_join:
  assumes "excerpt S i d" "excerpt S j e" "i \<le> j" "j \<le> i + length d" "i + length d \<le> j + length e"
  shows "excerpt S i (d @ drop (i + length d - j) e)"
proof -
  let ?k = "i + length d - j"
  have e: "e = take (length e) (drop j S)" using assms(2) by (simp add: excerpt_def)
  have "drop ?k e = take (length e - ?k) (drop (i + length d) S)"
    using assms(3,4) by (subst e) (simp add: drop_take)
  moreover have "d = take (length d) (drop i S)" using assms(1) by (simp add: excerpt_def)
  ultimately have "take (length d + (length e - ?k)) (drop i S) = d @ drop ?k e"
    by (simp add: take_add add.commute)
  then show ?thesis using assms by (auto simp: excerpt_def)
qed

lemma excerpt_take: "excerpt S i d \<Longrightarrow> excerpt S i (take n d)"
  unfolding excerpt_def using take_take [of n "length d" "drop i S"]
  by (auto simp: min.commute)

lemma excerpt_drop: "excerpt S i d \<Longrightarrow> n \<le> length d \<Longrightarrow> excerpt S (i + n) (drop n d)"
  unfolding excerpt_def by (auto simp: add.commute) (metis drop_drop drop_take add.commute)

lemma excerpt_append: "excerpt S i d \<Longrightarrow> excerpt S (i + length d) e \<Longrightarrow> excerpt S i (d @ e)"
  using excerptI_join [of S i d "i + length d" e] by simp

lemma excerpt_Nil [simp]: "excerpt S i [] \<longleftrightarrow> i \<le> length S"
  by (simp add: excerpt_def)


text \<open>
  Calls to a sink of substrings: \<open>Push data index eof\<close> hands over a substring, \<open>Pull n\<close>
  reads at most \<open>n\<close> bytes. \<open>sink_run\<close> performs a sequence of calls and collects the
  bytes read.
\<close>

datatype sink_op = Push bytes size_t bool | Pull size_t

fun sink_run ::
  "('s \<Rightarrow> bytes \<Rightarrow> size_t \<Rightarrow> bool \<Rightarrow> 's result) \<Rightarrow> ('s \<Rightarrow> size_t \<Rightarrow> 's \<times> bytes)
   \<Rightarrow> sink_op list \<Rightarrow> 's \<Rightarrow> ('s \<times> bytes) result" where
  "sink_run push pull [] s = Inr (s, [])"
| "sink_run push pull (Push data index eof # ops) s =
     bindR (push s data index eof) (sink_run push pull ops)"
| "sink_run push pull (Pull n # ops) s =
     (case pull s n of (s1, d) \<Rightarrow>
      bindR (sink_run push pull ops s1) (\<lambda>(s2, out). Inr (s2, d @ out)))"

fun op_of :: "bytes \<Rightarrow> sink_op \<Rightarrow> bool" where
  "op_of S (Push data index eof) \<longleftrightarrow>
     excerpt S index data \<and> (eof \<longrightarrow> index + length data = length S)"
| "op_of S (Pull n) \<longleftrightarrow> True"

fun op_range :: "sink_op \<Rightarrow> nat set" where
  "op_range (Push data index eof) = {index ..< index + length data}"
| "op_range (Pull n) = {}"

fun op_eof :: "sink_op \<Rightarrow> bool" where
  "op_eof (Push data index eof) = eof"
| "op_eof (Pull n) = False"

locale substring_sink =
  fixes push :: "'s \<Rightarrow> bytes \<Rightarrow> size_t \<Rightarrow> bool \<Rightarrow> 's result"
    and pull :: "'s \<Rightarrow> size_t \<Rightarrow> 's \<times> bytes"
    and invar :: "bytes \<Rightarrow> 's \<Rightarrow> bool"
    and cover :: "'s \<Rightarrow> nat set" and taken :: "'s \<Rightarrow> size_t" and ready :: "'s \<Rightarrow> size_t"
    and window :: "'s \<Rightarrow> size_t" and closing :: "'s \<Rightarrow> bool" and ended :: "'s \<Rightarrow> bool"
  assumes push_law: "invar S s \<Longrightarrow> op_of S (Push data index eof) \<Longrightarrow>
      push s data index eof = Inl UndefinedBehaviour \<or>
      (\<exists>s'. push s data index eof = Inr s' \<and> invar S s' \<and>
        cover s' = cover s \<union> ({index ..< index + length data} \<inter> {..< taken s + window s}) \<and>
        taken s' = taken s \<and> window s' = window s \<and> closing s' = (closing s \<or> eof))"
    and pull_law: "invar S s \<Longrightarrow> pull s n = (s', d) \<Longrightarrow>
      invar S s' \<and> d = take n (drop (taken s) (take (ready s) S)) \<and>
      cover s' = cover s \<and> taken s' = taken s + length d \<and> window s' = window s \<and>
      closing s' = closing s"
    and ready_first_gap: "invar S s \<Longrightarrow>
      {..<ready s} \<subseteq> cover s \<and> ready s \<notin> cover s \<and> taken s \<le> ready s \<and> ready s \<le> length S"
    and ended_law: "invar S s \<Longrightarrow> ended s \<longleftrightarrow> closing s \<and> ready s = length S"
begin

lemma run_prefix:
  "invar S s \<Longrightarrow> \<forall>op \<in> set ops. op_of S op \<Longrightarrow>
   sink_run push pull ops s = Inl UndefinedBehaviour \<or>
   (\<exists>s' out. sink_run push pull ops s = Inr (s', out) \<and> invar S s' \<and> window s' = window s \<and>
     excerpt S (taken s) out \<and> taken s' = taken s + length out)"
proof (induction ops arbitrary: s)
  case Nil
  then show ?case using ready_first_gap [of S s] by simp
next
  case (Cons op ops)
  show ?case
  proof (cases op)
    case (Push data index eof)
    with Cons.prems push_law [of S s data index eof] consider "push s data index eof = Inl UndefinedBehaviour"
      | s1 where "push s data index eof = Inr s1" "invar S s1" "taken s1 = taken s" "window s1 = window s"
      by auto
    then show ?thesis
    proof cases
      case 2
      with Cons.IH [of s1] Cons.prems(2) Push show ?thesis by auto
    qed (simp add: Push)
  next
    case (Pull n)
    obtain s1 d where p: "pull s n = (s1, d)" by fastforce
    note law = pull_law [OF Cons.prems(1) p]
    have d: "excerpt S (taken s) d"
      using law ready_first_gap [OF Cons.prems(1)] by (auto simp: excerpt_def drop_take min_def)
    from Cons.IH [of s1] law Cons.prems(2) consider "sink_run push pull ops s1 = Inl UndefinedBehaviour"
      | s' out where "sink_run push pull ops s1 = Inr (s', out)" "invar S s'" "window s' = window s"
        "excerpt S (taken s + length d) out" "taken s' = taken s + length d + length out"
      by auto
    then show ?thesis by cases (use p excerpt_append [OF d] in \<open>simp_all add: Pull\<close>)
  qed
qed

lemma run_pushes:
  "invar S s \<Longrightarrow> \<forall>op \<in> set ops. op_of S op \<and> (\<forall>n. op \<noteq> Pull n) \<Longrightarrow>
   length S \<le> taken s + window s \<Longrightarrow>
   sink_run push pull ops s = Inl UndefinedBehaviour \<or>
   (\<exists>s'. sink_run push pull ops s = Inr (s', []) \<and> invar S s' \<and> taken s' = taken s \<and>
     cover s' = cover s \<union> (\<Union>op \<in> set ops. op_range op) \<and>
     closing s' = (closing s \<or> (\<exists>op \<in> set ops. op_eof op)))"
proof (induction ops arbitrary: s)
  case (Cons op ops)
  then obtain data index eof where op: "op = Push data index eof" by (cases op) auto
  with Cons.prems have o: "op_of S (Push data index eof)" by simp
  then have "{index ..< index + length data} \<inter> {..< taken s + window s} = op_range op"
    using Cons.prems(3) by (auto simp: op excerpt_def)
  with push_law [OF Cons.prems(1) o] consider "push s data index eof = Inl UndefinedBehaviour"
    | s1 where "push s data index eof = Inr s1" "invar S s1" "cover s1 = cover s \<union> op_range op"
      "taken s1 = taken s" "window s1 = window s" "closing s1 = (closing s \<or> eof)"
    by auto
  then show ?case
  proof cases
    case 2
    with Cons.IH [of s1] Cons.prems(2,3) op show ?thesis by auto
  qed (simp add: op)
qed auto

lemma run_complete:
  assumes s: "invar S s" "length S \<le> taken s + window s"
    and ops: "\<forall>op \<in> set ops. op_of S op \<and> (\<forall>n. op \<noteq> Pull n)"
    and all: "{..<length S} \<subseteq> (\<Union>op \<in> set ops. op_range op)" "\<exists>op \<in> set ops. op_eof op"
  shows "sink_run push pull ops s = Inl UndefinedBehaviour \<or>
    (\<exists>s'. sink_run push pull ops s = Inr (s', []) \<and> invar S s' \<and> taken s' = taken s \<and>
      ready s' = length S \<and> ended s')"
proof -
  from run_pushes [OF s(1) ops s(2)] all(2) consider "sink_run push pull ops s = Inl UndefinedBehaviour"
    | s' where "sink_run push pull ops s = Inr (s', [])" "invar S s'" "taken s' = taken s"
      "cover s' = cover s \<union> (\<Union>op \<in> set ops. op_range op)" "closing s'"
    by auto
  then show ?thesis
  proof cases
    case s': 2
    have "ready s' \<notin> (\<Union>op \<in> set ops. op_range op)" "ready s' \<le> length S"
      using ready_first_gap [OF s'(2)] s'(4) by auto
    with all(1) have "ready s' = length S" by (metis lessThan_iff order.not_eq_order_implies_strict subsetD)
    with s' ended_law [OF s'(2)] show ?thesis by auto
  qed simp
qed

end

section \<open>Undefined operations\<close>

text \<open>
  A platform only decides whether a call gets past the undefined operations, not what it does then:
  on every platform \<open>push_substring\<close> is undefined or has the result it has on the one that gets past
  all of them. The proofs below follow that one. (\<open>2 ^ 64\<close> lies beyond every position.) On
  \<open>stl_strict\<close> an undefined operation is never survived, as the standard has it.
\<close>

definition stl_ideal :: stl_env where
  "stl_ideal = \<lparr>end_start = (\<lambda>r. Some (2 ^ 64)), erased_succ = (\<lambda>L x R. True)\<rparr>"

definition stl_strict :: stl_env where
  "stl_strict = \<lparr>end_start = (\<lambda>r. None), erased_succ = (\<lambda>L x R. False)\<rparr>"

lemma stl_simps [simp]:
  "end_start stl_ideal r = Some (2 ^ 64)" "erased_succ stl_ideal L x R"
  "end_start stl_strict r = None" "\<not> erased_succ stl_strict L x R"
  by (simp_all add: stl_ideal_def stl_strict_def)

lemma insert_loop_follows [ub_intros]:
  "ub_or (StreamReassembler_insert_loop env segs it tmp start sz n)
     (StreamReassembler_insert_loop stl_ideal segs it tmp start sz n)"
proof (induction segs arbitrary: it tmp n rule: measure_induct_rule [of length])
  case (less segs)
  show ?case
    unfolding StreamReassembler_insert_loop.simps [of env segs] StreamReassembler_insert_loop.simps [of stl_ideal segs] Let_def
    by (intro ub_or_if ub_or_bind ub_or_refl) (auto intro!: ub_or_refl ub_or_undefined less)
qed

lemma insert_follows [ub_intros]: "ub_or (StreamReassembler_insert env r s) (StreamReassembler_insert stl_ideal r s)"
  unfolding StreamReassembler_insert_def Let_def
  by (intro ub_intros) (auto simp: ub_or_undefined intro!: ub_or_bind ub_or_refl insert_loop_follows)

lemma assemble_follows [ub_intros]:
  "pos < 2 ^ 64 \<Longrightarrow> ub_or (StreamReassembler_assemble env pos segs r) (StreamReassembler_assemble stl_ideal pos segs r)"
proof (induction segs arbitrary: r)
  case Nil
  then show ?case by (auto simp: ub_or_def split: option.split)
next
  case (Cons x segs)
  then show ?case by (auto intro!: ub_or_bind ub_or_refl)
qed

lemma push_follows:
  "ub_or (StreamReassembler_push_substring env r data index eof)
     (StreamReassembler_push_substring stl_ideal r data index eof)"
  unfolding StreamReassembler_push_substring_def Let_def
  by (intro ub_intros) simp_all

section \<open>Segments\<close>

definition sg_hi :: "segment \<Rightarrow> size_t" where
  "sg_hi x = sg_start x + length (sg_data x)"

definition seg_bytes :: "segment list \<Rightarrow> size_t" where
  "seg_bytes segs = sum_list (map (length \<circ> sg_data) segs)"

definition seg_cover :: "segment list \<Rightarrow> nat set" where
  "seg_cover segs = (\<Union>x \<in> set segs. {sg_start x ..< sg_hi x})"

definition wf_segs :: "bytes \<Rightarrow> size_t \<Rightarrow> size_t \<Rightarrow> segment list \<Rightarrow> bool" where
  "wf_segs S w lim segs \<longleftrightarrow>
     sorted_wrt (\<lambda>x y. sg_hi x < sg_start y) segs \<and>
     (\<forall>x \<in> set segs. excerpt S (sg_start x) (sg_data x) \<and> w < sg_start x \<and> sg_hi x \<le> lim)"

lemma sg_end_exact: "excerpt S (sg_start x) (sg_data x) \<Longrightarrow> length S < 2 ^ 64 \<Longrightarrow> sg_end x = sg_hi x"
  by (simp add: excerpt_def sg_end_def sg_hi_def add64_exact)

lemma seg_cover_simps [simp]:
  "seg_cover [] = {}"
  "seg_cover (x # xs) = {sg_start x ..< sg_hi x} \<union> seg_cover xs"
  "seg_cover (xs @ ys) = seg_cover xs \<union> seg_cover ys"
  by (auto simp: seg_cover_def)

lemma seg_bytes_simps [simp]:
  "seg_bytes [] = 0"
  "seg_bytes (x # xs) = length (sg_data x) + seg_bytes xs"
  "seg_bytes (xs @ ys) = seg_bytes xs + seg_bytes ys"
  by (simp_all add: seg_bytes_def)

lemma wf_segs_simps:
  "wf_segs S w lim []"
  "wf_segs S w lim (x # xs) \<longleftrightarrow>
     excerpt S (sg_start x) (sg_data x) \<and> w < sg_start x \<and> sg_hi x \<le> lim \<and>
     (\<forall>y \<in> set xs. sg_hi x < sg_start y) \<and> wf_segs S w lim xs"
  by (auto simp: wf_segs_def)

lemma wf_segs_append:
  "wf_segs S w lim (xs @ ys) \<longleftrightarrow>
     wf_segs S w lim xs \<and> wf_segs S w lim ys \<and>
     (\<forall>x \<in> set xs. \<forall>y \<in> set ys. sg_hi x < sg_start y)"
  by (auto simp: wf_segs_def sorted_wrt_append)

lemma seg_bytes_bound: "wf_segs S w lim segs \<Longrightarrow> w \<le> lim \<Longrightarrow> w + seg_bytes segs \<le> lim"
proof (induction segs arbitrary: w)
  case Nil
  then show ?case by simp
next
  case (Cons x xs)
  then have "wf_segs S (sg_hi x) lim xs" by (auto simp: wf_segs_simps wf_segs_def)
  with Cons.IH [of "sg_hi x"] Cons.prems show ?case by (auto simp: wf_segs_simps sg_hi_def)
qed

lemma set_insert_between:
  assumes "\<forall>x \<in> set L. sg_start x < sg_start s" "\<forall>x \<in> set R. sg_start s < sg_start x"
  shows "set_insert s (L @ R) = L @ s # R"
  using assms
proof (induction L)
  case Nil
  then show ?case by (cases R) auto
qed auto

lemma sg_start_le_hi: "sg_start x \<le> sg_hi x" by (simp add: sg_hi_def)

lemma insert_loop_stop:
  assumes "\<forall>l \<in> set L. sg_hi l < sg_start tmp" "\<forall>x \<in> set R. add64 start sz < sg_start x \<and> sg_start tmp < sg_start x"
  shows "StreamReassembler_insert_loop stl_ideal (L @ R) (length L) tmp start sz n =
    Inr (L @ tmp # R, add64 n (length (sg_data tmp)))"
proof -
  have "\<not> (length L < length (L @ R) \<and> sg_start ((L @ R) ! length L) \<le> add64 start sz)"
    using assms(2) by (cases R) auto
  moreover have "set_insert tmp (L @ R) = L @ tmp # R"
    using assms sg_start_le_hi by (intro set_insert_between) (auto intro: le_less_trans)
  ultimately show ?thesis by (subst StreamReassembler_insert_loop.simps) auto
qed

lemma insert_loop_step:
  assumes "sg_start x \<le> add64 start sz"
  shows "StreamReassembler_insert_loop stl_ideal (L @ x # R) (length L) tmp start sz n =
    (if start \<ge> sg_start x \<and> add64 start sz \<le> sg_end x then Inr (L @ x # R, n)
     else
       bindR
         (if add64 start sz < sg_end x
          then bindR (substr_from (sg_data x) (sub64 (add64 start sz) (sg_start x)))
                 (\<lambda>d. Inr (tmp\<lparr>sg_data := sg_data tmp @ d\<rparr>))
          else Inr tmp)
         (\<lambda>tmp'. StreamReassembler_insert_loop stl_ideal (L @ R) (length L) tmp' start sz
            (sub64 n (length (sg_data x)))))"
  using assms by (subst StreamReassembler_insert_loop.simps) (simp add: Let_def)

lemma insert_loop_place:
  assumes wf: "wf_segs S w lim (L @ R)" "excerpt S (sg_start tmp) (sg_data tmp)"
      "w < sg_start tmp" "sg_hi tmp \<le> lim" "\<forall>l \<in> set L. sg_hi l < sg_start tmp"
      "\<forall>x \<in> set R. sg_hi tmp < sg_start x"
    and e: "add64 start sz \<le> sg_hi tmp" and lim: "w \<le> lim" "lim < 2 ^ 64"
  shows "StreamReassembler_insert_loop stl_ideal (L @ R) (length L) tmp start sz (seg_bytes (L @ R)) =
      Inr (L @ tmp # R, seg_bytes (L @ tmp # R)) \<and> wf_segs S w lim (L @ tmp # R)"
proof
  show "wf_segs S w lim (L @ tmp # R)"
    using wf by (auto simp: wf_segs_append wf_segs_simps)
  from seg_bytes_bound [OF this lim(1)] lim(2)
  have "add64 (seg_bytes (L @ R)) (length (sg_data tmp)) = seg_bytes (L @ tmp # R)"
    by (simp add: add64_exact)
  moreover have "\<forall>x \<in> set R. add64 start sz < sg_start x \<and> sg_start tmp < sg_start x"
    using wf(6) e sg_start_le_hi [of tmp] by fastforce
  ultimately show "StreamReassembler_insert_loop stl_ideal (L @ R) (length L) tmp start sz
      (seg_bytes (L @ R)) = Inr (L @ tmp # R, seg_bytes (L @ tmp # R))"
    using insert_loop_stop [OF wf(5)] by simp
qed

lemma insert_loop_extend:
  assumes S: "length S < 2 ^ 64" and lim: "w \<le> lim" "lim < 2 ^ 64"
    and tmp: "excerpt S (sg_start tmp) (sg_data tmp)" "w < sg_start tmp" "sg_hi tmp \<le> lim"
      "\<forall>l \<in> set L. sg_hi l < sg_start tmp"
    and wf: "wf_segs S w lim (L @ x # R)" and lo: "sg_start tmp \<le> sg_start x"
    and extend: "sg_start x \<le> sg_hi tmp" "sg_hi tmp < sg_hi x"
      "\<not> (sg_start tmp \<ge> sg_start x \<and> sg_hi tmp \<le> sg_hi x)"
  shows "\<exists>segs. StreamReassembler_insert_loop stl_ideal (L @ x # R) (length L) tmp (sg_start tmp)
        (length (sg_data tmp)) (seg_bytes (L @ x # R)) = Inr (segs, seg_bytes segs) \<and>
      wf_segs S w lim segs \<and>
      seg_cover segs = seg_cover (L @ x # R) \<union> {sg_start tmp ..< sg_hi tmp}"
proof -
  let ?e = "add64 (sg_start tmp) (length (sg_data tmp))"
  have e: "?e = sg_hi tmp" using sg_end_exact [OF tmp(1) S] by (simp add: sg_end_def)
  have x: "excerpt S (sg_start x) (sg_data x)" "w < sg_start x" "sg_hi x \<le> lim"
    "\<forall>y \<in> set R. sg_hi x < sg_start y" "wf_segs S w lim (L @ R)" "sg_end x = sg_hi x"
    using wf S by (auto simp: wf_segs_append wf_segs_simps sg_end_exact)
  have n: "sub64 (seg_bytes (L @ x # R)) (length (sg_data x)) = seg_bytes (L @ R)"
    using seg_bytes_bound [OF wf lim(1)] lim(2) by (simp add: sub64_exact)
  define tmp' where "tmp' = tmp\<lparr>sg_data := sg_data tmp @ drop (sg_hi tmp - sg_start x) (sg_data x)\<rparr>"
  have tmp': "excerpt S (sg_start tmp') (sg_data tmp')" "sg_start tmp' = sg_start tmp"
    "sg_hi tmp' = sg_hi x"
    using excerptI_join [OF tmp(1) x(1) lo] extend unfolding tmp'_def by (auto simp: sg_hi_def)
  have "sub64 (sg_hi tmp) (sg_start x) = sg_hi tmp - sg_start x"
    "sg_hi tmp - sg_start x \<le> length (sg_data x)"
    using extend(1,2) tmp(3) lim(2) by (simp_all add: sub64_exact sg_hi_def)
  with insert_loop_step [of x "sg_start tmp" "length (sg_data tmp)" L R tmp
      "seg_bytes (L @ x # R)", unfolded e n x(6)] extend
  have "StreamReassembler_insert_loop stl_ideal (L @ x # R) (length L) tmp (sg_start tmp)
      (length (sg_data tmp)) (seg_bytes (L @ x # R)) =
    StreamReassembler_insert_loop stl_ideal (L @ R) (length L) tmp' (sg_start tmp)
      (length (sg_data tmp)) (seg_bytes (L @ R))"
    by (auto simp: tmp'_def)
  moreover have "?e \<le> sg_hi tmp'" using e extend(2) tmp'(3) by simp
  from insert_loop_place [OF x(5) tmp'(1) _ _ _ _ this lim] tmp tmp' x
  have "StreamReassembler_insert_loop stl_ideal (L @ R) (length L) tmp' (sg_start tmp)
      (length (sg_data tmp)) (seg_bytes (L @ R)) = Inr (L @ tmp' # R, seg_bytes (L @ tmp' # R)) \<and>
    wf_segs S w lim (L @ tmp' # R)" by simp
  moreover have "seg_cover (L @ tmp' # R) = seg_cover (L @ x # R) \<union> {sg_start tmp ..< sg_hi tmp}"
    using lo extend tmp' by auto
  ultimately show ?thesis by auto
qed

lemma insert_loop_merges:
  assumes S: "length S < 2 ^ 64" and lim: "w \<le> lim" "lim < 2 ^ 64"
    and tmp: "excerpt S (sg_start tmp) (sg_data tmp)" "w < sg_start tmp" "sg_hi tmp \<le> lim"
      "\<forall>l \<in> set L. sg_hi l < sg_start tmp"
  shows "wf_segs S w lim (L @ R) \<Longrightarrow> \<forall>x \<in> set R. sg_start tmp \<le> sg_start x \<Longrightarrow>
    \<exists>segs. StreamReassembler_insert_loop stl_ideal (L @ R) (length L) tmp (sg_start tmp)
        (length (sg_data tmp)) (seg_bytes (L @ R)) = Inr (segs, seg_bytes segs) \<and>
      wf_segs S w lim segs \<and>
      seg_cover segs = seg_cover (L @ R) \<union> {sg_start tmp ..< sg_hi tmp}"
proof (induction R)
  let ?e = "add64 (sg_start tmp) (length (sg_data tmp))"
  have e: "?e = sg_hi tmp" using sg_end_exact [OF tmp(1) S] by (simp add: sg_end_def)
  {
    case Nil
    from insert_loop_place [OF Nil.prems(1) tmp _ eq_refl [OF e] lim] show ?case by auto
  }
  case (Cons x R)
  have x: "excerpt S (sg_start x) (sg_data x)" "w < sg_start x" "sg_hi x \<le> lim"
    "\<forall>y \<in> set R. sg_hi x < sg_start y" "wf_segs S w lim (L @ R)" "sg_end x = sg_hi x"
    using Cons.prems(1) S by (auto simp: wf_segs_append wf_segs_simps sg_end_exact)
  have sub: "sub64 (seg_bytes (L @ x # R)) (length (sg_data x)) = seg_bytes (L @ R)"
    using seg_bytes_bound [OF Cons.prems(1) lim(1)] lim(2) by (simp add: sub64_exact)
  note step = insert_loop_step [of x "sg_start tmp" "length (sg_data tmp)" L R tmp
      "seg_bytes (L @ x # R)", unfolded e sub x(6)]
  consider (gap) "sg_hi tmp < sg_start x"
    | (inside) "sg_start x \<le> sg_hi tmp" "sg_start tmp \<ge> sg_start x" "sg_hi tmp \<le> sg_hi x"
    | (extend) "sg_start x \<le> sg_hi tmp" "sg_hi tmp < sg_hi x"
        "\<not> (sg_start tmp \<ge> sg_start x \<and> sg_hi tmp \<le> sg_hi x)"
    | (absorb) "sg_start x \<le> sg_hi tmp" "sg_hi x \<le> sg_hi tmp"
        "\<not> (sg_start tmp \<ge> sg_start x \<and> sg_hi tmp \<le> sg_hi x)"
    by linarith
  then show ?case
  proof cases
    case gap
    then have "\<forall>y \<in> set (x # R). sg_hi tmp < sg_start y" 
      using x(4) sg_start_le_hi [of x] by fastforce
    from insert_loop_place [OF Cons.prems(1) tmp this eq_refl [OF e] lim]
    show ?thesis by auto
  next
    case inside
    then have "seg_cover (L @ x # R) \<union> {sg_start tmp ..< sg_hi tmp} = seg_cover (L @ x # R)" by auto
    then show ?thesis using inside step Cons.prems(1) by auto
  next
    case absorb
    from Cons.IH [OF x(5)] Cons.prems(2) step absorb
    obtain segs where "StreamReassembler_insert_loop stl_ideal (L @ x # R) (length L) tmp (sg_start tmp)
        (length (sg_data tmp)) (seg_bytes (L @ x # R)) = Inr (segs, seg_bytes segs)"
      "wf_segs S w lim segs" "seg_cover segs = seg_cover (L @ R) \<union> {sg_start tmp ..< sg_hi tmp}"
      by auto
    moreover have "{sg_start x ..< sg_hi x} \<subseteq> {sg_start tmp ..< sg_hi tmp}"
      using Cons.prems(2) absorb(2) by auto
    then have "seg_cover (L @ R) \<union> {sg_start tmp ..< sg_hi tmp} =
      seg_cover (L @ x # R) \<union> {sg_start tmp ..< sg_hi tmp}" by (simp only: seg_cover_simps) blast
    ultimately show ?thesis by (intro exI [of _ segs]) simp
  next
    case extend
    with insert_loop_extend [OF S lim tmp Cons.prems(1)] Cons.prems(2) show ?thesis by auto
  qed
qed

lemma lower_bound_split:
  assumes "wf_segs S w lim segs"
  shows "\<forall>x \<in> set (takeWhile (\<lambda>x. sg_start x < k) segs). sg_start x < k"
    and "\<forall>x \<in> set (dropWhile (\<lambda>x. sg_start x < k) segs). k \<le> sg_start x"
proof -
  show "\<forall>x \<in> set (takeWhile (\<lambda>x. sg_start x < k) segs). sg_start x < k"
    by (auto dest: set_takeWhileD)
  show "\<forall>x \<in> set (dropWhile (\<lambda>x. sg_start x < k) segs). k \<le> sg_start x"
    using assms
  proof (induction segs)
    case (Cons y ys)
    then show ?case using sg_start_le_hi [of y] by (auto simp: wf_segs_simps)
  qed simp
qed

section \<open>Inserting into the set of segments\<close>

lemma apart_from_left:
  assumes "wf_segs S w lim (L @ R)" "\<not> (L \<noteq> [] \<and> k \<le> sg_end (last L))" "length S < 2 ^ 64"
  shows "\<forall>l \<in> set L. sg_hi l < k"
proof (cases L rule: rev_cases)
  case (snoc L' x)
  with assms(1) have "\<forall>l \<in> set L'. sg_hi l < sg_start x" "excerpt S (sg_start x) (sg_data x)"
    by (auto simp: wf_segs_append wf_segs_simps)
  moreover from this(2) assms(2) snoc have "sg_hi x < k"
    using sg_end_exact [OF _ assms(3)] by simp
  ultimately show ?thesis using snoc sg_start_le_hi [of x] by fastforce
qed simp

lemma insert_apart:
  assumes S: "length S < 2 ^ 64" and lim: "w \<le> lim" "lim < 2 ^ 64"
    and r: "sr_segments r = L @ R" "wf_segs S w lim (L @ R)"
      "sr_unassembled_byte r = seg_bytes (L @ R)" "L @ R \<noteq> []"
    and s: "excerpt S (sg_start s) (sg_data s)" "w < sg_start s" "sg_hi s \<le> lim"
    and split: "takeWhile (\<lambda>x. sg_start x < sg_start s) (L @ R) = L"
      "dropWhile (\<lambda>x. sg_start x < sg_start s) (L @ R) = R"
    and apart: "\<not> (L \<noteq> [] \<and> sg_start s \<le> sg_end (last L))"
  shows "\<exists>segs. StreamReassembler_insert stl_ideal r s =
      Inr (r\<lparr>sr_segments := segs, sr_unassembled_byte := seg_bytes segs\<rparr>) \<and>
    wf_segs S w lim segs \<and> seg_cover segs = seg_cover (L @ R) \<union> {sg_start s ..< sg_hi s}"
proof -
  note left = apart_from_left [OF r(2) apart S]
  from insert_loop_merges [OF S lim s left, of R] r(2)
    lower_bound_split(2) [OF r(2), of "sg_start s", unfolded split]
  obtain segs where "StreamReassembler_insert_loop stl_ideal (L @ R) (length L) s (sg_start s)
      (length (sg_data s)) (seg_bytes (L @ R)) = Inr (segs, seg_bytes segs)"
    "wf_segs S w lim segs" "seg_cover segs = seg_cover (L @ R) \<union> {sg_start s ..< sg_hi s}"
    by auto
  moreover have "StreamReassembler_insert stl_ideal r s =
      bindR (StreamReassembler_insert_loop stl_ideal (L @ R) (length L) s (sg_start s)
        (length (sg_data s)) (seg_bytes (L @ R)))
      (\<lambda>(segs', n). Inr (r\<lparr>sr_segments := segs', sr_unassembled_byte := n\<rparr>))"
    using apart r(4)
    by (auto simp: StreamReassembler_insert_def Let_def comp_def split_def r(1,3) split)
  ultimately show ?thesis by (intro exI [of _ segs]) simp
qed

lemma insert_touching:
  assumes S: "length S < 2 ^ 64" and lim: "w \<le> lim" "lim < 2 ^ 64"
    and r: "sr_segments r = L @ x # R" "wf_segs S w lim (L @ x # R)"
      "sr_unassembled_byte r = seg_bytes (L @ x # R)"
    and s: "excerpt S (sg_start s) (sg_data s)" "sg_hi s \<le> lim" "sg_start x < sg_start s"
    and split: "takeWhile (\<lambda>x. sg_start x < sg_start s) (L @ x # R) = L @ [x]"
      "dropWhile (\<lambda>x. sg_start x < sg_start s) (L @ x # R) = R"
    and touch: "sg_start s \<le> sg_hi x" "sg_hi x < sg_hi s"
  shows "\<exists>segs. StreamReassembler_insert stl_ideal r s =
      Inr (r\<lparr>sr_segments := segs, sr_unassembled_byte := seg_bytes segs\<rparr>) \<and>
    wf_segs S w lim segs \<and> seg_cover segs = seg_cover (L @ x # R) \<union> {sg_start s ..< sg_hi s}"
proof -
  have x: "excerpt S (sg_start x) (sg_data x)" "w < sg_start x" "\<forall>l \<in> set L. sg_hi l < sg_start x"
    "\<forall>y \<in> set R. sg_hi x < sg_start y" "wf_segs S w lim (L @ R)" "sg_hi x \<le> lim"
    using r(2) by (auto simp: wf_segs_append wf_segs_simps)
  note ends = sg_end_exact [OF x(1) S] sg_end_exact [OF s(1) S, unfolded sg_end_def]
  define d where "d = drop (sg_hi x - sg_start s) (sg_data s)"
  define tmp where "tmp = \<lparr>sg_data = sg_data x @ d, sg_start = sg_start x\<rparr>"
  have tmp: "excerpt S (sg_start tmp) (sg_data tmp)" "w < sg_start tmp" "sg_hi tmp \<le> lim"
    "\<forall>l \<in> set L. sg_hi l < sg_start tmp" "sg_hi tmp = sg_hi s" "sg_start tmp = sg_start x"
    using excerptI_join [OF x(1) s(1)] x touch s(2,3) by (auto simp: tmp_def d_def sg_hi_def)
  have "sub64 (sg_hi x) (sg_start s) = sg_hi x - sg_start s" "sg_hi x - sg_start s \<le> length (sg_data s)"
    using touch x(6) lim(2) by (simp_all add: sub64_exact sg_hi_def)
  then have sub: "substr_from (sg_data s) (sub64 (sg_hi x) (sg_start s)) = Inr d"
    by (simp add: d_def)
  have n: "sub64 (sr_unassembled_byte r) (length (sg_data x)) = seg_bytes (L @ R)"
    using seg_bytes_bound [OF r(2) lim(1)] lim(2) r(3) by (simp add: sub64_exact)
  have "\<forall>y \<in> set R. sg_start tmp \<le> sg_start y"
    using x(4) tmp(6) sg_start_le_hi [of x] by fastforce
  from insert_loop_merges [OF S lim tmp(1-4) x(5) this]
  obtain segs where "StreamReassembler_insert_loop stl_ideal (L @ R) (length L) tmp (sg_start tmp)
      (length (sg_data tmp)) (seg_bytes (L @ R)) = Inr (segs, seg_bytes segs)"
    "wf_segs S w lim segs" "seg_cover segs = seg_cover (L @ R) \<union> {sg_start tmp ..< sg_hi tmp}"
    by auto
  moreover have "StreamReassembler_insert stl_ideal r s =
      bindR (StreamReassembler_insert_loop stl_ideal (L @ R) (length L) tmp (sg_start tmp)
        (length (sg_data tmp)) (seg_bytes (L @ R)))
      (\<lambda>(segs', n). Inr (r\<lparr>sr_segments := segs', sr_unassembled_byte := n\<rparr>))"
    using touch n
    by (simp add: StreamReassembler_insert_def Let_def comp_def split_def r(1) split ends sub
        tmp_def)
  moreover have "seg_cover (L @ R) \<union> {sg_start tmp ..< sg_hi tmp} =
      seg_cover (L @ x # R) \<union> {sg_start s ..< sg_hi s}"
    using touch s(3) tmp(5,6) by auto
  ultimately show ?thesis by (intro exI [of _ segs]) simp
qed

lemma insert_correct:
  assumes S: "length S < 2 ^ 64" and lim: "w \<le> lim" "lim < 2 ^ 64"
    and r: "wf_segs S w lim (sr_segments r)" "sr_unassembled_byte r = seg_bytes (sr_segments r)"
    and s: "excerpt S (sg_start s) (sg_data s)" "w < sg_start s" "sg_hi s \<le> lim"
  shows "\<exists>segs. StreamReassembler_insert stl_ideal r s =
      Inr (r\<lparr>sr_segments := segs, sr_unassembled_byte := seg_bytes segs\<rparr>) \<and>
    wf_segs S w lim segs \<and>
    seg_cover segs = seg_cover (sr_segments r) \<union> {sg_start s ..< sg_hi s}"
proof (cases "sr_segments r = []")
  case True
  have "add64 0 (length (sg_data s)) = length (sg_data s)"
    using s(3) lim(2) by (simp add: add64_exact sg_hi_def)
  then have "StreamReassembler_insert stl_ideal r s =
    Inr (r\<lparr>sr_segments := [s], sr_unassembled_byte := seg_bytes [s]\<rparr>)"
    using True r(2) by (simp add: StreamReassembler_insert_def Let_def)
  then show ?thesis using True s by (intro exI [of _ "[s]"]) (simp add: wf_segs_simps)
next
  case nonempty: False
  define L R where "L = takeWhile (\<lambda>x. sg_start x < sg_start s) (sr_segments r)"
    and "R = dropWhile (\<lambda>x. sg_start x < sg_start s) (sr_segments r)"
  have segs: "sr_segments r = L @ R" by (simp add: L_def R_def)
  note split = L_def [symmetric, unfolded segs] R_def [symmetric, unfolded segs]
  show ?thesis
  proof (cases "L \<noteq> [] \<and> sg_start s \<le> sg_end (last L)")
    case False
    with insert_apart [OF S lim segs r [unfolded segs] _ s split] nonempty segs
    show ?thesis by simp
  next
    case True
    obtain L' x where L: "L = L' @ [x]" using True by (cases L rule: rev_cases) auto
    have x: "excerpt S (sg_start x) (sg_data x)" "sg_start x < sg_start s"
      using r(1) lower_bound_split(1) [OF r(1), of "sg_start s", folded L_def]
      by (auto simp: segs L wf_segs_append wf_segs_simps)
    note ends = sg_end_exact [OF x(1) S] sg_end_exact [OF s(1) S, unfolded sg_end_def]
    have touch: "sg_start s \<le> sg_hi x" using True by (simp add: L ends)
    show ?thesis
    proof (cases "sg_hi s \<le> sg_hi x")
      case True
      then have "StreamReassembler_insert stl_ideal r s = Inr r"
        using nonempty touch L
        by (simp add: StreamReassembler_insert_def Let_def ends flip: L_def R_def)
      moreover have "seg_cover (L @ R) \<union> {sg_start s ..< sg_hi s} = seg_cover (L @ R)"
        using True x(2) by (auto simp: L)
      ultimately show ?thesis using r segs by (intro exI [of _ "L @ R"]) auto
    next
      case False
      with insert_touching [OF S lim _ _ _ s(1,3) x(2) _ _ touch] r segs split
      show ?thesis by (simp add: L)
    qed
  qed
qed

section \<open>The output stream\<close>

definition out_ok :: "bytes \<Rightarrow> byte_stream \<Rightarrow> bool" where
  "out_ok S s \<longleftrightarrow> bs_inv s \<and> excerpt S (bs_read s) (bs_buf s) \<and> bs_read s + bs_cap s < 2 ^ 64"

lemma out_ok_written: "out_ok S s \<Longrightarrow> bs_written s = bs_read s + length (bs_buf s)"
  by (auto simp: out_ok_def bs_inv_def add64_exact)

lemma out_ok_written_le: "out_ok S s \<Longrightarrow> bs_written s \<le> length S \<and> bs_written s \<le> bs_read s + bs_cap s"
  by (auto simp: out_ok_written) (auto simp: out_ok_def bs_inv_def excerpt_def)

lemma write_out_ok:
  assumes "out_ok S s" "excerpt S (bs_written s) d" "bs_written s + length d \<le> bs_read s + bs_cap s"
  shows "fst (ByteStream_write s d) =
      s\<lparr>bs_buf := bs_buf s @ d, bs_written := bs_written s + length d\<rparr>"
    and "out_ok S (fst (ByteStream_write s d))"
proof -
  have inv: "bs_inv s" using assms(1) by (simp add: out_ok_def)
  note w = out_ok_written [OF assms(1)]
  have bw: "min (length d) (bs_cap s - length (bs_buf s)) = length d" using assms(3) w by simp
  have "add64 (bs_written s) (length d) = bs_written s + length d"
    using assms(1,3) by (simp add: out_ok_def add64_exact)
  then show eq: "fst (ByteStream_write s d) =
      s\<lparr>bs_buf := bs_buf s @ d, bs_written := bs_written s + length d\<rparr>"
    by (simp only: write_exact [OF inv] bw) (simp add: Let_def)
  show "out_ok S (fst (ByteStream_write s d))"
    using assms(1,2) excerpt_append [of S "bs_read s" "bs_buf s" d] bs_inv_write [OF inv, of d] w
    by (simp add: out_ok_def eq)
qed

lemma assemble_stop:
  assumes "pos < 2 ^ 64" "\<forall>y \<in> set xs. pos < sg_start y"
  shows "StreamReassembler_assemble stl_ideal pos xs r = Inr r"
  using assms
proof (cases xs)
  case Nil
  then show ?thesis using assms(1) by simp
qed simp

lemma wf_segs_mono: "wf_segs S w lim xs \<Longrightarrow> \<forall>x \<in> set xs. w' < sg_start x \<Longrightarrow> wf_segs S w' lim xs"
  by (auto simp: wf_segs_def)

lemma assemble_take:
  assumes S: "length S < 2 ^ 64"
    and out: "out_ok S (sr_output r)" "bs_written (sr_output r) = pos"
    and wf: "wf_segs S w (bs_read (sr_output r) + bs_cap (sr_output r)) (x # xs)"
    and r: "sr_segments r = x # xs" "sr_unassembled_byte r = seg_bytes (x # xs)"
    and x_at: "sg_start x \<le> pos" "pos < sg_hi x"
  shows "\<exists>d segs. StreamReassembler_assemble stl_ideal pos (x # xs) r =
        Inr (r\<lparr>sr_output := (sr_output r)\<lparr>bs_buf := bs_buf (sr_output r) @ d, bs_written := pos + length d\<rparr>,
               sr_segments := segs, sr_unassembled_byte := seg_bytes segs\<rparr>) \<and>
      out_ok S ((sr_output r)\<lparr>bs_buf := bs_buf (sr_output r) @ d, bs_written := pos + length d\<rparr>) \<and>
      wf_segs S (pos + length d) (bs_read (sr_output r) + bs_cap (sr_output r)) segs \<and>
      {..<pos + length d} \<union> seg_cover segs = {..<pos} \<union> seg_cover (x # xs)"
proof -
  let ?o = "sr_output r"
  have lim: "bs_read ?o + bs_cap ?o < 2 ^ 64" using out(1) by (simp add: out_ok_def)
  have pos: "pos < 2 ^ 64" "pos \<le> bs_read ?o + bs_cap ?o"
    using out_ok_written_le [OF out(1)] out(2) S by auto
  have x: "excerpt S (sg_start x) (sg_data x)" "sg_hi x \<le> bs_read ?o + bs_cap ?o"
    "\<forall>y \<in> set xs. sg_hi x < sg_start y" "wf_segs S w (bs_read ?o + bs_cap ?o) xs"
    using wf by (auto simp: wf_segs_simps)
  note x_end = sg_end_exact [OF x(1) S]
  have n: "sub64 (sr_unassembled_byte r) (length (sg_data x)) = seg_bytes xs"
    using seg_bytes_bound [OF wf] wf r(2) lim sg_start_le_hi [of x]
    by (simp add: wf_segs_simps sub64_exact)
  define d where "d = drop (pos - sg_start x) (sg_data x)"
  have d: "excerpt S pos d" "pos + length d = sg_hi x"
    using excerpt_drop [OF x(1), of "pos - sg_start x"] x_at by (auto simp: d_def sg_hi_def)
  have "sub64 pos (sg_start x) = pos - sg_start x" "pos - sg_start x \<le> length (sg_data x)"
    using x_at pos lim by (simp_all add: sub64_exact sg_hi_def)
  then have sub: "substr_from (sg_data x) (sub64 pos (sg_start x)) = Inr d" by (simp add: d_def)
  note w = write_out_ok [OF out(1), of d, unfolded out(2), OF d(1)]
  have "StreamReassembler_assemble stl_ideal pos (x # xs) r = StreamReassembler_assemble stl_ideal pos xs
      (r\<lparr>sr_output := ?o\<lparr>bs_buf := bs_buf ?o @ d, bs_written := pos + length d\<rparr>,
         sr_segments := xs, sr_unassembled_byte := seg_bytes xs\<rparr>)"
    using x_at w(1) d(2) x(2) by (simp add: x_end n sub)
  also have "\<dots> = Inr (r\<lparr>sr_output := ?o\<lparr>bs_buf := bs_buf ?o @ d, bs_written := pos + length d\<rparr>,
         sr_segments := xs, sr_unassembled_byte := seg_bytes xs\<rparr>)"
    using x(3) x_at by (intro assemble_stop [OF pos(1)]) auto
  finally show ?thesis
    using w d(2) x x_at by (intro exI [of _ d] exI [of _ xs]) (auto intro: wf_segs_mono)
qed

lemma assemble_correct:
  assumes S: "length S < 2 ^ 64"
  shows "out_ok S (sr_output r) \<Longrightarrow> bs_written (sr_output r) = pos \<Longrightarrow>
    wf_segs S w (bs_read (sr_output r) + bs_cap (sr_output r)) xs \<Longrightarrow> 
    sr_segments r = xs \<Longrightarrow> sr_unassembled_byte r = seg_bytes xs \<Longrightarrow>
    \<exists>d segs. StreamReassembler_assemble stl_ideal pos xs r =
        Inr (r\<lparr>sr_output := (sr_output r)\<lparr>bs_buf := bs_buf (sr_output r) @ d, bs_written := pos + length d\<rparr>,
               sr_segments := segs, sr_unassembled_byte := seg_bytes segs\<rparr>) \<and>
      out_ok S ((sr_output r)\<lparr>bs_buf := bs_buf (sr_output r) @ d, bs_written := pos + length d\<rparr>) \<and>
      wf_segs S (pos + length d) (bs_read (sr_output r) + bs_cap (sr_output r)) segs \<and>
      {..<pos + length d} \<union> seg_cover segs = {..<pos} \<union> seg_cover xs"
proof (induction xs arbitrary: r)
  case Nil
  have "pos < 2 ^ 64" using out_ok_written_le [OF Nil.prems(1)] Nil.prems(2) S by simp
  then have "StreamReassembler_assemble stl_ideal pos [] r = Inr r" by (intro assemble_stop) auto
  with Nil show ?case by (intro exI [of _ "[]"]) (auto simp: wf_segs_simps)
next
  case (Cons x xs)
  let ?o = "sr_output r"
  have pos: "pos < 2 ^ 64" "pos \<le> bs_read ?o + bs_cap ?o"
    using out_ok_written_le [OF Cons.prems(1)] Cons.prems(2) S by auto
  have lim: "bs_read ?o + bs_cap ?o < 2 ^ 64" using Cons.prems(1) by (simp add: out_ok_def)
  have x: "excerpt S (sg_start x) (sg_data x)" "sg_hi x \<le> bs_read ?o + bs_cap ?o"
    "\<forall>y \<in> set xs. sg_hi x < sg_start y" "wf_segs S w (bs_read ?o + bs_cap ?o) xs"
    using Cons.prems(3) by (auto simp: wf_segs_simps)
  note x_end = sg_end_exact [OF x(1) S]
  have n: "sub64 (sr_unassembled_byte r) (length (sg_data x)) = seg_bytes xs"
    using seg_bytes_bound [OF Cons.prems(3)] Cons.prems(3,5) lim sg_start_le_hi [of x]
    by (simp add: wf_segs_simps sub64_exact)
  show ?case
  proof (cases "sg_start x \<le> pos")
    case False
    then have "\<forall>y \<in> set (x # xs). pos < sg_start y" using x(3) sg_start_le_hi [of x] by fastforce
    with assemble_stop [OF pos(1), of "x # xs" r] wf_segs_mono [OF Cons.prems(3), of pos]
      Cons.prems
    show ?thesis by (intro exI [of _ "[] :: bytes"] exI [of _ "x # xs"]) auto
  next
    case start: True
    show ?thesis
    proof (cases "pos < sg_hi x")
      case False
      define r' where "r' = r\<lparr>sr_segments := xs, sr_unassembled_byte := seg_bytes xs\<rparr>"
      have "StreamReassembler_assemble stl_ideal pos (x # xs) r = StreamReassembler_assemble stl_ideal pos xs r'"
        using start False by (simp add: x_end n r'_def)
      moreover have "{..<pos} \<union> seg_cover (x # xs) = {..<pos} \<union> seg_cover xs" using False by auto
      ultimately show ?thesis
        using Cons.IH [of r'] Cons.prems x(4) by (simp add: r'_def)
    next
      case True
      with assemble_take [OF S Cons.prems start] x(3) x_end show ?thesis by auto
    qed
  qed
qed

section \<open>The invariant\<close>

definition sr_inv :: "bytes \<Rightarrow> stream_reassembler \<Rightarrow> bool" where
  "sr_inv S r \<longleftrightarrow>
     out_ok S (sr_output r) \<and> sr_capacity r = bs_cap (sr_output r) \<and>
     wf_segs S (bs_written (sr_output r)) (bs_read (sr_output r) + sr_capacity r) (sr_segments r) \<and>
     sr_unassembled_byte r = seg_bytes (sr_segments r) \<and>
     (sr_eof r \<longrightarrow> sr_pos_eof r = length S) \<and>
     bs_eof (sr_output r) = (sr_eof r \<and> bs_written (sr_output r) = length S)"

definition sr_cover :: "stream_reassembler \<Rightarrow> nat set" where
  "sr_cover r = {..<bs_written (sr_output r)} \<union> seg_cover (sr_segments r)"

text \<open>everything but the end-of-file judgement\<close>
definition sr_core :: "bytes \<Rightarrow> stream_reassembler \<Rightarrow> bool" where
  "sr_core S r \<longleftrightarrow>
     out_ok S (sr_output r) \<and> sr_capacity r = bs_cap (sr_output r) \<and>
     wf_segs S (bs_written (sr_output r)) (bs_read (sr_output r) + sr_capacity r) (sr_segments r) \<and>
     sr_unassembled_byte r = seg_bytes (sr_segments r)"

lemma StreamReassembler_judge_eof_correct:
  assumes "sr_core S r" "length S < 2 ^ 64"
    "sr_eof r \<longrightarrow> sr_pos_eof r = length S" "bs_eof (sr_output r) \<longrightarrow> sr_eof r \<and> bs_written (sr_output r) = length S"
    "excerpt S index data" "eof \<longrightarrow> index + length data = length S"
  shows "sr_inv S (StreamReassembler_judge_eof data index eof r)" "sr_cover (StreamReassembler_judge_eof data index eof r) = sr_cover r"
    "bs_read (sr_output (StreamReassembler_judge_eof data index eof r)) = bs_read (sr_output r)"
    "sr_capacity (StreamReassembler_judge_eof data index eof r) = sr_capacity r"
    "sr_eof (StreamReassembler_judge_eof data index eof r) = (sr_eof r \<or> eof)"
  using assms
  by (auto simp: StreamReassembler_judge_eof_def Let_def sr_inv_def sr_core_def sr_cover_def out_ok_def bs_inv_def
      ByteStream_bytes_written_def ByteStream_end_input_def add64_exact)

section \<open>Pushing a substring\<close>

definition sr_pushed ::
  "bytes \<Rightarrow> stream_reassembler \<Rightarrow> bytes \<Rightarrow> size_t \<Rightarrow> stream_reassembler \<Rightarrow> bool" where
  "sr_pushed S r data index r' \<longleftrightarrow>
     sr_core S r' \<and>
     sr_cover r' = sr_cover r \<union>
       ({index ..< index + length data} \<inter> {..< bs_read (sr_output r) + sr_capacity r}) \<and>
     bs_read (sr_output r') = bs_read (sr_output r) \<and> sr_capacity r' = sr_capacity r \<and>
     sr_eof r' = sr_eof r \<and> sr_pos_eof r' = sr_pos_eof r \<and>
     bs_eof (sr_output r') = bs_eof (sr_output r) \<and>
     bs_written (sr_output r) \<le> bs_written (sr_output r')"

lemma push_unfold:
  assumes "length S < 2 ^ 64" "sr_core S r" "excerpt S index data"
    and "sd = (if lim < index + length data then take (sub64 lim index) data else data)"
    and "lim = bs_read (sr_output r) + sr_capacity r"
  shows "StreamReassembler_push_substring env r data index eof =
      (if index + length data < bs_written (sr_output r) \<or> lim \<le> index
       then Inr (StreamReassembler_judge_eof data index eof r)
       else if index \<le> bs_written (sr_output r) then
         bindR (substr_from sd (sub64 (bs_written (sr_output r)) index))
           (\<lambda>d. bindR (StreamReassembler_assemble env (add64 index (length sd)) (sr_segments r)
                    (r\<lparr>sr_output := fst (ByteStream_write (sr_output r) d)\<rparr>))
              (Inr \<circ> StreamReassembler_judge_eof data index eof))
       else bindR (StreamReassembler_insert env r \<lparr>sg_data = sd, sg_start = index\<rparr>)
              (Inr \<circ> StreamReassembler_judge_eof data index eof))"
    and "lim < 2 ^ 64" "bs_written (sr_output r) \<le> lim"
    and "index < lim \<Longrightarrow> excerpt S index sd"
    and "index < lim \<Longrightarrow> index + length sd = min lim (index + length data)"
    and "index < lim \<Longrightarrow>
      {index ..< index + length sd} = {index ..< index + length data} \<inter> {..< lim}"
proof -
  have lim: "lim < 2 ^ 64" "add64 (bs_read (sr_output r)) (sr_capacity r) = lim"
    "bs_written (sr_output r) \<le> lim"
    using assms(2,5) out_ok_written_le [of S "sr_output r"]
    by (auto simp: sr_core_def out_ok_def add64_exact)
  then show "lim < 2 ^ 64" "bs_written (sr_output r) \<le> lim" by auto
  have e: "add64 index (length data) = index + length data"
    using assms(1,3) by (auto simp: excerpt_def add64_exact)
  show "StreamReassembler_push_substring env r data index eof =
      (if index + length data < bs_written (sr_output r) \<or> lim \<le> index
       then Inr (StreamReassembler_judge_eof data index eof r)
       else if index \<le> bs_written (sr_output r) then
         bindR (substr_from sd (sub64 (bs_written (sr_output r)) index))
           (\<lambda>d. bindR (StreamReassembler_assemble env (add64 index (length sd)) (sr_segments r)
                    (r\<lparr>sr_output := fst (ByteStream_write (sr_output r) d)\<rparr>))
              (Inr \<circ> StreamReassembler_judge_eof data index eof))
       else bindR (StreamReassembler_insert env r \<lparr>sg_data = sd, sg_start = index\<rparr>)
              (Inr \<circ> StreamReassembler_judge_eof data index eof))"
    by (simp only: StreamReassembler_push_substring_def Let_def ByteStream_bytes_read_def
        ByteStream_bytes_written_def lim(2) e assms(4))
  assume "index < lim"
  then show "excerpt S index sd" and len: "index + length sd = min lim (index + length data)"
    using lim(1) assms(3) excerpt_take [OF assms(3)] by (auto simp: assms(4) sub64_exact)
  from len show "{index ..< index + length sd} = {index ..< index + length data} \<inter> {..< lim}"
    by auto
qed

lemma push_front:
  assumes S: "length S < 2 ^ 64"
    and r: "sr_core S r" and data: "excerpt S index data"
    and front: "bs_written (sr_output r) \<le> index + length data"
      "index < bs_read (sr_output r) + sr_capacity r" "index \<le> bs_written (sr_output r)"
  shows "\<exists>r'. StreamReassembler_push_substring stl_ideal r data index eof =
      Inr (StreamReassembler_judge_eof data index eof r') \<and> sr_pushed S r data index r'"
proof -
  let ?o = "sr_output r"
  define lim where "lim = bs_read ?o + sr_capacity r"
  define sd where "sd = (if lim < index + length data then take (sub64 lim index) data else data)"
  define d where "d = drop (bs_written ?o - index) sd"
  note unf = push_unfold [OF S r data sd_def lim_def]
  note sd = unf(4-6) [OF front(2) [folded lim_def]]
  have len: "bs_written ?o - index \<le> length sd" using sd(2) front unf(3) by linarith
  have d: "excerpt S (bs_written ?o) d" "bs_written ?o + length d = index + length sd"
    using excerpt_drop [OF sd(1) len] len front(3) by (simp_all add: d_def)
  have pos: "index + length sd \<le> lim" using sd(2) by simp
  have o: "out_ok S ?o" "sr_capacity r = bs_cap ?o"
    "wf_segs S (bs_written ?o) (bs_read ?o + sr_capacity r) (sr_segments r)"
    "sr_unassembled_byte r = seg_bytes (sr_segments r)" using r by (auto simp: sr_core_def)
  define o1 where "o1 = ?o\<lparr>bs_buf := bs_buf ?o @ d, bs_written := index + length sd\<rparr>"
  have o1: "fst (ByteStream_write ?o d) = o1" "out_ok S o1"
    using write_out_ok [OF o(1) d(1)] d(2) pos by (auto simp: o1_def lim_def o(2))
  have f: "sub64 (bs_written ?o) index = bs_written ?o - index"
    "add64 index (length sd) = index + length sd"
    using front(3) unf(2,3) pos by (simp_all add: sub64_exact add64_exact)
  from assemble_correct [OF S, of "r\<lparr>sr_output := o1\<rparr>" "index + length sd" "bs_written ?o"
      "sr_segments r"] o1(2) o
  obtain d' segs where a: "StreamReassembler_assemble stl_ideal (index + length sd) (sr_segments r)
        (r\<lparr>sr_output := o1\<rparr>) =
      Inr (r\<lparr>sr_output := o1\<lparr>bs_buf := bs_buf o1 @ d', bs_written := index + length sd + length d'\<rparr>,
             sr_segments := segs, sr_unassembled_byte := seg_bytes segs\<rparr>)"
    "out_ok S (o1\<lparr>bs_buf := bs_buf o1 @ d', bs_written := index + length sd + length d'\<rparr>)"
    "wf_segs S (index + length sd + length d') lim segs"
    "{..<index + length sd + length d'} \<union> seg_cover segs = {..<index + length sd} \<union> seg_cover (sr_segments r)"
    by (auto simp: o1_def lim_def)
  define r' where "r' = r\<lparr>sr_output := o1\<lparr>bs_buf := bs_buf o1 @ d', bs_written := index + length sd + length d'\<rparr>,
    sr_segments := segs, sr_unassembled_byte := seg_bytes segs\<rparr>"
  have "StreamReassembler_push_substring stl_ideal r data index eof =
      Inr (StreamReassembler_judge_eof data index eof r')"
    using front a(1) o1(1) len by (simp add: unf(1) f r'_def flip: d_def lim_def)
  moreover have "{..<index + length sd} = {..<bs_written ?o} \<union> {index..<index + length sd}"
    using front d(2) by auto
  with sd(3) a(4) have "sr_cover r' = sr_cover r \<union> ({index ..< index + length data} \<inter> {..< lim})"
    by (simp add: sr_cover_def r'_def) blast
  moreover have "sr_core S r'" using a(2,3) o(2) by (simp add: sr_core_def r'_def o1_def lim_def)
  ultimately show ?thesis using d(2)
    by (intro exI [of _ r']) (simp add: sr_pushed_def r'_def o1_def flip: lim_def)
qed

lemma push_ahead:
  assumes S: "length S < 2 ^ 64"
    and r: "sr_core S r" and data: "excerpt S index data"
    and ahead: "index < bs_read (sr_output r) + sr_capacity r" "bs_written (sr_output r) < index"
  shows "\<exists>r'. StreamReassembler_push_substring stl_ideal r data index eof =
      Inr (StreamReassembler_judge_eof data index eof r') \<and> sr_pushed S r data index r'"
proof -
  let ?o = "sr_output r"
  define lim where "lim = bs_read ?o + sr_capacity r"
  define sd where "sd = (if lim < index + length data then take (sub64 lim index) data else data)"
  note unf = push_unfold [OF S r data sd_def lim_def]
  note sd = unf(4-6) [OF ahead(1) [folded lim_def]]
  have wf: "wf_segs S (bs_written ?o) lim (sr_segments r)"
    "sr_unassembled_byte r = seg_bytes (sr_segments r)"
    using r by (auto simp: sr_core_def lim_def)
  from insert_correct [OF S unf(3,2) wf, of "\<lparr>sg_data = sd, sg_start = index\<rparr>"] sd ahead
  obtain segs where segs: "StreamReassembler_insert stl_ideal r \<lparr>sg_data = sd, sg_start = index\<rparr> =
      Inr (r\<lparr>sr_segments := segs, sr_unassembled_byte := seg_bytes segs\<rparr>)"
    "wf_segs S (bs_written ?o) lim segs"
    "seg_cover segs = seg_cover (sr_segments r) \<union> {index ..< index + length sd}"
    by (auto simp: sg_hi_def)
  define r' where "r' = r\<lparr>sr_segments := segs, sr_unassembled_byte := seg_bytes segs\<rparr>"
  have "StreamReassembler_push_substring stl_ideal r data index eof =
      Inr (StreamReassembler_judge_eof data index eof r')"
    using ahead segs(1) by (simp add: unf(1) r'_def flip: lim_def)
  moreover have "sr_cover r' = sr_cover r \<union> ({index ..< index + length data} \<inter> {..< lim})"
    using segs(3) sd(3) by (simp add: sr_cover_def r'_def Un_assoc)
  moreover have "sr_core S r'" using segs(2) r by (simp add: sr_core_def r'_def lim_def)
  ultimately show ?thesis by (intro exI [of _ r']) (simp add: sr_pushed_def r'_def flip: lim_def)
qed

lemma push_correct:
  assumes S: "length S < 2 ^ 64"
    and r: "sr_core S r" and data: "excerpt S index data"
  shows "\<exists>r'. StreamReassembler_push_substring stl_ideal r data index eof =
      Inr (StreamReassembler_judge_eof data index eof r') \<and> sr_pushed S r data index r'"
proof -
  define lim where "lim = bs_read (sr_output r) + sr_capacity r"
  consider (outside) "index + length data < bs_written (sr_output r) \<or> lim \<le> index"
    | (front) "bs_written (sr_output r) \<le> index + length data" "index < lim"
        "index \<le> bs_written (sr_output r)"
    | (ahead) "index < lim" "bs_written (sr_output r) < index"
    by linarith
  then show ?thesis
  proof cases
    case outside
    then have "sr_cover r \<union> ({index ..< index + length data} \<inter> {..< lim}) = sr_cover r"
      by (auto simp: sr_cover_def)
    with outside r push_unfold(1) [OF S r data refl lim_def] show ?thesis
      by (intro exI [of _ r]) (simp add: sr_pushed_def flip: lim_def)
  next
    case front
    with push_front [OF S r data] show ?thesis by (simp add: lim_def)
  next
    case ahead
    with push_ahead [OF S r data] show ?thesis by (simp add: lim_def)
  qed
qed

section \<open>The reassembler keeps the contract\<close>

text \<open>A client reads through \<open>stream_out()\<close>.\<close>

definition read_stream_out :: "stream_reassembler \<Rightarrow> size_t \<Rightarrow> stream_reassembler \<times> bytes" where
  "read_stream_out r n =
     (let (s, d) = ByteStream_read (StreamReassembler_stream_out r) n
      in (r\<lparr>sr_output := s\<rparr>, d))"

definition sr_ok :: "bytes \<Rightarrow> stream_reassembler \<Rightarrow> bool" where
  "sr_ok S r \<longleftrightarrow>
     length S + sr_capacity r < 2 ^ 64 \<and> sr_inv S r"

lemma sr_inv_core: "sr_inv S r \<Longrightarrow> sr_core S r"
  by (auto simp: sr_inv_def sr_core_def)

lemma sr_ok_push:
  assumes "sr_ok S r" "excerpt S index data" "eof \<longrightarrow> index + length data = length S"
  shows "\<exists>r'. StreamReassembler_push_substring stl_ideal r data index eof = Inr r' \<and> sr_ok S r' \<and>
    sr_cover r' = sr_cover r \<union>
      ({index ..< index + length data} \<inter> {..< bs_read (sr_output r) + sr_capacity r}) \<and>
    bs_read (sr_output r') = bs_read (sr_output r) \<and> sr_capacity r' = sr_capacity r \<and>
    sr_eof r' = (sr_eof r \<or> eof)"
proof -
  have ok: "length S < 2 ^ 64" "sr_inv S r"
    using assms(1) by (auto simp: sr_ok_def)
  from push_correct [OF ok(1) sr_inv_core [OF ok(2)] assms(2)]
  obtain r1 where r1: "StreamReassembler_push_substring stl_ideal r data index eof =
      Inr (StreamReassembler_judge_eof data index eof r1)" "sr_pushed S r data index r1"
    by blast
  then have "bs_written (sr_output r1) \<le> length S"
    using out_ok_written_le [of S "sr_output r1"] by (auto simp: sr_pushed_def sr_core_def)
  with r1(2) ok(2) have eof: "sr_eof r1 \<longrightarrow> sr_pos_eof r1 = length S"
    "bs_eof (sr_output r1) \<longrightarrow> sr_eof r1 \<and> bs_written (sr_output r1) = length S"
    by (auto simp: sr_pushed_def sr_inv_def)
  have "sr_core S r1" using r1(2) by (simp add: sr_pushed_def)
  note j = StreamReassembler_judge_eof_correct [OF this ok(1) eof assms(2,3)]
  from r1 j assms(1) show ?thesis by (simp add: sr_ok_def sr_pushed_def)
qed

lemma out_ok_read:
  assumes "out_ok S s" "length S + bs_cap s < 2 ^ 64"
  shows "fst (ByteStream_read s n) = s\<lparr>bs_buf := drop n (bs_buf s),
      bs_read := bs_read s + min n (length (bs_buf s))\<rparr>"
    and "out_ok S (fst (ByteStream_read s n))"
    and "snd (ByteStream_read s n) = take n (drop (bs_read s) (take (bs_written s) S))"
proof -
  have fit: "bs_read s + length (bs_buf s) \<le> length S"
    and buf: "bs_buf s = take (length (bs_buf s)) (drop (bs_read s) S)"
    using assms(1) by (auto simp: out_ok_def excerpt_def)
  then show eq: "fst (ByteStream_read s n) = s\<lparr>bs_buf := drop n (bs_buf s),
      bs_read := bs_read s + min n (length (bs_buf s))\<rparr>"
    using assms(2) by (simp add: read_exact add64_exact)
  have "excerpt S (bs_read s + min n (length (bs_buf s))) (drop n (bs_buf s))"
    using excerpt_drop [of S "bs_read s" "bs_buf s" "min n (length (bs_buf s))"] assms(1)
    by (cases "n \<le> length (bs_buf s)") (auto simp: out_ok_def min_absorb1 min_absorb2)
  with fit assms bs_inv_read [of s n] show "out_ok S (fst (ByteStream_read s n))"
    by (auto simp: out_ok_def eq)
  show "snd (ByteStream_read s n) = take n (drop (bs_read s) (take (bs_written s) S))"
    using buf by (simp add: read_exact out_ok_written [OF assms(1)] drop_take)
qed

lemma sr_ok_read:
  assumes "sr_ok S r" "read_stream_out r n = (r', d)"
  shows "sr_ok S r' \<and> d = take n (drop (bs_read (sr_output r)) (take (bs_written (sr_output r)) S)) \<and>
    sr_cover r' = sr_cover r \<and> bs_read (sr_output r') = bs_read (sr_output r) + length d \<and>
    sr_capacity r' = sr_capacity r \<and> sr_eof r' = sr_eof r"
proof -
  have o: "out_ok S (sr_output r)" "length S + bs_cap (sr_output r) < 2 ^ 64"
    using assms(1) by (auto simp: sr_ok_def sr_inv_def)
  note rd = out_ok_read [OF o, of n]
  have r': "r' = r\<lparr>sr_output := fst (ByteStream_read (sr_output r) n)\<rparr>"
    and d: "d = snd (ByteStream_read (sr_output r) n)"
    using assms(2) by (auto simp: read_stream_out_def StreamReassembler_stream_out_def split: prod.splits)
  have "length d = min n (length (bs_buf (sr_output r)))"
    by (simp add: d read_exact)
  then have o': "sr_output r' = (sr_output r)\<lparr>bs_buf := drop n (bs_buf (sr_output r)),
      bs_read := bs_read (sr_output r) + length d\<rparr>" "out_ok S (sr_output r')"
    using rd by (simp_all add: r')
  have grow: "wf_segs S w (a + c) xs \<Longrightarrow> wf_segs S w (a + b + c) xs" for w a b c xs
    by (auto simp: wf_segs_def intro: order.trans)
  have inv: "wf_segs S (bs_written (sr_output r)) (bs_read (sr_output r) + sr_capacity r)
      (sr_segments r)" "sr_capacity r = bs_cap (sr_output r)"
      "sr_unassembled_byte r = seg_bytes (sr_segments r)" "sr_eof r \<longrightarrow> sr_pos_eof r = length S"
      "bs_eof (sr_output r) = (sr_eof r \<and> bs_written (sr_output r) = length S)"
    using assms(1) by (auto simp: sr_ok_def sr_inv_def)
  have "sr_inv S r'"
    using o' inv grow [OF inv(1), of "length d"] by (simp add: sr_inv_def) (simp add: r')
  with assms(1) rd(3) o'(1) show ?thesis
    by (simp add: sr_ok_def sr_cover_def d) (simp add: r')
qed

lemma sr_inv_first_gap:
  assumes "sr_inv S r"
  shows "{..<bs_written (sr_output r)} \<subseteq> sr_cover r" "bs_written (sr_output r) \<notin> sr_cover r"
    "bs_read (sr_output r) \<le> bs_written (sr_output r)" "bs_written (sr_output r) \<le> length S"
proof -
  have o: "out_ok S (sr_output r)"
    and wf: "wf_segs S (bs_written (sr_output r)) (bs_read (sr_output r) + sr_capacity r) (sr_segments r)"
    using assms by (auto simp: sr_inv_def)
  show "{..<bs_written (sr_output r)} \<subseteq> sr_cover r" by (auto simp: sr_cover_def)
  from wf show "bs_written (sr_output r) \<notin> sr_cover r"
    by (auto simp: sr_cover_def seg_cover_def wf_segs_def)
  from o show "bs_read (sr_output r) \<le> bs_written (sr_output r)"
    "bs_written (sr_output r) \<le> length S"
    using out_ok_written_le [OF o] by (auto simp: out_ok_written)
qed

lemma push_ok:
  assumes "sr_ok S r" "excerpt S index data" "eof \<longrightarrow> index + length data = length S"
  shows "StreamReassembler_push_substring env r data index eof = Inl UndefinedBehaviour \<or>
    (\<exists>r'. StreamReassembler_push_substring env r data index eof = Inr r' \<and> sr_ok S r' \<and>
      sr_cover r' = sr_cover r \<union>
        ({index ..< index + length data} \<inter> {..< bs_read (sr_output r) + sr_capacity r}) \<and>
      bs_read (sr_output r') = bs_read (sr_output r) \<and> sr_capacity r' = sr_capacity r \<and>
      sr_eof r' = (sr_eof r \<or> eof))"
  using push_follows [of env r data index eof] sr_ok_push [OF assms] by (auto elim: ub_orE)

interpretation sr: substring_sink "StreamReassembler_push_substring env" read_stream_out sr_ok
  sr_cover "bs_read \<circ> sr_output" "bs_written \<circ> sr_output" sr_capacity sr_eof "bs_eof \<circ> sr_output"
  for env
proof unfold_locales
  fix S r data index eof r' d n
  assume r: "sr_ok S r"
  {
    assume "op_of S (Push data index eof)"
    with push_ok [OF r, of index data eof env]
    show "StreamReassembler_push_substring env r data index eof = Inl UndefinedBehaviour \<or>
      (\<exists>r'. StreamReassembler_push_substring env r data index eof = Inr r' \<and> sr_ok S r' \<and>
      sr_cover r' = sr_cover r \<union>
        ({index ..< index + length data} \<inter> {..< (bs_read \<circ> sr_output) r + sr_capacity r}) \<and>
      (bs_read \<circ> sr_output) r' = (bs_read \<circ> sr_output) r \<and> sr_capacity r' = sr_capacity r \<and>
      sr_eof r' = (sr_eof r \<or> eof))" by simp
  }
  {
    assume "read_stream_out r n = (r', d)"
    from sr_ok_read [OF r this]
    show "sr_ok S r' \<and> d = take n (drop ((bs_read \<circ> sr_output) r) (take ((bs_written \<circ> sr_output) r) S)) \<and>
      sr_cover r' = sr_cover r \<and> (bs_read \<circ> sr_output) r' = (bs_read \<circ> sr_output) r + length d \<and>
      sr_capacity r' = sr_capacity r \<and> sr_eof r' = sr_eof r" by simp
  }
  have "sr_inv S r" using r by (simp add: sr_ok_def)
  then show "{..<(bs_written \<circ> sr_output) r} \<subseteq> sr_cover r \<and> (bs_written \<circ> sr_output) r \<notin> sr_cover r \<and>
      (bs_read \<circ> sr_output) r \<le> (bs_written \<circ> sr_output) r \<and> (bs_written \<circ> sr_output) r \<le> length S"
    using sr_inv_first_gap [of S r] by simp
  show "(bs_eof \<circ> sr_output) r \<longleftrightarrow> sr_eof r \<and> (bs_written \<circ> sr_output) r = length S"
    using \<open>sr_inv S r\<close> by (simp add: sr_inv_def)
qed

lemma sr_ok_new:
  assumes "length S + capacity < 2 ^ 64"
  shows "sr_ok S (StreamReassembler_new capacity)"
  using assms
  by (auto simp: sr_ok_def sr_inv_def out_ok_def bs_inv_def StreamReassembler_new_def
      ByteStream_new_def wf_segs_simps add64_def)

lemma sr_ok_bounds:
  assumes "sr_ok S r"
  shows "drop (bs_read (sr_output r)) (take (bs_written (sr_output r)) S) = bs_buf (sr_output r)"
    and "length (bs_buf (sr_output r)) + sr_unassembled_byte r \<le> sr_capacity r"
proof -
  have inv: "out_ok S (sr_output r)" "sr_capacity r = bs_cap (sr_output r)"
    "wf_segs S (bs_written (sr_output r)) (bs_read (sr_output r) + sr_capacity r) (sr_segments r)"
    "sr_unassembled_byte r = seg_bytes (sr_segments r)"
    using assms by (auto simp: sr_ok_def sr_inv_def)
  from inv(1) show "drop (bs_read (sr_output r)) (take (bs_written (sr_output r)) S) = bs_buf (sr_output r)"
    by (simp add: out_ok_written drop_take) (simp add: out_ok_def excerpt_def)
  show "length (bs_buf (sr_output r)) + sr_unassembled_byte r \<le> sr_capacity r"
    using seg_bytes_bound [OF inv(3)] out_ok_written_le [OF inv(1)] inv(2,4)
    by (simp add: out_ok_written [OF inv(1)])
qed

section \<open>The abstract specification\<close>

text \<open>
  The reassembler as its users see it: the positions of the stream seen so far, how much was read,
  whether the end was announced. A push adds the positions that lie below the window's upper edge.
\<close>

record reassembly =
  ra_seen :: "nat set"
  ra_taken :: size_t
  ra_closing :: bool

definition reassembly_push :: "size_t \<Rightarrow> size_t \<Rightarrow> size_t \<Rightarrow> bool \<Rightarrow> reassembly \<Rightarrow> reassembly" where
  "reassembly_push capacity index len eof a =
     a\<lparr>ra_seen := ra_seen a \<union> ({index ..< index + len} \<inter> {..< ra_taken a + capacity}),
       ra_closing := (ra_closing a \<or> eof)\<rparr>"

definition reassembly_ready :: "reassembly \<Rightarrow> size_t" where
  "reassembly_ready a = (LEAST n. n \<notin> ra_seen a)"

definition sr_abs :: "stream_reassembler \<Rightarrow> reassembly" where
  "sr_abs r = \<lparr>ra_seen = sr_cover r, ra_taken = ByteStream_bytes_read (sr_output r),
     ra_closing = sr_eof r\<rparr>"

lemma sr_inv_ready:
  assumes "sr_inv S r"
  shows "bs_written (sr_output r) = reassembly_ready (sr_abs r)"
proof -
  note gap = sr_inv_first_gap [OF assms]
  have "(LEAST n. n \<notin> sr_cover r) = bs_written (sr_output r)"
    by (rule Least_equality) (use gap(1,2) in \<open>auto simp: subset_iff not_less\<close>)
  then show ?thesis by (simp add: reassembly_ready_def sr_abs_def)
qed

section \<open>Where the code is defined\<close>

text \<open>
  A call executes no undefined operation exactly when it ignores the substring, when it writes it and
  a pending segment lies beyond it, or when it keeps it for later and the pending segments contain it
  or all stay away from it.
\<close>

definition insert_defined :: "segment list \<Rightarrow> size_t \<Rightarrow> size_t \<Rightarrow> bool" where
  "insert_defined segs start stop \<longleftrightarrow>
     (\<exists>x \<in> set segs. sg_start x \<le> start \<and> stop \<le> sg_hi x) \<or>
     (\<forall>x \<in> set segs. sg_hi x < start \<or> stop < sg_start x)"

definition push_defined :: "stream_reassembler \<Rightarrow> size_t \<Rightarrow> size_t \<Rightarrow> bool" where
  "push_defined r index len \<longleftrightarrow>
     (let w = bs_written (sr_output r); lim = bs_read (sr_output r) + sr_capacity r; stop = min lim (index + len)
      in index + len < w \<or> lim \<le> index \<or>
         (if index \<le> w then \<exists>x \<in> set (sr_segments r). stop < sg_start x
          else insert_defined (sr_segments r) index stop))"

lemma insert_loop_strict:
  "StreamReassembler_insert_loop stl_strict (L @ y # R) (length L) tmp start sz n = Inr v \<longleftrightarrow>
    (if sg_start y \<le> add64 start sz then sg_start y \<le> start \<and> add64 start sz \<le> sg_end y \<and> v = (L @ y # R, n)
     else v = (set_insert tmp (L @ y # R), add64 n (length (sg_data tmp))))"
  by (subst StreamReassembler_insert_loop.simps) (auto simp: Let_def bindR_eq_Inr)

lemma insert_strict:
  assumes S: "length S < 2 ^ 64" and lim: "w \<le> lim" "lim < 2 ^ 64"
    and r: "wf_segs S w lim (sr_segments r)" "sr_unassembled_byte r = seg_bytes (sr_segments r)"
    and s: "excerpt S (sg_start s) (sg_data s)" "w < sg_start s" "sg_hi s \<le> lim"
  shows "(\<exists>r'. StreamReassembler_insert stl_strict r s = Inr r') \<longleftrightarrow> insert_defined (sr_segments r) (sg_start s) (sg_hi s)"
proof (cases "sr_segments r = []")
  case True
  then show ?thesis by (simp add: StreamReassembler_insert_def insert_defined_def)
next
  case nonempty: False
  define L R where "L = takeWhile (\<lambda>x. sg_start x < sg_start s) (sr_segments r)"
    and "R = dropWhile (\<lambda>x. sg_start x < sg_start s) (sr_segments r)"
  have segs: "sr_segments r = L @ R" by (simp add: L_def R_def)
  note wf = r(1) [unfolded segs]
  note bounds = lower_bound_split [OF r(1), of "sg_start s", folded L_def R_def]
  have ends: "sg_end x = sg_hi x" if "x \<in> set (L @ R)" for x
    using wf that S by (auto simp: wf_segs_def intro: sg_end_exact)
  have e: "add64 (sg_start s) (length (sg_data s)) = sg_hi s" using sg_end_exact [OF s(1) S] by (simp add: sg_end_def)
  show ?thesis
  proof (cases "L \<noteq> [] \<and> sg_start s \<le> sg_end (last L)")
    case True
    then obtain L' x where L: "L = L' @ [x]" by (cases L rule: rev_cases) auto
    have x: "sg_start s \<le> sg_hi x" "sg_start x < sg_start s" using True L ends [of x] bounds(1) by auto
    have "(\<exists>r'. StreamReassembler_insert stl_strict r s = Inr r') \<longleftrightarrow> sg_hi s \<le> sg_hi x"
      using True nonempty ends [of x] L
      by (auto simp: StreamReassembler_insert_def Let_def e bindR_eq_Inr simp flip: L_def R_def)
    also have "\<dots> \<longleftrightarrow> insert_defined (sr_segments r) (sg_start s) (sg_hi s)"
      using x wf bounds(2) sg_start_le_hi [of s] sg_start_le_hi [of x]
      by (auto simp: segs L insert_defined_def wf_segs_append wf_segs_simps)
    finally show ?thesis .
  next
    case apart: False
    have left: "\<forall>l \<in> set L. sg_hi l < sg_start s" by (rule apart_from_left [OF wf apart S])
    have run: "(\<exists>r'. StreamReassembler_insert stl_strict r s = Inr r') \<longleftrightarrow>
      (\<exists>v. StreamReassembler_insert_loop stl_strict (sr_segments r) (length L) s (sg_start s) (length (sg_data s))
        (sr_unassembled_byte r) = Inr v)"
      using apart nonempty
      by (auto simp: StreamReassembler_insert_def Let_def bindR_eq_Inr simp flip: L_def R_def)
    show ?thesis
    proof (cases R)
      case Nil
      then show ?thesis using left run
        by (auto simp: segs insert_defined_def StreamReassembler_insert_loop.simps [of _ L])
    next
      case (Cons y R')
      then have y: "sg_start s \<le> sg_start y" "sg_end y = sg_hi y" "\<forall>z \<in> set R'. sg_hi y < sg_start z"
        using bounds(2) ends [of y] wf by (auto simp: wf_segs_append wf_segs_simps)
      show ?thesis using run left y sg_start_le_hi [of s] sg_start_le_hi [of y]
        by (auto simp: Cons insert_loop_strict e segs insert_defined_def)
    qed
  qed
qed

lemma assemble_past_end:
  "StreamReassembler_assemble env pos xs r = Inr r' \<Longrightarrow> \<forall>q. end_start env q = None \<Longrightarrow> sr_segments r = xs \<Longrightarrow>
    (\<exists>x \<in> set xs. pos < sg_start x) \<and> sr_segments r' \<noteq> []"
proof (induction xs arbitrary: r)
  case (Cons x xs)
  show ?case
  proof (cases "sg_start x \<le> pos")
    case True
    with Cons.prems(1) obtain q where "StreamReassembler_assemble env pos xs
        (q\<lparr>sr_segments := xs, sr_unassembled_byte := sub64 (sr_unassembled_byte q) (length (sg_data x))\<rparr>) = Inr r'"
      by (auto simp: bindR_eq_Inr split: if_splits)
    from Cons.IH [OF this Cons.prems(2)] show ?thesis by auto
  qed (use Cons.prems in auto)
qed simp

lemma assemble_undefined:
  "StreamReassembler_assemble env pos xs r = Inl UndefinedBehaviour \<Longrightarrow> \<forall>x \<in> set xs. sg_start x \<le> pos"
  by (induction xs arbitrary: r) (auto simp: bindR_eq_Inl substr_from_def split: if_splits)

lemma push_strict:
  assumes ok: "sr_ok S r" and data: "excerpt S index data" "eof \<longrightarrow> index + length data = length S"
  shows "(\<exists>r'. StreamReassembler_push_substring stl_strict r data index eof = Inr r') \<longleftrightarrow> push_defined r index (length data)"
proof -
  let ?o = "sr_output r"
  define lim where "lim = bs_read ?o + sr_capacity r"
  define sd where "sd = (if lim < index + length data then take (sub64 lim index) data else data)"
  have S: "length S < 2 ^ 64" and core: "sr_core S r" using ok by (auto simp: sr_ok_def intro: sr_inv_core)
  note unf = push_unfold [OF S core data(1) sd_def lim_def]
  consider (outside) "index + length data < bs_written ?o \<or> lim \<le> index"
    | (front) "bs_written ?o \<le> index + length data" "index < lim" "index \<le> bs_written ?o"
    | (ahead) "index < lim" "bs_written ?o < index"
    by linarith
  then show ?thesis
  proof cases
    case outside
    then show ?thesis by (auto simp: unf(1) push_defined_def Let_def simp flip: lim_def)
  next
    case front
    note sd = unf(4-6) [OF front(2)]
    have pos: "add64 index (length sd) = min lim (index + length data)" using sd(2) unf(2) by (simp add: add64_exact)
    let ?push = "StreamReassembler_push_substring stl_strict r data index eof"
    have run: "?push = bindR (substr_from sd (sub64 (bs_written ?o) index))
        (\<lambda>d. bindR (StreamReassembler_assemble stl_strict (min lim (index + length data)) (sr_segments r)
            (r\<lparr>sr_output := fst (ByteStream_write ?o d)\<rparr>)) (Inr \<circ> StreamReassembler_judge_eof data index eof))"
      using front by (simp add: unf(1) pos)
    have "?push = Inl UndefinedBehaviour \<or> (\<exists>r'. ?push = Inr r')" using push_ok [OF ok data, of stl_strict] by blast
    moreover have "\<exists>x \<in> set (sr_segments r). min lim (index + length data) < sg_start x" if "?push = Inr r'" for r'
      using that unfolding run by (auto simp: bindR_eq_Inr dest!: assemble_past_end)
    moreover have "\<forall>x \<in> set (sr_segments r). sg_start x \<le> min lim (index + length data)" if "?push = Inl UndefinedBehaviour"
      using that unfolding run by (auto simp: bindR_eq_Inl substr_from_def dest!: assemble_undefined split: if_splits)
    ultimately have "(\<exists>r'. ?push = Inr r') \<longleftrightarrow> (\<exists>x \<in> set (sr_segments r). min lim (index + length data) < sg_start x)"
      by (metis not_less)
    then show ?thesis using front by (simp add: push_defined_def Let_def flip: lim_def)
  next
    case ahead
    note sd = unf(4-6) [OF ahead(1)]
    have wf: "wf_segs S (bs_written ?o) lim (sr_segments r)" "sr_unassembled_byte r = seg_bytes (sr_segments r)"
      using core by (auto simp: sr_core_def lim_def)
    have "(\<exists>r'. StreamReassembler_push_substring stl_strict r data index eof = Inr r') \<longleftrightarrow>
        (\<exists>r'. StreamReassembler_insert stl_strict r \<lparr>sg_data = sd, sg_start = index\<rparr> = Inr r')"
      using ahead by (auto simp: unf(1) bindR_eq_Inr)
    also have "\<dots> \<longleftrightarrow> insert_defined (sr_segments r) index (min lim (index + length data))"
      using insert_strict [OF S unf(3,2) wf, of "\<lparr>sg_data = sd, sg_start = index\<rparr>"] sd ahead by (simp add: sg_hi_def)
    finally show ?thesis using ahead by (simp add: push_defined_def Let_def flip: lim_def)
  qed
qed

text \<open>What the strict platform gets through, every platform gets through.\<close>

lemma strict_assemble:
  "ub_or (StreamReassembler_assemble stl_strict pos segs r) (StreamReassembler_assemble env pos segs r)"
  by (induction segs arbitrary: r) (auto intro!: ub_or_bind ub_or_refl ub_or_undefined)

lemma strict_insert_loop:
  "ub_or (StreamReassembler_insert_loop stl_strict segs it tmp start sz n) (StreamReassembler_insert_loop env segs it tmp start sz n)"
  unfolding StreamReassembler_insert_loop.simps [of stl_strict segs] StreamReassembler_insert_loop.simps [of env segs] Let_def
  by (intro ub_or_if ub_or_bind ub_or_refl) (simp_all add: ub_or_undefined)

lemma strict_push:
  "ub_or (StreamReassembler_push_substring stl_strict r data index eof) (StreamReassembler_push_substring env r data index eof)"
proof -
  have "ub_or (StreamReassembler_insert stl_strict r s) (StreamReassembler_insert env r s)" for s
    unfolding StreamReassembler_insert_def Let_def
    by (intro ub_intros strict_insert_loop) (simp_all add: ub_or_undefined)
  then show ?thesis
    unfolding StreamReassembler_push_substring_def Let_def
    by (intro ub_or_if ub_or_bind ub_or_refl strict_assemble)
qed

lemma strict_decides:
  assumes "sr_ok S r" "excerpt S index data" "eof \<longrightarrow> index + length data = length S"
  shows "(\<forall>env. StreamReassembler_push_substring env r data index eof \<noteq> Inl UndefinedBehaviour) \<longleftrightarrow>
    (\<exists>r'. StreamReassembler_push_substring stl_strict r data index eof = Inr r')"
proof -
  have "StreamReassembler_push_substring stl_strict r data index eof = Inl UndefinedBehaviour \<or>
      (\<exists>r'. StreamReassembler_push_substring stl_strict r data index eof = Inr r')"
    using push_ok [OF assms, of stl_strict] by blast
  with strict_push [of r data index eof] show ?thesis by (metis ub_or_Inr sum.distinct(1))
qed

lemma run_ideal:
  "sr_ok S r \<Longrightarrow> \<forall>op \<in> set ops. op_of S op \<Longrightarrow>
    sink_run (StreamReassembler_push_substring stl_ideal) read_stream_out ops r \<noteq> Inl UndefinedBehaviour"
proof (induction ops arbitrary: r)
  case (Cons op ops)
  then show ?case
  proof (cases op)
    case (Push data index eof)
    with Cons sr_ok_push [of S r index data eof] show ?thesis by auto
  next
    case (Pull n)
    obtain r1 d where p: "read_stream_out r n = (r1, d)" by fastforce
    from Cons.IH [of r1] sr_ok_read [OF Cons.prems(1) p] Cons.prems(2) show ?thesis
      by (auto simp: Pull p bindR_eq_Inl)
  qed
qed simp

text \<open>While the read through \<open>end()\<close> is not survived, something stays pending.\<close>

lemma push_stays_short:
  assumes env: "\<forall>q. end_start env q = None" and ok: "sr_ok S r" "bs_written (sr_output r) < length S"
    and op: "op_of S (Push data index eof)" and run: "StreamReassembler_push_substring env r data index eof = Inr r'"
  shows "sr_ok S r' \<and> bs_written (sr_output r') < length S"
proof -
  have d: "excerpt S index data" "eof \<longrightarrow> index + length data = length S" using op by auto
  have S: "length S < 2 ^ 64" and core: "sr_core S r" using ok(1) by (auto simp: sr_ok_def intro: sr_inv_core)
  have ok': "sr_ok S r'" using push_ok [OF ok(1) d, of env] run by auto
  have eof [simp]: "bs_written (sr_output (StreamReassembler_judge_eof data index eof q)) = bs_written (sr_output q)"
    "sr_segments (StreamReassembler_judge_eof data index eof q) = sr_segments q" for q
    by (simp_all add: StreamReassembler_judge_eof_def Let_def ByteStream_end_input_def)
  have ins: "sr_output q' = sr_output q" if "StreamReassembler_insert env q x = Inr q'" for q q' x
    using that by (auto simp: StreamReassembler_insert_def Let_def bindR_eq_Inr split: if_splits)
  from run have "bs_written (sr_output r') = bs_written (sr_output r) \<or> sr_segments r' \<noteq> []"
    unfolding push_unfold(1) [OF S core d(1) refl refl]
    by (auto simp: bindR_eq_Inr ins dest!: assemble_past_end [OF _ env] split: if_splits)
  moreover have "bs_written (sr_output r') < length S" if "sr_segments r' \<noteq> []"
    using that ok' by (cases "sr_segments r'") (auto simp: sr_ok_def sr_inv_def wf_segs_simps excerpt_def)
  ultimately show ?thesis using ok' ok(2) by auto
qed

lemma run_stays_short:
  "\<forall>q. end_start env q = None \<Longrightarrow> sr_ok S r \<Longrightarrow> bs_written (sr_output r) < length S \<Longrightarrow> \<forall>op \<in> set ops. op_of S op \<Longrightarrow>
    sink_run (StreamReassembler_push_substring env) read_stream_out ops r = Inr (r', out) \<Longrightarrow>
    sr_ok S r' \<and> bs_written (sr_output r') < length S"
proof (induction ops arbitrary: r out)
  case (Cons op ops)
  show ?case
  proof (cases op)
    case (Push data index eof)
    with Cons.prems obtain r1 where "StreamReassembler_push_substring env r data index eof = Inr r1"
      "sink_run (StreamReassembler_push_substring env) read_stream_out ops r1 = Inr (r', out)" by (auto simp: bindR_eq_Inr)
    with push_stays_short [OF Cons.prems(1-3), of data index eof r1] Cons.IH [OF Cons.prems(1)] Cons.prems(4) Push
    show ?thesis by auto
  next
    case (Pull n)
    obtain r1 d where p: "read_stream_out r n = (r1, d)" by fastforce
    have "bs_written (sr_output r1) = bs_written (sr_output r)"
      using p by (auto simp: read_stream_out_def read_exact StreamReassembler_stream_out_def)
    with Cons.IH [OF Cons.prems(1), of r1] Cons.prems sr_ok_read [OF Cons.prems(2) p] show ?thesis
      by (auto simp: Pull p bindR_eq_Inr)
  qed
qed simp

section \<open>Properties\<close>

text \<open>
  C2: \<open>push_substring\<close> refines the abstract specification, on every platform. For any substring of a
  stream \<open>S\<close> the call either runs into one of the two undefined operations, or returns with the
  representation invariant kept and the abstract state extended by the pushed positions inside the
  window; the output stream then holds everything up to the first position not seen, and its input is
  ended exactly when the end was announced and the whole stream is there. No other exception is
  possible, and \<open>push_defined\<close> says exactly when no undefined operation is executed.
\<close>

theorem push_substring_refines:
  assumes "length S + sr_capacity r < 2 ^ 64" "sr_inv S r"
    and "excerpt S index data" "eof \<longrightarrow> index + length data = length S"
  shows "(StreamReassembler_push_substring env r data index eof = Inl UndefinedBehaviour \<or>
      (\<exists>r'. StreamReassembler_push_substring env r data index eof = Inr r' \<and> sr_inv S r' \<and>
        sr_abs r' = reassembly_push (sr_capacity r) index (length data) eof (sr_abs r) \<and>
        ByteStream_bytes_written (StreamReassembler_stream_out r') = reassembly_ready (sr_abs r') \<and>
        ByteStream_input_ended (StreamReassembler_stream_out r') =
          (ra_closing (sr_abs r') \<and> reassembly_ready (sr_abs r') = length S))) \<and>
    ((\<forall>env. StreamReassembler_push_substring env r data index eof \<noteq> Inl UndefinedBehaviour) \<longleftrightarrow>
      push_defined r index (length data))"
proof
  have ok: "sr_ok S r" using assms(1,2) by (simp add: sr_ok_def)
  note push = push_ok [OF ok assms(3,4)]
  show "StreamReassembler_push_substring env r data index eof = Inl UndefinedBehaviour \<or>
      (\<exists>r'. StreamReassembler_push_substring env r data index eof = Inr r' \<and> sr_inv S r' \<and>
        sr_abs r' = reassembly_push (sr_capacity r) index (length data) eof (sr_abs r) \<and>
        ByteStream_bytes_written (StreamReassembler_stream_out r') = reassembly_ready (sr_abs r') \<and>
        ByteStream_input_ended (StreamReassembler_stream_out r') =
          (ra_closing (sr_abs r') \<and> reassembly_ready (sr_abs r') = length S))"
    using push [of env]
  proof (elim disjE exE)
    fix r'
    assume r': "StreamReassembler_push_substring env r data index eof = Inr r' \<and> sr_ok S r' \<and>
      sr_cover r' = sr_cover r \<union> ({index ..< index + length data} \<inter> {..< bs_read (sr_output r) + sr_capacity r}) \<and>
      bs_read (sr_output r') = bs_read (sr_output r) \<and> sr_capacity r' = sr_capacity r \<and> sr_eof r' = (sr_eof r \<or> eof)"
    then have inv: "sr_inv S r'" by (simp add: sr_ok_def)
    moreover have "bs_eof (sr_output r') = (sr_eof r' \<and> bs_written (sr_output r') = length S)"
      using inv by (simp add: sr_inv_def)
    ultimately show ?thesis
      using r' sr_inv_ready [OF inv]
      by (intro disjI2 exI [of _ r']) (simp add: StreamReassembler_stream_out_def ByteStream_accessors
          sr_abs_def reassembly_push_def)
  qed simp
  show "(\<forall>env. StreamReassembler_push_substring env r data index eof \<noteq> Inl UndefinedBehaviour) \<longleftrightarrow>
      push_defined r index (length data)"
    unfolding push_strict [OF ok assms(3,4), symmetric] by (rule strict_decides [OF ok assms(3,4)])
qed

definition stl_sample :: stl_env where
  "stl_sample = \<lparr>end_start = (\<lambda>r. Some 1000), erased_succ = (\<lambda>L x R. True)\<rparr>"

definition sr_sample :: stream_reassembler where
  "sr_sample = (StreamReassembler_new 8)\<lparr>
     sr_segments := [\<lparr>sg_data = [2, 3], sg_start = 2\<rparr>], sr_unassembled_byte := 2\<rparr>"

lemma sr_sample_inv: "sr_inv [0, 1, 2, 3, 4, 5] sr_sample"
  by (simp add: sr_inv_def sr_sample_def StreamReassembler_new_def
      ByteStream_new_def out_ok_def bs_inv_def wf_segs_def excerpt_def sg_hi_def add64_def)

theorem push_substring_refines_witness:
  "\<exists>r'. StreamReassembler_push_substring stl_strict sr_sample [0] 0 False = Inr r' \<and>
     sr_inv [0, 1, 2, 3, 4, 5] r' \<and> ByteStream_bytes_written (StreamReassembler_stream_out r') = 1 \<and>
     bs_buf (StreamReassembler_stream_out r') = [0] \<and> push_defined sr_sample 0 1"
proof -
  have "StreamReassembler_push_substring stl_strict sr_sample [0] 0 False =
    Inr (sr_sample\<lparr>sr_output := (ByteStream_new 8)\<lparr>bs_buf := [0], bs_written := 1\<rparr>\<rparr>)"
    by (simp add: StreamReassembler_push_substring_def sr_sample_def
        StreamReassembler_new_def ByteStream_new_def ByteStream_write_def
        ByteStream_remaining_capacity_def StreamReassembler_judge_eof_def ByteStream_accessors
        Let_def sub64_def add64_def substr_from_def)
  moreover have "push_defined sr_sample 0 1"
    by (simp add: push_defined_def sr_sample_def StreamReassembler_new_def ByteStream_new_def)
  ultimately show ?thesis
    using push_substring_refines [of "[0, 1, 2, 3, 4, 5]" sr_sample 0 "[0]" False stl_strict] sr_sample_inv
    by (auto simp: excerpt_def sr_sample_def StreamReassembler_new_def
        StreamReassembler_stream_out_def ByteStream_bytes_written_def)
qed

text \<open>
  C13: delivery, on every platform. Substrings of a stream \<open>S\<close> pushed into a fresh reassembler in any
  order, with any overlaps and repetitions, interleaved with reads of any size: unless a call runs into
  an undefined operation, no call throws, what was read followed by what can be read is a prefix of
  \<open>S\<close>, and the bytes held, assembled or not, never exceed the capacity.
\<close>

theorem reassembler_delivers_prefix:
  assumes "length S + capacity < 2 ^ 64" "\<forall>op \<in> set ops. op_of S op"
  shows "sink_run (StreamReassembler_push_substring env) read_stream_out ops (StreamReassembler_new capacity) =
      Inl UndefinedBehaviour \<or>
    (\<exists>r out. sink_run (StreamReassembler_push_substring env) read_stream_out ops
        (StreamReassembler_new capacity) = Inr (r, out) \<and>
      out @ bs_buf (StreamReassembler_stream_out r) =
        take (ByteStream_bytes_written (StreamReassembler_stream_out r)) S \<and>
      ByteStream_buffer_size (StreamReassembler_stream_out r) +
        StreamReassembler_unassembled_bytes r \<le> capacity)"
proof -
  note new = sr_ok_new [OF assms(1)]
  have z: "bs_read (sr_output (StreamReassembler_new capacity)) = 0"
    "sr_capacity (StreamReassembler_new capacity) = capacity"
    by (simp_all add: StreamReassembler_new_def ByteStream_new_def)
  from sr.run_prefix [OF new assms(2), of env] z consider
    "sink_run (StreamReassembler_push_substring env) read_stream_out ops (StreamReassembler_new capacity) = Inl UndefinedBehaviour"
    | r out where "sink_run (StreamReassembler_push_substring env) read_stream_out ops
      (StreamReassembler_new capacity) = Inr (r, out)"
    "sr_ok S r" "excerpt S 0 out" "bs_read (sr_output r) = length out" "sr_capacity r = capacity"
    by auto
  then show ?thesis
  proof cases
    case run: 2
    have "out = take (bs_read (sr_output r)) (take (bs_written (sr_output r)) S)"
      using run(2-4) sr_inv_first_gap(3) [of S r] by (simp add: excerpt_def sr_ok_def min_absorb1)
    with sr_ok_bounds [OF run(2)] append_take_drop_id
    have "out @ bs_buf (sr_output r) = take (bs_written (sr_output r)) S" by metis
    with run(1,5) sr_ok_bounds(2) [OF run(2)] show ?thesis
      by (intro disjI2 exI [of _ r] exI [of _ out])
         (simp add: StreamReassembler_stream_out_def ByteStream_accessors
          StreamReassembler_unassembled_bytes_def)
  qed simp
qed

lemmas reassembler_eval = StreamReassembler_push_substring_def StreamReassembler_insert_def
  StreamReassembler_insert_loop.simps StreamReassembler_new_def ByteStream_new_def ByteStream_write_def
  ByteStream_remaining_capacity_def StreamReassembler_judge_eof_def ByteStream_accessors ByteStream_end_input_def
  read_stream_out_def StreamReassembler_stream_out_def read_exact sg_end_def Let_def sub64_def add64_def substr_from_def

theorem reassembler_delivers_prefix_witness:
  "\<exists>r out. sink_run (StreamReassembler_push_substring stl_strict) read_stream_out
      [Push [3, 4] 3 False, Push [0, 1] 0 False, Pull 1] (StreamReassembler_new 5) = Inr (r, out) \<and> out = [0] \<and>
    out @ bs_buf (StreamReassembler_stream_out r) =
      take (ByteStream_bytes_written (StreamReassembler_stream_out r)) [0, 1, 2, 3, 4, 5]"
proof -
  have "\<exists>r. sink_run (StreamReassembler_push_substring stl_strict) read_stream_out
      [Push [3, 4] 3 False, Push [0, 1] 0 False, Pull 1] (StreamReassembler_new 5) = Inr (r, [0])"
    by (simp add: reassembler_eval)
  with reassembler_delivers_prefix [of "[0, 1, 2, 3, 4, 5]" 5 "[Push [3, 4] 3 False, Push [0, 1] 0 False, Pull 1]" stl_strict]
  show ?thesis by (auto simp: excerpt_def)
qed

text \<open>
  C6: completeness, whatever the order, on every platform. When the pushed substrings together cover
  the stream, one of them carries the end, and the stream fits in the capacity, then either some call
  runs into an undefined operation, or all return, the output stream holds exactly \<open>S\<close> and its input
  is ended. The second is what happens on a platform that gets past the undefined operations.
\<close>

theorem reassembler_complete:
  assumes "length S + capacity < 2 ^ 64" "length S \<le> capacity"
    and "\<forall>op \<in> set ops. op_of S op \<and> (\<forall>n. op \<noteq> Pull n)"
    and "{..<length S} \<subseteq> (\<Union>op \<in> set ops. op_range op)" "\<exists>op \<in> set ops. op_eof op"
  shows "(sink_run (StreamReassembler_push_substring env) read_stream_out ops (StreamReassembler_new capacity) =
      Inl UndefinedBehaviour \<or>
    (\<exists>r. sink_run (StreamReassembler_push_substring env) read_stream_out ops
        (StreamReassembler_new capacity) = Inr (r, []) \<and>
      bs_buf (StreamReassembler_stream_out r) = S \<and>
      ByteStream_input_ended (StreamReassembler_stream_out r))) \<and>
    sink_run (StreamReassembler_push_substring stl_ideal) read_stream_out ops (StreamReassembler_new capacity) \<noteq>
      Inl UndefinedBehaviour"
proof -
  note new = sr_ok_new [OF assms(1)]
  have z: "(bs_read \<circ> sr_output) (StreamReassembler_new capacity) = 0"
    "sr_capacity (StreamReassembler_new capacity) = capacity"
    by (simp_all add: StreamReassembler_new_def ByteStream_new_def)
  from sr.run_complete [OF new _ assms(3-5), unfolded z, of env] assms(2) consider
    "sink_run (StreamReassembler_push_substring env) read_stream_out ops (StreamReassembler_new capacity) = Inl UndefinedBehaviour"
    | r where "sink_run (StreamReassembler_push_substring env) read_stream_out ops
        (StreamReassembler_new capacity) = Inr (r, [])"
      "sr_ok S r" "bs_read (sr_output r) = 0" "bs_written (sr_output r) = length S" "bs_eof (sr_output r)"
    by auto
  then have "sink_run (StreamReassembler_push_substring env) read_stream_out ops (StreamReassembler_new capacity) =
      Inl UndefinedBehaviour \<or>
    (\<exists>r. sink_run (StreamReassembler_push_substring env) read_stream_out ops
        (StreamReassembler_new capacity) = Inr (r, []) \<and>
      bs_buf (StreamReassembler_stream_out r) = S \<and> ByteStream_input_ended (StreamReassembler_stream_out r))"
  proof cases
    case 2
    with sr_ok_bounds(1) [of S r] show ?thesis by (auto simp: StreamReassembler_stream_out_def ByteStream_accessors)
  qed simp
  with run_ideal [OF new] assms(3) show ?thesis by blast
qed

theorem reassembler_complete_witness:
  "\<exists>r. sink_run (StreamReassembler_push_substring stl_sample) read_stream_out
      [Push [4, 5] 4 True, Push [1, 2] 1 False, Push [2, 3] 2 False, Push [0] 0 False]
      (StreamReassembler_new 6) = Inr (r, []) \<and>
    bs_buf (StreamReassembler_stream_out r) = [0, 1, 2, 3, 4, 5] \<and>
    ByteStream_input_ended (StreamReassembler_stream_out r)"
proof -
  let ?ops = "[Push [4, 5] 4 True, Push [1, 2] 1 False, Push [2, 3] 2 False, Push [0] 0 False]"
  have "sink_run (StreamReassembler_push_substring stl_sample) read_stream_out ?ops (StreamReassembler_new 6) \<noteq> Inl UndefinedBehaviour"
    by (simp add: reassembler_eval stl_sample_def)
  moreover have "sink_run (StreamReassembler_push_substring stl_sample) read_stream_out ?ops (StreamReassembler_new 6) =
      Inl UndefinedBehaviour \<or>
    (\<exists>r. sink_run (StreamReassembler_push_substring stl_sample) read_stream_out ?ops (StreamReassembler_new 6) = Inr (r, []) \<and>
      bs_buf (StreamReassembler_stream_out r) = [0, 1, 2, 3, 4, 5] \<and>
      ByteStream_input_ended (StreamReassembler_stream_out r))"
    by (rule reassembler_complete [THEN conjunct1]) (auto simp: excerpt_def)
  ultimately show ?thesis by blast
qed

text \<open>
  C14: no stream is ever completed without reading through \<open>end()\<close>. Where that read does not come
  back with a number, whatever happens at erased iterators, every sequence of pushes and reads of a
  nonempty stream that returns leaves the last byte unwritten and the input of the output stream open.
\<close>

theorem completion_reads_past_end:
  assumes "\<forall>r. end_start env r = None" "length S + capacity < 2 ^ 64" "S \<noteq> []" "\<forall>op \<in> set ops. op_of S op"
    and "sink_run (StreamReassembler_push_substring env) read_stream_out ops (StreamReassembler_new capacity) = Inr (r, out)"
  shows "ByteStream_bytes_written (StreamReassembler_stream_out r) < length S \<and>
    \<not> ByteStream_input_ended (StreamReassembler_stream_out r)"
proof -
  have "sr_ok S r \<and> bs_written (sr_output r) < length S"
    by (rule run_stays_short [OF assms(1) _ _ assms(4,5)])
      (use assms(2,3) sr_ok_new in \<open>auto simp: StreamReassembler_new_def ByteStream_new_def\<close>)
  then show ?thesis
    by (auto simp: StreamReassembler_stream_out_def ByteStream_accessors sr_ok_def sr_inv_def)
qed

theorem completion_reads_past_end_witness:
  "\<exists>r. sink_run (StreamReassembler_push_substring stl_strict) read_stream_out
      [Push [3, 4] 3 True, Push [0, 1] 0 False, Pull 1] (StreamReassembler_new 5) = Inr (r, [0]) \<and>
    \<not> ByteStream_input_ended (StreamReassembler_stream_out r)"
proof -
  have "\<exists>r. sink_run (StreamReassembler_push_substring stl_strict) read_stream_out
      [Push [3, 4] 3 True, Push [0, 1] 0 False, Pull 1] (StreamReassembler_new 5) = Inr (r, [0])"
    by (simp add: reassembler_eval)
  with completion_reads_past_end [of stl_strict "[0, 1, 2, 3, 4]" 5 "[Push [3, 4] 3 True, Push [0, 1] 0 False, Pull 1]"]
  show ?thesis by (auto simp: excerpt_def)
qed

end
