(* ===== verification/TCP_Receiver.thy ===== *)
theory TCP_Receiver
  imports Reassembler_Correct TCP_Segment
begin

text \<open>
  The receiver of \<open>tcp_receiver.hh\<close> and \<open>tcp_receiver.cc\<close>: it turns segments with
  32-bit sequence numbers into substrings for the reassembler and computes the acknowledgment
  number and the window.
\<close>

section \<open>State and operations\<close>

record tcp_receiver =
  rc_reassembler :: stream_reassembler
  rc_capacity :: size_t
  rc_isn :: WrappingInt32
  rc_syn :: bool
  rc_fin :: bool
  rc_recv_base :: size_t

definition TCPReceiver_new :: "size_t \<Rightarrow> tcp_receiver" where
  "TCPReceiver_new capacity =
     \<lparr>rc_reassembler = StreamReassembler_new capacity, rc_capacity = capacity,
      rc_isn = WrappingInt32 0, rc_syn = False, rc_fin = False, rc_recv_base = 0\<rparr>"

definition TCPReceiver_stream_out :: "tcp_receiver \<Rightarrow> byte_stream" where
  "TCPReceiver_stream_out r = StreamReassembler_stream_out (rc_reassembler r)"

definition TCPReceiver_unassembled_bytes :: "tcp_receiver \<Rightarrow> size_t" where
  "TCPReceiver_unassembled_bytes r = StreamReassembler_unassembled_bytes (rc_reassembler r)"

definition TCPReceiver_window_size :: "tcp_receiver \<Rightarrow> size_t" where
  "TCPReceiver_window_size r =
     sub64 (rc_capacity r) (ByteStream_buffer_size (TCPReceiver_stream_out r))"

definition TCPReceiver_ackno :: "tcp_receiver \<Rightarrow> WrappingInt32 option" where
  "TCPReceiver_ackno r =
     (if \<not> rc_syn r then None
      else
        let bytes_written = ByteStream_bytes_written (TCPReceiver_stream_out r);
            absolute_seqno_64 = add64 bytes_written 1
        in if ByteStream_input_ended (TCPReceiver_stream_out r)
           then Some (wrap_abs (add64 absolute_seqno_64 1) (rc_isn r))
           else Some (wrap_abs absolute_seqno_64 (rc_isn r)))"

text \<open>The last three statements of \<open>segment_received\<close>.\<close>

definition TCPReceiver_push ::
  "stl_env \<Rightarrow> tcp_receiver \<Rightarrow> tcp_segment \<Rightarrow> size_t \<Rightarrow> tcp_receiver result" where
  "TCPReceiver_push env r seg absolute_seqno_64 =
     bindR (StreamReassembler_push_substring env (rc_reassembler r) (Buffer_copy (ts_payload seg))
              (sub64 absolute_seqno_64 1) (th_fin (ts_header seg)))
       (\<lambda>ra. let r1 = r\<lparr>rc_reassembler := ra\<rparr>;
                 base = add64 (ByteStream_bytes_written (TCPReceiver_stream_out r1)) 1;
                 base = (if ByteStream_input_ended (TCPReceiver_stream_out r1)
                         then add64 base 1 else base)
             in Inr (r1\<lparr>rc_recv_base := base\<rparr>))"

text \<open>The part of \<open>segment_received\<close> behind the SYN handling.\<close>

definition TCPReceiver_accept ::
  "stl_env \<Rightarrow> tcp_receiver \<Rightarrow> tcp_segment \<Rightarrow> WrappingInt32 \<Rightarrow> tcp_receiver result" where
  "TCPReceiver_accept env r seg seqno =
     (let checkpoint = ByteStream_bytes_written (TCPReceiver_stream_out r);
          absolute_seqno_64 = unwrap_abs seqno (rc_isn r) checkpoint;
          length = TCPSegment_length_in_sequence_space seg
      in if th_fin (ts_header seg) then
           if rc_fin r then Inr r
           else TCPReceiver_push env (r\<lparr>rc_fin := True\<rparr>) seg absolute_seqno_64
         else if length = 0 then Inr r
         else if absolute_seqno_64 \<ge> add64 (rc_recv_base r) (TCPReceiver_window_size r) \<or>
                 add64 absolute_seqno_64 length \<le> rc_recv_base r then Inr r
         else TCPReceiver_push env r seg absolute_seqno_64)"

definition TCPReceiver_segment_received ::
  "stl_env \<Rightarrow> tcp_receiver \<Rightarrow> tcp_segment \<Rightarrow> tcp_receiver result" where
  "TCPReceiver_segment_received env r seg =
     (let head = ts_header seg; seqno = th_seqno head
      in if th_syn head then
           if rc_syn r then Inr r
           else
             let r1 = r\<lparr>rc_isn := seqno, rc_syn := True, rc_recv_base := 1\<rparr>
             in if TCPSegment_length_in_sequence_space seg = 1 then Inr r1
                else TCPReceiver_accept env r1 seg (wi_plus seqno 1)
         else if \<not> rc_syn r then Inr r
         else TCPReceiver_accept env r seg seqno)"

lemma receiver_follows:
  "ub_or (TCPReceiver_segment_received env r seg) (TCPReceiver_segment_received stl_ideal r seg)"
  unfolding TCPReceiver_segment_received_def TCPReceiver_accept_def TCPReceiver_push_def Let_def
  by (intro ub_intros push_follows)

section \<open>The segments of a peer's stream\<close>

text \<open>
  \<open>carries S isn seg k\<close>: the segment belongs to a connection whose peer sends the bytes
  \<open>S\<close> under the initial sequence number \<open>isn\<close>; its payload stands at stream index
  \<open>k\<close>.
\<close>

definition carries :: "bytes \<Rightarrow> WrappingInt32 \<Rightarrow> tcp_segment \<Rightarrow> size_t \<Rightarrow> bool" where
  "carries S isn seg k \<longleftrightarrow>
     excerpt S k (Buffer_str (ts_payload seg)) \<and>
     (th_fin (ts_header seg) \<longrightarrow> k + length (Buffer_str (ts_payload seg)) = length S) \<and>
     (if th_syn (ts_header seg) then th_seqno (ts_header seg) = isn \<and> k = 0
      else th_seqno (ts_header seg) = wrap_abs (k + 1) isn)"

abbreviation rc_output :: "tcp_receiver \<Rightarrow> byte_stream" where
  "rc_output r \<equiv> sr_output (rc_reassembler r)"

lemmas TCPReceiver_accessors =
  TCPReceiver_stream_out_def StreamReassembler_stream_out_def ByteStream_accessors Buffer_copy_def

definition rc_inv :: "bytes \<Rightarrow> WrappingInt32 \<Rightarrow> tcp_receiver \<Rightarrow> bool" where
  "rc_inv S isn r \<longleftrightarrow>
     sr_ok S (rc_reassembler r) \<and> length S < 2 ^ 63 \<and> length S + rc_capacity r + 2 < 2 ^ 64 \<and>
     rc_capacity r = sr_capacity (rc_reassembler r) \<and>
     (rc_fin r \<longleftrightarrow> sr_eof (rc_reassembler r)) \<and>
     (if rc_syn r then rc_isn r = isn \<and>
        rc_recv_base r = bs_written (rc_output r) + 1 + (if bs_eof (rc_output r) then 1 else 0)
      else bs_written (rc_output r) = 0 \<and> \<not> rc_fin r)"

lemma rc_inv_new:
  assumes "length S + capacity + 2 < 2 ^ 64" "length S < 2 ^ 63"
  shows "rc_inv S isn (TCPReceiver_new capacity)"
  using sr_ok_new [of S capacity] assms
  by (simp add: rc_inv_def TCPReceiver_new_def StreamReassembler_new_def ByteStream_new_def)

lemma rc_inv_facts:
  assumes "rc_inv S isn r"
  shows "bs_written (rc_output r) \<le> length S" "bs_written (rc_output r) < 2 ^ 63"
    and "TCPReceiver_window_size r = rc_capacity r - length (bs_buf (rc_output r))"
    and "bs_written (rc_output r) + TCPReceiver_window_size r = bs_read (rc_output r) + rc_capacity r"
    and "bs_read (rc_output r) + rc_capacity r < 2 ^ 64"
    and "bs_eof (rc_output r) \<longleftrightarrow> rc_fin r \<and> bs_written (rc_output r) = length S"
proof -
  have ok: "sr_ok S (rc_reassembler r)" "sr_inv S (rc_reassembler r)" "length S < 2 ^ 63"
    and cap: "rc_capacity r = sr_capacity (rc_reassembler r)"
    and fin: "rc_fin r \<longleftrightarrow> sr_eof (rc_reassembler r)"
    using assms by (auto simp: rc_inv_def sr_ok_def)
  from ok(2) have out: "out_ok S (rc_output r)" "rc_capacity r = bs_cap (rc_output r)"
    by (auto simp: sr_inv_def cap)
  show w: "bs_written (rc_output r) \<le> length S" using sr_inv_first_gap(4) [OF ok(2)] .
  with ok(3) show "bs_written (rc_output r) < 2 ^ 63" by simp
  have b: "length (bs_buf (rc_output r)) \<le> rc_capacity r" "rc_capacity r < 2 ^ 64"
    using sr_ok_bounds(2) [OF ok(1)] ok(1) cap by (auto simp: sr_ok_def)
  then show ws: "TCPReceiver_window_size r = rc_capacity r - length (bs_buf (rc_output r))"
    by (simp add: TCPReceiver_window_size_def TCPReceiver_accessors sub64_exact)
  show "bs_written (rc_output r) + TCPReceiver_window_size r = bs_read (rc_output r) + rc_capacity r"
    using b(1) out_ok_written [OF out(1)] by (simp add: ws)
  show "bs_read (rc_output r) + rc_capacity r < 2 ^ 64"
    using out by (simp add: out_ok_def)
  show "bs_eof (rc_output r) \<longleftrightarrow> rc_fin r \<and> bs_written (rc_output r) = length S"
    using ok(2) by (simp add: sr_inv_def fin)
qed

lemma first_gap_le: "{..<a} \<subseteq> B \<Longrightarrow> b \<notin> B \<Longrightarrow> a \<le> (b :: nat)"
  by (meson lessThan_iff not_le_imp_less subsetD)

text \<open>What a step may do to the receiver: the positions seen grow by \<open>new\<close>.\<close>

definition rc_step ::
  "bytes \<Rightarrow> WrappingInt32 \<Rightarrow> tcp_receiver \<Rightarrow> nat set \<Rightarrow> tcp_receiver \<Rightarrow> bool" where
  "rc_step S isn r new r' \<longleftrightarrow>
     rc_inv S isn r' \<and> rc_capacity r' = rc_capacity r \<and>
     bs_read (rc_output r') = bs_read (rc_output r) \<and>
     sr_cover (rc_reassembler r') = sr_cover (rc_reassembler r) \<union>
       (new \<inter> {..< bs_read (rc_output r) + rc_capacity r})"

lemma TCPReceiver_push_ok:
  assumes inv: "rc_inv S isn r" "rc_syn r" and seg: "carries S isn seg k"
    and fin: "rc_fin r' = (rc_fin r \<or> th_fin (ts_header seg))"
    and r': "r' = r\<lparr>rc_fin := rc_fin r'\<rparr>"
  shows "\<exists>r2. TCPReceiver_push stl_ideal r' seg (k + 1) = Inr r2 \<and> rc_syn r2 \<and> rc_fin r2 = rc_fin r' \<and>
    rc_step S isn r {k ..< k + length (Buffer_str (ts_payload seg))} r2"
proof -
  let ?d = "Buffer_str (ts_payload seg)" and ?eof = "th_fin (ts_header seg)"
  have ok: "sr_ok S (rc_reassembler r)" "length S < 2 ^ 63" using inv(1) by (auto simp: rc_inv_def)
  have d: "excerpt S k ?d" "?eof \<longrightarrow> k + length ?d = length S" using seg by (auto simp: carries_def)
  then have k: "k < 2 ^ 63" using ok(2) by (simp add: excerpt_def)
  from sr_ok_push [OF ok(1) d] obtain ra where ra:
    "StreamReassembler_push_substring stl_ideal (rc_reassembler r) ?d k ?eof = Inr ra" "sr_ok S ra"
    "sr_cover ra = sr_cover (rc_reassembler r) \<union>
      ({k ..< k + length ?d} \<inter> {..< bs_read (rc_output r) + sr_capacity (rc_reassembler r)})"
    "bs_read (sr_output ra) = bs_read (rc_output r)" "sr_capacity ra = sr_capacity (rc_reassembler r)"
    "sr_eof ra = (sr_eof (rc_reassembler r) \<or> ?eof)" by blast
  have "bs_written (sr_output ra) \<le> length S"
    using ra(2) sr_inv_first_gap(4) [of S ra] by (simp add: sr_ok_def)
  then have w: "add64 (bs_written (sr_output ra)) 1 = bs_written (sr_output ra) + 1"
    "add64 (bs_written (sr_output ra) + 1) 1 = bs_written (sr_output ra) + 2"
    using ok(2) by (simp_all add: add64_exact)
  have "sub64 (k + 1) 1 = k" using k by (simp add: sub64_exact)
  moreover have "rc_reassembler r' = rc_reassembler r" by (subst r') simp
  ultimately have "TCPReceiver_push stl_ideal r' seg (k + 1) = Inr (r'\<lparr>rc_reassembler := ra,
      rc_recv_base := bs_written (sr_output ra) + 1 + (if bs_eof (sr_output ra) then 1 else 0)\<rparr>)"
    using ra(1) w by (simp add: TCPReceiver_push_def TCPReceiver_accessors Let_def)
  then show ?thesis
    using inv fin ra(2-) ok(2) by (subst r', subst (asm) r') (simp add: rc_step_def rc_inv_def)
qed

lemma rc_step_refl:
  assumes "rc_inv S isn r" "new \<inter> {..< bs_read (rc_output r) + rc_capacity r} \<subseteq> {..< bs_written (rc_output r)}"
  shows "rc_step S isn r new r"
proof -
  have "sr_inv S (rc_reassembler r)" using assms(1) by (simp add: rc_inv_def sr_ok_def)
  from assms(2) sr_inv_first_gap(1) [OF this] assms(1) show ?thesis by (auto simp: rc_step_def)
qed

lemma decode_near:
  assumes "k < 2 ^ 63" "w < 2 ^ 63" "k + 1 < w + 2 ^ 31" "w < k + 1 + 2 ^ 31"
  shows "unwrap_abs (wrap_abs (k + 1) isn) isn w = k + 1"
  using assms by (intro seqno.dec_enc) simp_all

lemma TCPReceiver_accept_ok:
  assumes inv: "rc_inv S isn r" "rc_syn r" and seg: "carries S isn seg k"
    and near: "k + 1 < bs_written (rc_output r) + 2 ^ 31" "bs_written (rc_output r) < k + 1 + 2 ^ 31"
    and syn: "th_syn (ts_header seg) \<longrightarrow> bs_written (rc_output r) = 0"
  shows "\<exists>r'. TCPReceiver_accept stl_ideal r seg (wrap_abs (k + 1) isn) = Inr r' \<and> rc_syn r' \<and>
    rc_fin r' = (rc_fin r \<or> th_fin (ts_header seg)) \<and>
    rc_step S isn r
      (if th_fin (ts_header seg) \<and> rc_fin r then {} else {k ..< k + length (Buffer_str (ts_payload seg))}) r'"
proof -
  let ?n = "length (Buffer_str (ts_payload seg))" and ?w = "bs_written (rc_output r)"
  note facts = rc_inv_facts [OF inv(1)]
  have kn: "k + ?n \<le> length S" "length S < 2 ^ 63" and isn: "rc_isn r = isn"
    and base: "rc_recv_base r = ?w + 1 + (if bs_eof (rc_output r) then 1 else 0)"
    using seg inv by (auto simp: carries_def excerpt_def rc_inv_def)
  then have abs: "unwrap_abs (wrap_abs (k + 1) isn) (rc_isn r) ?w = k + 1"
    using facts(2) near by (simp only: isn) (intro decode_near, simp_all)
  note push = TCPReceiver_push_ok [OF inv seg]
  show ?thesis
  proof (cases "th_fin (ts_header seg)")
    case True
    show ?thesis
    proof (cases "rc_fin r")
      case fin: True
      with True inv rc_step_refl [OF inv(1), of "{}"] show ?thesis
        by (simp add: TCPReceiver_accept_def Let_def)
    next
      case False
      with True push [of "r\<lparr>rc_fin := True\<rparr>"] show ?thesis
        using abs by (auto simp: TCPReceiver_accept_def Let_def TCPReceiver_accessors)
    qed
  next
    case False
    let ?len = "TCPSegment_length_in_sequence_space seg"
    have len: "?len = ?n + (if th_syn (ts_header seg) then 1 else 0)"
      using False by (simp add: TCPSegment_length_in_sequence_space_def)
    define out where "out \<longleftrightarrow> ?len = 0 \<or> add64 (rc_recv_base r) (TCPReceiver_window_size r) \<le> k + 1 \<or>
      add64 (k + 1) ?len \<le> rc_recv_base r"
    have acc: "TCPReceiver_accept stl_ideal r seg (wrap_abs (k + 1) isn) =
        (if out then Inr r else TCPReceiver_push stl_ideal r seg (k + 1))"
      using False abs by (simp add: TCPReceiver_accept_def Let_def TCPReceiver_accessors out_def)
    show ?thesis
    proof (cases out)
      case True
      have "{k ..< k + ?n} \<inter> {..< bs_read (rc_output r) + rc_capacity r} \<subseteq> {..< ?w}"
      proof -
        have edge: "?w + TCPReceiver_window_size r = bs_read (rc_output r) + rc_capacity r"
          "bs_read (rc_output r) + rc_capacity r + 2 < 2 ^ 64"
          using facts(1,4) inv(1) out_ok_written [of S "rc_output r"]
          by (auto simp: rc_inv_def sr_ok_def sr_inv_def)
        then have "add64 (rc_recv_base r) (TCPReceiver_window_size r) =
            rc_recv_base r + TCPReceiver_window_size r"
          by (intro add64_exact) (simp add: base)
        moreover have "add64 (k + 1) ?len = k + 1 + ?len" using kn by (simp add: add64_exact len)
        moreover have "bs_eof (rc_output r) \<Longrightarrow> ?w = length S" using facts(6) by simp
        ultimately show ?thesis using True kn edge(1) by (auto simp: out_def base len split: if_splits)
      qed
      with True acc False inv rc_step_refl [OF inv(1)] show ?thesis by simp
    next
      case out: False
      from push [of r] False acc out show ?thesis by auto
    qed
  qed
qed

lemma TCPReceiver_segment_received_ok:
  assumes inv: "rc_inv S isn r" and seg: "carries S isn seg k"
    and near: "k + 1 < bs_written (rc_output r) + 2 ^ 31" "bs_written (rc_output r) < k + 1 + 2 ^ 31"
  shows "\<exists>r'. TCPReceiver_segment_received stl_ideal r seg = Inr r' \<and>
    rc_syn r' = (rc_syn r \<or> th_syn (ts_header seg)) \<and>
    rc_fin r' = (rc_fin r \<or> th_fin (ts_header seg) \<and> th_syn (ts_header seg) \<noteq> rc_syn r) \<and>
    rc_step S isn r
      (if th_syn (ts_header seg) = rc_syn r \<or> th_fin (ts_header seg) \<and> rc_fin r then {}
       else {k ..< k + length (Buffer_str (ts_payload seg))}) r'"
proof (cases "th_syn (ts_header seg) = rc_syn r")
  case True
  then have "TCPReceiver_segment_received stl_ideal r seg = Inr r"
    by (auto simp: TCPReceiver_segment_received_def Let_def)
  with True rc_step_refl [OF inv, of "{}"] show ?thesis by auto
next
  case diff: False
  show ?thesis
  proof (cases "th_syn (ts_header seg)")
    case False
    with diff seg TCPReceiver_accept_ok [OF inv _ seg near] show ?thesis
      by (auto simp: TCPReceiver_segment_received_def Let_def carries_def)
  next
    case True
    define r1 where "r1 = r\<lparr>rc_isn := isn, rc_syn := True, rc_recv_base := 1\<rparr>"
    have k: "k = 0" "th_seqno (ts_header seg) = isn" using seg True by (auto simp: carries_def)
    have r0: "bs_written (rc_output r) = 0" "\<not> rc_fin r" using inv diff True by (auto simp: rc_inv_def)
    then have "\<not> bs_eof (rc_output r)" using rc_inv_facts(6) [OF inv] by simp
    with r0 inv have inv1: "rc_inv S isn r1" "rc_syn r1" by (simp_all add: rc_inv_def r1_def)
    have step: "rc_step S isn r1 new r' \<longleftrightarrow> rc_step S isn r new r'" for new r'
      by (simp add: rc_step_def r1_def)
    have "wi_plus isn 1 = wrap_abs (k + 1) isn"
      using wi_plus_wrap_abs [of 0 isn 1] by (simp add: wrap_abs_zero k)
    then have run: "TCPReceiver_segment_received stl_ideal r seg =
        (if TCPSegment_length_in_sequence_space seg = 1 then Inr r1
         else TCPReceiver_accept stl_ideal r1 seg (wrap_abs (k + 1) isn))"
      using diff True k(2) by (simp add: TCPReceiver_segment_received_def Let_def r1_def)
    show ?thesis
    proof (cases "TCPSegment_length_in_sequence_space seg = 1")
      case one: True
      then have "Buffer_str (ts_payload seg) = []" "\<not> th_fin (ts_header seg)"
        using True by (auto simp: TCPSegment_length_in_sequence_space_def split: if_splits)
      with one run True diff rc_step_refl [OF inv1(1), of "{}"] step show ?thesis
        by (simp add: r1_def)
    next
      case False
      have "rc_fin r1 = rc_fin r" "rc_output r1 = rc_output r" by (simp_all add: r1_def)
      with False run True diff step r0 TCPReceiver_accept_ok [OF inv1 seg] near show ?thesis by auto
    qed
  qed
qed

lemma rc_step_mono:
  assumes "rc_inv S isn r" "rc_step S isn r new r'"
  shows "bs_written (rc_output r) \<le> bs_written (rc_output r')"
proof -
  have "sr_inv S (rc_reassembler r)" "sr_inv S (rc_reassembler r')"
    using assms by (auto simp: rc_inv_def sr_ok_def rc_step_def)
  from sr_inv_first_gap(1) [OF this(1)] sr_inv_first_gap(2) [OF this(2)] show ?thesis
    using assms(2) by (intro first_gap_le) (auto simp: rc_step_def)
qed

text \<open>The sequence number the receiver waits for, 0 before the SYN.\<close>

definition rc_pos :: "tcp_receiver \<Rightarrow> nat" where
  "rc_pos r = (if rc_syn r then rc_recv_base r else 0)"

lemma rc_pos_facts:
  assumes "rc_inv S isn r"
  shows "rc_pos r = (if rc_syn r
      then bs_written (rc_output r) + 1 + (if bs_eof (rc_output r) then 1 else 0) else 0)"
    and "rc_pos r \<le> length S + 2"
    and "rc_pos r = length S + 2 \<longleftrightarrow> rc_syn r \<and> bs_eof (rc_output r)"
    and "TCPReceiver_ackno r = (if rc_syn r then Some (wrap_abs (rc_pos r) isn) else None)"
proof -
  note f = rc_inv_facts [OF assms]
  have lim: "length S < 2 ^ 63" and base: "rc_syn r \<Longrightarrow> rc_isn r = isn \<and>
      rc_recv_base r = bs_written (rc_output r) + 1 + (if bs_eof (rc_output r) then 1 else 0)"
    using assms by (auto simp: rc_inv_def)
  then show p: "rc_pos r = (if rc_syn r
      then bs_written (rc_output r) + 1 + (if bs_eof (rc_output r) then 1 else 0) else 0)"
    by (simp add: rc_pos_def)
  with f(1) show "rc_pos r \<le> length S + 2" by simp
  from p f(1,6) show "rc_pos r = length S + 2 \<longleftrightarrow> rc_syn r \<and> bs_eof (rc_output r)" by auto
  show "TCPReceiver_ackno r = (if rc_syn r then Some (wrap_abs (rc_pos r) isn) else None)"
    using f(2) base by (simp add: p TCPReceiver_ackno_def TCPReceiver_accessors add64_exact Let_def)
qed

lemma rc_pos_mono:
  assumes "rc_inv S isn r" "rc_step S isn r new r'" "rc_syn r \<longrightarrow> rc_syn r'" "rc_fin r \<longrightarrow> rc_fin r'"
  shows "rc_pos r \<le> rc_pos r'"
proof -
  have r': "rc_inv S isn r'" using assms(2) by (simp add: rc_step_def)
  show ?thesis
    using rc_step_mono [OF assms(1,2)] rc_inv_facts(1,6) [OF assms(1)] rc_inv_facts(1,6) [OF r'] assms(3,4)
    unfolding rc_pos_facts(1) [OF assms(1)] rc_pos_facts(1) [OF r'] by auto
qed

section \<open>Runs\<close>

fun receiver_run :: "stl_env \<Rightarrow> tcp_receiver \<Rightarrow> tcp_segment list \<Rightarrow> tcp_receiver result" where
  "receiver_run env r [] = Inr r"
| "receiver_run env r (seg # segs) =
     bindR (TCPReceiver_segment_received env r seg) (\<lambda>r'. receiver_run env r' segs)"

lemma receiver_run_follows: "ub_or (receiver_run env r segs) (receiver_run stl_ideal r segs)"
  by (induction segs arbitrary: r) (auto intro: ub_intros receiver_follows)

abbreviation seg_range :: "tcp_segment \<times> size_t \<Rightarrow> nat set" where
  "seg_range x \<equiv> {snd x ..< snd x + length (Buffer_str (ts_payload (fst x)))}"

text \<open>
  All segments of a connection whose stream is shorter than \<open>2^31 - 1\<close> are near enough to be
  decoded, whatever has been received.
\<close>

lemma carries_near:
  assumes "carries S isn seg k" "rc_inv S isn r" "length S + 1 < 2 ^ 31"
  shows "k + 1 < bs_written (rc_output r) + 2 ^ 31" "bs_written (rc_output r) < k + 1 + 2 ^ 31"
  using assms rc_inv_facts(1) [OF assms(2)] by (auto simp: carries_def excerpt_def)

lemma receiver_run_inv:
  "rc_inv S isn r \<Longrightarrow> length S + 1 < 2 ^ 31 \<Longrightarrow> \<forall>x \<in> set segs. carries S isn (fst x) (snd x) \<Longrightarrow>
   \<exists>r'. receiver_run stl_ideal r (map fst segs) = Inr r' \<and> rc_inv S isn r' \<and>
     rc_capacity r' = rc_capacity r \<and> bs_read (rc_output r') = bs_read (rc_output r)"
proof (induction segs arbitrary: r)
  case (Cons x segs)
  have x: "carries S isn (fst x) (snd x)" using Cons.prems(3) by simp
  from TCPReceiver_segment_received_ok [OF Cons.prems(1) x carries_near [OF x Cons.prems(1,2)]]
  obtain r1 where "TCPReceiver_segment_received stl_ideal r (fst x) = Inr r1" "rc_inv S isn r1"
    "rc_capacity r1 = rc_capacity r" "bs_read (rc_output r1) = bs_read (rc_output r)"
    by (auto simp: rc_step_def)
  with Cons.IH [of r1] Cons.prems(2,3) show ?case by auto
qed simp

lemma receiver_run_cover:
  assumes "length S + 1 < 2 ^ 31"
  shows "rc_inv S isn r \<Longrightarrow> rc_syn r \<Longrightarrow> length S \<le> bs_read (rc_output r) + rc_capacity r \<Longrightarrow>
   \<forall>x \<in> set segs. carries S isn (fst x) (snd x) \<and> \<not> th_syn (ts_header (fst x)) \<and>
     (th_fin (ts_header (fst x)) \<longrightarrow> seg_range x = F) \<Longrightarrow>
   rc_fin r \<longrightarrow> F \<subseteq> sr_cover (rc_reassembler r) \<Longrightarrow>
   \<exists>r'. receiver_run stl_ideal r (map fst segs) = Inr r' \<and> rc_inv S isn r' \<and> rc_syn r' \<and>
     bs_read (rc_output r') = bs_read (rc_output r) \<and>
     rc_fin r' = (rc_fin r \<or> (\<exists>x \<in> set segs. th_fin (ts_header (fst x)))) \<and>
     sr_cover (rc_reassembler r) \<union> (\<Union>x \<in> set segs. seg_range x) \<subseteq> sr_cover (rc_reassembler r')"
proof (induction segs arbitrary: r)
  case (Cons x segs)
  have x: "carries S isn (fst x) (snd x)" "\<not> th_syn (ts_header (fst x))"
    "th_fin (ts_header (fst x)) \<longrightarrow> seg_range x = F" using Cons.prems(4) by auto
  have low: "seg_range x \<subseteq> {..< bs_read (rc_output r) + rc_capacity r}"
    using x(1) Cons.prems(3) by (auto simp: carries_def excerpt_def)
  from TCPReceiver_segment_received_ok [OF Cons.prems(1) x(1) carries_near [OF x(1) Cons.prems(1) assms]]
  obtain r1 where r1: "TCPReceiver_segment_received stl_ideal r (fst x) = Inr r1" "rc_inv S isn r1"
    "rc_capacity r1 = rc_capacity r" "bs_read (rc_output r1) = bs_read (rc_output r)" "rc_syn r1"
    "rc_fin r1 = (rc_fin r \<or> th_fin (ts_header (fst x)))"
    "sr_cover (rc_reassembler r1) = sr_cover (rc_reassembler r) \<union>
      ((if th_fin (ts_header (fst x)) \<and> rc_fin r then {} else seg_range x) \<inter>
       {..< bs_read (rc_output r) + rc_capacity r})"
    using x(2) Cons.prems(2) by (auto simp: rc_step_def)
  have cover: "sr_cover (rc_reassembler r) \<union> seg_range x \<subseteq> sr_cover (rc_reassembler r1)"
    using r1(7) low x(3) Cons.prems(5) by (auto split: if_splits)
  have fin: "rc_fin r1 \<longrightarrow> F \<subseteq> sr_cover (rc_reassembler r1)"
    using r1(6) cover x(3) Cons.prems(5) by blast
  have "length S \<le> bs_read (rc_output r1) + rc_capacity r1" using Cons.prems(3) r1(3,4) by simp
  from Cons.IH [OF r1(2,5) this _ fin] Cons.prems(4) obtain r' where
    "receiver_run stl_ideal r1 (map fst segs) = Inr r'" "rc_inv S isn r'" "rc_syn r'"
    "bs_read (rc_output r') = bs_read (rc_output r1)"
    "rc_fin r' = (rc_fin r1 \<or> (\<exists>x \<in> set segs. th_fin (ts_header (fst x))))"
    "sr_cover (rc_reassembler r1) \<union> (\<Union>x \<in> set segs. seg_range x) \<subseteq> sr_cover (rc_reassembler r')"
    by auto
  with r1 cover show ?case by auto
qed auto

section \<open>Properties\<close>

text \<open>
  C5: \<open>segment_received\<close> refines the abstract reassembler through 32-bit sequence numbers, on every
  platform. For a segment of the peer's stream whose absolute position is within \<open>2^31\<close> of what has
  been assembled, the call either runs into an undefined operation of the reassembler or returns with
  the invariant kept; it ignores a segment before the SYN, a second SYN and a second FIN, and otherwise
  adds exactly the positions of the payload that lie inside the window. A segment without payload and
  FIN, or one that is ignored, never reaches an undefined operation.
\<close>

theorem tcp_receiver_refines:
  assumes "rc_inv S isn r" "carries S isn seg k"
    and "k + 1 < bs_written (rc_output r) + 2 ^ 31" "bs_written (rc_output r) < k + 1 + 2 ^ 31"
  shows "(TCPReceiver_segment_received env r seg = Inl UndefinedBehaviour \<or>
      (\<exists>r'. TCPReceiver_segment_received env r seg = Inr r' \<and> rc_inv S isn r' \<and>
        sr_abs (rc_reassembler r') =
          (if th_syn (ts_header seg) = rc_syn r \<or> th_fin (ts_header seg) \<and> rc_fin r
           then sr_abs (rc_reassembler r)
           else reassembly_push (rc_capacity r) k (length (Buffer_str (ts_payload seg)))
                  (th_fin (ts_header seg)) (sr_abs (rc_reassembler r))))) \<and>
    (th_syn (ts_header seg) = rc_syn r \<or> th_fin (ts_header seg) \<and> rc_fin r \<or>
       Buffer_str (ts_payload seg) = [] \<and> \<not> th_fin (ts_header seg) \<longrightarrow>
     TCPReceiver_segment_received env r seg \<noteq> Inl UndefinedBehaviour)"
proof -
  from TCPReceiver_segment_received_ok [OF assms] obtain r' where
    r': "TCPReceiver_segment_received stl_ideal r seg = Inr r'" "rc_inv S isn r'"
    "rc_fin r' = (rc_fin r \<or> th_fin (ts_header seg) \<and> th_syn (ts_header seg) \<noteq> rc_syn r)"
    "bs_read (rc_output r') = bs_read (rc_output r)"
    "sr_cover (rc_reassembler r') = sr_cover (rc_reassembler r) \<union>
      ((if th_syn (ts_header seg) = rc_syn r \<or> th_fin (ts_header seg) \<and> rc_fin r then {}
        else {k ..< k + length (Buffer_str (ts_payload seg))}) \<inter>
       {..< bs_read (rc_output r) + rc_capacity r})"
    by (auto simp: rc_step_def)
  moreover have "sr_eof (rc_reassembler r') = rc_fin r'" "sr_eof (rc_reassembler r) = rc_fin r"
    using assms(1) r'(2) by (simp_all add: rc_inv_def)
  ultimately have "sr_abs (rc_reassembler r') =
      (if th_syn (ts_header seg) = rc_syn r \<or> th_fin (ts_header seg) \<and> rc_fin r
       then sr_abs (rc_reassembler r)
       else reassembly_push (rc_capacity r) k (length (Buffer_str (ts_payload seg)))
              (th_fin (ts_header seg)) (sr_abs (rc_reassembler r)))"
    by (auto simp: sr_abs_def reassembly_push_def ByteStream_accessors)
  moreover have "TCPReceiver_segment_received env r seg \<noteq> Inl UndefinedBehaviour"
    if "th_syn (ts_header seg) = rc_syn r \<or> th_fin (ts_header seg) \<and> rc_fin r \<or>
       Buffer_str (ts_payload seg) = [] \<and> \<not> th_fin (ts_header seg)"
    using that by (auto simp: TCPReceiver_segment_received_def TCPReceiver_accept_def Let_def
        TCPSegment_length_in_sequence_space_def Buffer_size_def)
  ultimately show ?thesis using receiver_follows [of env r seg] r'(1,2) by (auto elim: ub_orE)
qed

definition syn_segment :: "WrappingInt32 \<Rightarrow> tcp_segment" where
  "syn_segment isn = \<lparr>ts_header = TCPHeader_default\<lparr>th_seqno := isn, th_syn := True\<rparr>,
     ts_payload = Buffer_default\<rparr>"

definition fin_segment :: "WrappingInt32 \<Rightarrow> bytes \<Rightarrow> tcp_segment" where
  "fin_segment seqno d = \<lparr>ts_header = TCPHeader_default\<lparr>th_seqno := seqno, th_fin := True\<rparr>,
     ts_payload = Buffer_new d\<rparr>"

lemma sample_segments:
  "carries S isn (syn_segment isn) 0"
  "k \<le> length S \<Longrightarrow> carries S isn (fin_segment (wrap_abs (k + 1) isn) (drop k S)) k"
  by (simp_all add: carries_def syn_segment_def fin_segment_def TCPHeader_default_def excerpt_def)

theorem tcp_receiver_refines_witness:
  "\<exists>r'. TCPReceiver_segment_received stl_strict (TCPReceiver_new 8) (syn_segment (WrappingInt32 77)) =
      Inr r' \<and> rc_inv [1, 2, 3] (WrappingInt32 77) r'"
proof -
  have "rc_inv [1, 2, 3] (WrappingInt32 77) (TCPReceiver_new 8)"
    by (rule rc_inv_new) simp_all
  from tcp_receiver_refines [OF this sample_segments(1), of stl_strict] show ?thesis
    by (auto simp: TCPReceiver_new_def StreamReassembler_new_def ByteStream_new_def syn_segment_def TCPHeader_default_def)
qed

text \<open>
  C21: acknowledgment number and window. In every state of a connection the acknowledgment number
  is absent before the SYN and otherwise denotes the first position not yet received (one more
  for the SYN, one more when the stream has ended); the window reaches from there to the capacity
  beyond the last byte read.
\<close>

theorem tcp_receiver_ackno_window:
  assumes "rc_inv S isn r"
  shows "TCPReceiver_ackno r =
      (if rc_syn r
       then Some (wrap_abs (reassembly_ready (sr_abs (rc_reassembler r)) + 1 +
              (if ra_closing (sr_abs (rc_reassembler r)) \<and>
                  reassembly_ready (sr_abs (rc_reassembler r)) = length S then 1 else 0)) isn)
       else None) \<and>
    reassembly_ready (sr_abs (rc_reassembler r)) + TCPReceiver_window_size r =
      ra_taken (sr_abs (rc_reassembler r)) + rc_capacity r"
proof -
  have "sr_inv S (rc_reassembler r)" using assms by (simp add: rc_inv_def sr_ok_def)
  note ready = sr_inv_ready [OF this]
  note facts = rc_inv_facts [OF assms]
  have "add64 (bs_written (rc_output r)) 1 = bs_written (rc_output r) + 1"
    "add64 (bs_written (rc_output r) + 1) 1 = bs_written (rc_output r) + 2"
    using facts(2) by (simp_all add: add64_exact)
  moreover have "rc_fin r \<longleftrightarrow> sr_eof (rc_reassembler r)" "rc_syn r \<Longrightarrow> rc_isn r = isn"
    using assms by (auto simp: rc_inv_def split: if_splits)
  ultimately show ?thesis
    using facts(4,6) ready
    by (auto simp: TCPReceiver_ackno_def TCPReceiver_accessors Let_def sr_abs_def)
qed

theorem tcp_receiver_ackno_window_witness:
  "TCPReceiver_ackno (TCPReceiver_new 8) = None \<and> TCPReceiver_window_size (TCPReceiver_new 8) = 8"
proof -
  have "rc_inv [1, 2, 3] (WrappingInt32 77) (TCPReceiver_new 8)"
    by (rule rc_inv_new) simp_all
  from tcp_receiver_ackno_window [OF this] sr_inv_ready [of "[1, 2, 3]" "rc_reassembler (TCPReceiver_new 8)"] this
  show ?thesis
    by (simp add: rc_inv_def sr_ok_def)
       (simp add: TCPReceiver_new_def StreamReassembler_new_def ByteStream_new_def sr_abs_def
        ByteStream_accessors)
qed

text \<open>
  The window never moves back. Receiving a segment of the stream does not decrease the first
  missing position and leaves the right edge of the window where it is.
\<close>

theorem tcp_receiver_window_edge:
  assumes "rc_inv S isn r" "carries S isn seg k"
    and "k + 1 < bs_written (rc_output r) + 2 ^ 31" "bs_written (rc_output r) < k + 1 + 2 ^ 31"
    and "TCPReceiver_segment_received env r seg = Inr r'"
  shows "ByteStream_bytes_written (TCPReceiver_stream_out r) \<le>
      ByteStream_bytes_written (TCPReceiver_stream_out r') \<and>
    ByteStream_bytes_written (TCPReceiver_stream_out r') + TCPReceiver_window_size r' =
      ByteStream_bytes_written (TCPReceiver_stream_out r) + TCPReceiver_window_size r"
proof -
  from TCPReceiver_segment_received_ok [OF assms(1-4)] ub_or_Inr [OF receiver_follows assms(5)]
  obtain new where step: "rc_step S isn r new r'" by auto
  then have r': "rc_inv S isn r'" "rc_capacity r' = rc_capacity r"
    "bs_read (rc_output r') = bs_read (rc_output r)" by (auto simp: rc_step_def)
  from rc_step_mono [OF assms(1) step]
    rc_inv_facts(4) [OF assms(1)] rc_inv_facts(4) [OF r'(1)] r'(2,3) show ?thesis
    by (simp add: TCPReceiver_accessors)
qed

theorem tcp_receiver_window_edge_witness:
  "\<exists>r'. TCPReceiver_segment_received stl_ideal (TCPReceiver_new 8) (syn_segment (WrappingInt32 77)) =
      Inr r' \<and>
    ByteStream_bytes_written (TCPReceiver_stream_out (TCPReceiver_new 8)) \<le>
      ByteStream_bytes_written (TCPReceiver_stream_out r')"
proof -
  have inv: "rc_inv [1, 2, 3] (WrappingInt32 77) (TCPReceiver_new 8)"
    by (rule rc_inv_new) simp_all
  have near: "0 + 1 < bs_written (rc_output (TCPReceiver_new 8)) + 2 ^ 31"
    "bs_written (rc_output (TCPReceiver_new 8)) < 0 + 1 + 2 ^ 31"
    by (simp_all add: TCPReceiver_new_def StreamReassembler_new_def ByteStream_new_def)
  obtain r' where r': "TCPReceiver_segment_received stl_ideal (TCPReceiver_new 8)
      (syn_segment (WrappingInt32 77)) = Inr r'"
    using TCPReceiver_segment_received_ok [OF inv sample_segments(1) near] by blast
  with tcp_receiver_window_edge [OF inv sample_segments(1) near r'] show ?thesis by blast
qed

text \<open>
  C22: complete reception, on every platform. A SYN, followed by segments in any order, with any
  overlaps and repetitions, that together cover a stream shorter than \<open>2^31 - 1\<close> that fits in the
  capacity, where every FIN comes with the same payload: either some segment runs into an undefined
  operation of the reassembler, or all are received, the output stream holds exactly the peer's bytes
  and is ended, and the acknowledgment number covers SYN, data and FIN. The second is the case on a
  platform that gets past the undefined operations.
\<close>

theorem tcp_receiver_complete:
  assumes "length S + 1 < 2 ^ 31" "length S \<le> capacity" "capacity < 2 ^ 63"
    and "\<forall>x \<in> set segs. carries S isn (fst x) (snd x) \<and> \<not> th_syn (ts_header (fst x)) \<and>
      (th_fin (ts_header (fst x)) \<longrightarrow> seg_range x = F)"
    and "{..<length S} \<subseteq> (\<Union>x \<in> set segs. seg_range x)"
    and "\<exists>x \<in> set segs. th_fin (ts_header (fst x))"
  shows "(receiver_run env (TCPReceiver_new capacity) (syn_segment isn # map fst segs) = Inl UndefinedBehaviour \<or>
      (\<exists>r. receiver_run env (TCPReceiver_new capacity) (syn_segment isn # map fst segs) = Inr r \<and>
        bs_buf (TCPReceiver_stream_out r) = S \<and> ByteStream_input_ended (TCPReceiver_stream_out r) \<and>
        TCPReceiver_ackno r = Some (wrap_abs (length S + 2) isn))) \<and>
    receiver_run stl_ideal (TCPReceiver_new capacity) (syn_segment isn # map fst segs) \<noteq> Inl UndefinedBehaviour"
proof -
  let ?r0 = "TCPReceiver_new capacity"
  have inv0: "rc_inv S isn ?r0" by (rule rc_inv_new) (use assms(1-3) in simp_all)
  have z: "\<not> rc_syn ?r0" "\<not> rc_fin ?r0" "bs_read (rc_output ?r0) = 0" "rc_capacity ?r0 = capacity"
    by (simp_all add: TCPReceiver_new_def StreamReassembler_new_def ByteStream_new_def)
  from TCPReceiver_segment_received_ok [OF inv0 sample_segments(1)
      carries_near [OF sample_segments(1) inv0 assms(1)]] z
  obtain r1 where r1: "TCPReceiver_segment_received stl_ideal ?r0 (syn_segment isn) = Inr r1"
    "rc_inv S isn r1" "rc_syn r1" "bs_read (rc_output r1) = 0" "rc_capacity r1 = capacity"
    "\<not> rc_fin r1"
    by (auto simp: rc_step_def syn_segment_def TCPHeader_default_def)
  from receiver_run_cover [OF assms(1) r1(2,3) _ assms(4)] r1(4-) assms(2,6) obtain r where
    r: "receiver_run stl_ideal r1 (map fst segs) = Inr r" "rc_inv S isn r" "rc_syn r"
    "bs_read (rc_output r) = 0" "rc_fin r" "(\<Union>x \<in> set segs. seg_range x) \<subseteq> sr_cover (rc_reassembler r)"
    by auto
  have ok: "sr_ok S (rc_reassembler r)" "sr_inv S (rc_reassembler r)"
    using r(2) by (auto simp: rc_inv_def sr_ok_def)
  have "{..<length S} \<subseteq> sr_cover (rc_reassembler r)" using r(6) assms(5) by (rule order_trans [rotated])
  from first_gap_le [OF this] sr_inv_first_gap(2,4) [OF ok(2)]
  have w: "bs_written (rc_output r) = length S" by (simp add: antisym)
  have "bs_eof (rc_output r)" using rc_inv_facts(6) [OF r(2)] r(5) w by simp
  moreover have "bs_buf (rc_output r) = S" using sr_ok_bounds(1) [OF ok(1)] r(4) w by simp
  moreover have "rc_isn r = isn" using r(2,3) by (simp add: rc_inv_def)
  ultimately have "receiver_run stl_ideal ?r0 (syn_segment isn # map fst segs) = Inr r \<and>
      bs_buf (TCPReceiver_stream_out r) = S \<and> ByteStream_input_ended (TCPReceiver_stream_out r) \<and>
      TCPReceiver_ackno r = Some (wrap_abs (length S + 2) isn)"
    using r1(1) r(1,3) w assms(1)
    by (simp add: TCPReceiver_accessors TCPReceiver_ackno_def Let_def add64_exact)
  with receiver_run_follows [of env ?r0 "syn_segment isn # map fst segs"] show ?thesis
    by (elim ub_orE) simp_all
qed

theorem tcp_receiver_complete_witness:
  "\<exists>r. receiver_run stl_sample (TCPReceiver_new 8)
      [syn_segment (WrappingInt32 77),
       fin_segment (wrap_abs (0 + 1) (WrappingInt32 77)) (drop 0 [1, 2, 3])] = Inr r \<and>
    bs_buf (TCPReceiver_stream_out r) = [1, 2, 3] \<and>
    TCPReceiver_ackno r = Some (wrap_abs 5 (WrappingInt32 77))"
proof -
  let ?segs = "[(fin_segment (wrap_abs (0 + 1) (WrappingInt32 77)) (drop 0 [1, 2, 3]), 0 :: size_t)]"
  have a: "\<forall>x \<in> set ?segs. carries [1, 2, 3] (WrappingInt32 77) (fst x) (snd x) \<and>
      \<not> th_syn (ts_header (fst x)) \<and> (th_fin (ts_header (fst x)) \<longrightarrow> seg_range x = {0..<3})"
    using sample_segments(2) [of 0 "[1, 2, 3]" "WrappingInt32 77"]
    by (simp add: fin_segment_def TCPHeader_default_def numeral_3_eq_3)
  have b: "{..<length [1, 2, 3 :: byte]} \<subseteq> (\<Union>x \<in> set ?segs. seg_range x)"
    "\<exists>x \<in> set ?segs. th_fin (ts_header (fst x))"
    by (auto simp: fin_segment_def)
  have "receiver_run stl_sample (TCPReceiver_new 8) (syn_segment (WrappingInt32 77) # map fst ?segs) \<noteq> Inl UndefinedBehaviour"
    by (simp add: TCPReceiver_segment_received_def TCPReceiver_accept_def TCPReceiver_push_def TCPReceiver_new_def
        TCPReceiver_accessors TCPSegment_length_in_sequence_space_def Buffer_size_def Buffer_copy_def syn_segment_def fin_segment_def TCPHeader_default_def
        reassembler_eval stl_sample_def wi_plus_def wrap_abs_def bindR_eq_Inl)
  moreover have "receiver_run stl_sample (TCPReceiver_new 8) (syn_segment (WrappingInt32 77) # map fst ?segs) = Inl UndefinedBehaviour \<or>
    (\<exists>r. receiver_run stl_sample (TCPReceiver_new 8) (syn_segment (WrappingInt32 77) # map fst ?segs) = Inr r \<and>
      bs_buf (TCPReceiver_stream_out r) = [1, 2, 3] \<and>
      ByteStream_input_ended (TCPReceiver_stream_out r) \<and>
      TCPReceiver_ackno r = Some (wrap_abs (length [1, 2, 3 :: byte] + 2) (WrappingInt32 77)))"
    by (rule tcp_receiver_complete [THEN conjunct1, OF _ _ _ a b]) simp_all
  ultimately show ?thesis by (simp add: eval_nat_numeral) blast
qed

text \<open>
  One FIN only. Once a FIN has been accepted every later segment with a FIN is dropped as a
  whole, its payload included, also when bytes of that payload are still missing.
\<close>

theorem tcp_receiver_drops_second_fin:
  assumes "rc_fin r" "rc_syn r" "th_fin (ts_header seg)"
  shows "TCPReceiver_segment_received env r seg = Inr r"
  using assms by (simp add: TCPReceiver_segment_received_def TCPReceiver_accept_def Let_def)

theorem tcp_receiver_drops_second_fin_witness:
  "TCPReceiver_segment_received stl_sample
      ((TCPReceiver_new 8)\<lparr>rc_syn := True, rc_fin := True\<rparr>) (fin_segment (WrappingInt32 1) [7]) =
    Inr ((TCPReceiver_new 8)\<lparr>rc_syn := True, rc_fin := True\<rparr>)"
  by (rule tcp_receiver_drops_second_fin)
     (simp_all add: TCPReceiver_new_def fin_segment_def TCPHeader_default_def)

end
