(* ===== verification/TCP_Sender.thy ===== *)
theory TCP_Sender
  imports TCP_Receiver
begin

text \<open>
  The sender of \<open>tcp_sender.hh\<close> and \<open>tcp_sender.cc\<close> with its retransmission
  timer, and the constants of \<open>tcp_helpers/tcp_config.hh\<close> it uses.
\<close>

section \<open>Configuration\<close>

definition TCPConfig_DEFAULT_CAPACITY :: size_t where
  "TCPConfig_DEFAULT_CAPACITY = 64000"

definition TCPConfig_MAX_PAYLOAD_SIZE :: size_t where
  "TCPConfig_MAX_PAYLOAD_SIZE = 1452"

definition TCPConfig_TIMEOUT_DFLT :: uint16 where
  "TCPConfig_TIMEOUT_DFLT = 1000"

definition TCPConfig_MAX_RETX_ATTEMPTS :: size_t where
  "TCPConfig_MAX_RETX_ATTEMPTS = 8"

record tcp_config =
  cfg_rt_timeout :: uint16
  cfg_recv_capacity :: size_t
  cfg_send_capacity :: size_t
  cfg_fixed_isn :: "WrappingInt32 option"

definition TCPConfig_default :: tcp_config where
  "TCPConfig_default =
     \<lparr>cfg_rt_timeout = TCPConfig_TIMEOUT_DFLT, cfg_recv_capacity = TCPConfig_DEFAULT_CAPACITY,
      cfg_send_capacity = TCPConfig_DEFAULT_CAPACITY, cfg_fixed_isn = None\<rparr>"

section \<open>The timer\<close>

record timer =
  tm_running :: bool
  tm_total_time :: size_t
  tm_rt_timeout :: size_t

definition Timer_new :: "size_t \<Rightarrow> timer" where
  "Timer_new rt = \<lparr>tm_running = False, tm_total_time = 0, tm_rt_timeout = rt\<rparr>"

definition Timer_start :: "timer \<Rightarrow> timer" where
  "Timer_start t = t\<lparr>tm_running := True, tm_total_time := 0\<rparr>"

definition Timer_start_with :: "timer \<Rightarrow> size_t \<Rightarrow> timer" where
  "Timer_start_with t initial_RTO =
     t\<lparr>tm_running := True, tm_total_time := 0, tm_rt_timeout := initial_RTO\<rparr>"

definition Timer_is_timeout :: "timer \<Rightarrow> bool" where
  "Timer_is_timeout t \<longleftrightarrow> tm_total_time t \<ge> tm_rt_timeout t"

definition Timer_double_rto :: "timer \<Rightarrow> timer" where
  "Timer_double_rto t = t\<lparr>tm_rt_timeout := mul64 (tm_rt_timeout t) 2\<rparr>"

definition Timer_clear :: "timer \<Rightarrow> timer" where
  "Timer_clear t = t\<lparr>tm_running := False, tm_total_time := 0, tm_rt_timeout := 0\<rparr>"

lemmas Timer_defs =
  Timer_new_def Timer_start_def Timer_start_with_def Timer_is_timeout_def Timer_double_rto_def
  Timer_clear_def

section \<open>The sender\<close>

record tcp_sender =
  sn_isn :: WrappingInt32
  sn_segments_out :: "tcp_segment list"
  sn_initial_retransmission_timeout :: size_t
  sn_stream :: byte_stream
  sn_next_seqno :: size_t
  sn_timer :: timer
  sn_send_base :: size_t
  sn_window_size :: size_t
  sn_window_size_zero :: bool
  sn_syn_flag :: bool
  sn_fin_flag :: bool
  sn_copy_segments_out :: "tcp_segment list"
  sn_consecutive_retransmissions :: size_t

text \<open>\<open>random\<close> stands for the value of \<open>random_device()()\<close>.\<close>

definition TCPSender_new ::
  "WrappingInt32 \<Rightarrow> size_t \<Rightarrow> uint16 \<Rightarrow> WrappingInt32 option \<Rightarrow> tcp_sender" where
  "TCPSender_new random capacity retx_timeout fixed_isn =
     \<lparr>sn_isn = (case fixed_isn of Some isn \<Rightarrow> isn | None \<Rightarrow> random), sn_segments_out = [],
      sn_initial_retransmission_timeout = unat retx_timeout, sn_stream = ByteStream_new capacity,
      sn_next_seqno = 0, sn_timer = Timer_new (unat retx_timeout), sn_send_base = 0,
      sn_window_size = 1, sn_window_size_zero = False, sn_syn_flag = False, sn_fin_flag = False,
      sn_copy_segments_out = [], sn_consecutive_retransmissions = 0\<rparr>"

definition TCPSender_bytes_in_flight :: "tcp_sender \<Rightarrow> size_t" where
  "TCPSender_bytes_in_flight s = sub64 (sn_next_seqno s) (sn_send_base s)"

definition TCPSender_next_seqno :: "tcp_sender \<Rightarrow> WrappingInt32" where
  "TCPSender_next_seqno s = wrap_abs (sn_next_seqno s) (sn_isn s)"

definition TCPSender_consecutive_retransmissions :: "tcp_sender \<Rightarrow> size_t" where
  "TCPSender_consecutive_retransmissions s = sn_consecutive_retransmissions s mod 2 ^ 32"

definition TCPSender_send_segment :: "tcp_sender \<Rightarrow> tcp_segment \<Rightarrow> tcp_sender" where
  "TCPSender_send_segment s seg =
     (let seg = seg\<lparr>ts_header := (ts_header seg)\<lparr>th_seqno := wrap_abs (sn_next_seqno s) (sn_isn s)\<rparr>\<rparr>;
          s = s\<lparr>sn_next_seqno := add64 (sn_next_seqno s) (TCPSegment_length_in_sequence_space seg)\<rparr>;
          s = s\<lparr>sn_segments_out := sn_segments_out s @ [seg],
                sn_copy_segments_out := sn_copy_segments_out s @ [seg]\<rparr>
      in if \<not> tm_running (sn_timer s)
         then s\<lparr>sn_timer := Timer_start_with (sn_timer s) (sn_initial_retransmission_timeout s)\<rparr>
         else s)"

definition TCPSender_send_empty_segment :: "tcp_sender \<Rightarrow> tcp_sender" where
  "TCPSender_send_empty_segment s =
     (let seg = \<lparr>ts_header = TCPHeader_default\<lparr>th_seqno := wrap_abs (sn_next_seqno s) (sn_isn s)\<rparr>,
                 ts_payload = Buffer_default\<rparr>
      in s\<lparr>sn_segments_out := sn_segments_out s @ [seg]\<rparr>)"

text \<open>One round of the loop of \<open>fill_window\<close>: the segment sent and the new sender and \<open>rem\<close>.\<close>

definition TCPSender_fill_step :: "tcp_sender \<Rightarrow> size_t \<Rightarrow> tcp_sender \<times> size_t" where
  "TCPSender_fill_step s rem =
     (let (stream, str) = ByteStream_read (sn_stream s) (min rem TCPConfig_MAX_PAYLOAD_SIZE);
          s = s\<lparr>sn_stream := stream\<rparr>;
          seg = TCPSegment_default\<lparr>ts_payload := Buffer_new str\<rparr>;
          fin = (ByteStream_eof (sn_stream s) \<and>
                 add64 (TCPSegment_length_in_sequence_space seg) 1 \<le> rem);
          seg = (if fin then seg\<lparr>ts_header := (ts_header seg)\<lparr>th_fin := True\<rparr>\<rparr> else seg);
          s = (if fin then s\<lparr>sn_fin_flag := True\<rparr> else s);
          rem = sub64 rem (TCPSegment_length_in_sequence_space seg)
      in (TCPSender_send_segment s seg, rem))"

lemma fill_step_shrinks:
  assumes "0 < rem" "\<not> ByteStream_buffer_empty (sn_stream s)"
  shows "length (bs_buf (sn_stream (fst (TCPSender_fill_step s rem)))) < length (bs_buf (sn_stream s))"
  using assms
  by (auto simp: TCPSender_fill_step_def TCPSender_send_segment_def Let_def read_exact
      ByteStream_accessors TCPConfig_MAX_PAYLOAD_SIZE_def)

function TCPSender_fill_loop :: "tcp_sender \<Rightarrow> size_t \<Rightarrow> tcp_sender" where
  "TCPSender_fill_loop s rem =
     (if rem > 0 \<and> \<not> ByteStream_buffer_empty (sn_stream s)
      then let r = TCPSender_fill_step s rem in TCPSender_fill_loop (fst r) (snd r)
      else s)"
  by pat_completeness auto
termination
  by (relation "measure (\<lambda>(s, rem). length (bs_buf (sn_stream s)))") (use fill_step_shrinks in \<open>simp_all add: case_prod_beta\<close>)

declare TCPSender_fill_loop.simps [simp del]

definition TCPSender_fill_window :: "tcp_sender \<Rightarrow> tcp_sender" where
  "TCPSender_fill_window s =
     (if sn_window_size s = 0 \<or> sn_fin_flag s \<or>
         (sn_syn_flag s \<and> ByteStream_buffer_empty (sn_stream s) \<and>
          \<not> ByteStream_input_ended (sn_stream s))
      then s
      else if \<not> sn_syn_flag s then
        let seg = TCPSegment_default\<lparr>ts_header := TCPHeader_default\<lparr>th_syn := True\<rparr>\<rparr>
        in (TCPSender_send_segment s seg)\<lparr>sn_syn_flag := True\<rparr>
      else if ByteStream_eof (sn_stream s) then
        if sub64 (sn_window_size s) (TCPSender_bytes_in_flight s) \<le> 0 then s
        else
          let seg = TCPSegment_default\<lparr>ts_header := TCPHeader_default\<lparr>th_fin := True\<rparr>\<rparr>
          in (TCPSender_send_segment s seg)\<lparr>sn_fin_flag := True\<rparr>
      else TCPSender_fill_loop s (sub64 (sn_window_size s) (TCPSender_bytes_in_flight s)))"

text \<open>The loop of \<open>ack_received\<close> over the outstanding segments.\<close>

definition TCPSender_acknowledged :: "tcp_sender \<Rightarrow> size_t \<Rightarrow> tcp_segment \<Rightarrow> bool" where
  "TCPSender_acknowledged s absolute_ackno seg \<longleftrightarrow>
     add64 (unwrap_abs (th_seqno (ts_header seg)) (sn_isn s) (sn_next_seqno s))
       (TCPSegment_length_in_sequence_space seg) \<le> absolute_ackno"

definition TCPSender_ack_received :: "tcp_sender \<Rightarrow> WrappingInt32 \<Rightarrow> uint16 \<Rightarrow> tcp_sender" where
  "TCPSender_ack_received s ackno window_size =
     (let absolute_ackno = unwrap_abs ackno (sn_isn s) (sn_send_base s)
      in if absolute_ackno > sn_next_seqno s then s
         else
           let s = (if window_size = 0
                    then s\<lparr>sn_window_size := 1, sn_window_size_zero := True\<rparr>
                    else s\<lparr>sn_window_size := unat window_size, sn_window_size_zero := False\<rparr>)
           in if absolute_ackno \<le> sn_send_base s then s
              else
                let s = s\<lparr>sn_send_base := absolute_ackno\<rparr>;
                    s = s\<lparr>sn_copy_segments_out :=
                          dropWhile (TCPSender_acknowledged s absolute_ackno) (sn_copy_segments_out s)\<rparr>;
                    s = TCPSender_fill_window s;
                    s = s\<lparr>sn_consecutive_retransmissions := 0\<rparr>
                in if sn_copy_segments_out s \<noteq> []
                   then s\<lparr>sn_timer := Timer_start_with (sn_timer s) (sn_initial_retransmission_timeout s)\<rparr>
                   else s\<lparr>sn_timer := Timer_clear (sn_timer s)\<rparr>)"

definition TCPSender_tick :: "tcp_sender \<Rightarrow> size_t \<Rightarrow> tcp_sender" where
  "TCPSender_tick s ms_since_last_tick =
     (let s = s\<lparr>sn_timer := (sn_timer s)\<lparr>tm_total_time :=
                add64 (tm_total_time (sn_timer s)) ms_since_last_tick\<rparr>\<rparr>
      in if sn_copy_segments_out s \<noteq> [] \<and> tm_running (sn_timer s) \<and> Timer_is_timeout (sn_timer s)
         then
           let s = s\<lparr>sn_segments_out := sn_segments_out s @ [hd (sn_copy_segments_out s)]\<rparr>;
               s = (if \<not> sn_window_size_zero s
                    then s\<lparr>sn_timer := Timer_double_rto (sn_timer s),
                           sn_consecutive_retransmissions := add64 (sn_consecutive_retransmissions s) 1\<rparr>
                    else s)
           in s\<lparr>sn_timer := Timer_start (sn_timer s)\<rparr>
         else s)"

section \<open>What the sender keeps\<close>

text \<open>
  \<open>sends D isn a seg\<close>: the segment stands at absolute sequence number \<open>a\<close> of a
  stream of the bytes \<open>D\<close>. The SYN has number 0, the byte at index \<open>i\<close> number
  \<open>i + 1\<close> and the FIN the number behind the last byte.
\<close>

abbreviation seg_len :: "tcp_segment \<Rightarrow> nat" where
  "seg_len \<equiv> TCPSegment_length_in_sequence_space"

abbreviation seg_data :: "tcp_segment \<Rightarrow> bytes" where
  "seg_data seg \<equiv> Buffer_str (ts_payload seg)"

definition sends :: "bytes \<Rightarrow> WrappingInt32 \<Rightarrow> nat \<Rightarrow> tcp_segment \<Rightarrow> bool" where
  "sends D isn a seg \<longleftrightarrow>
     th_seqno (ts_header seg) = wrap_abs a isn \<and> \<not> th_ack (ts_header seg) \<and> 0 < seg_len seg \<and>
     length (seg_data seg) \<le> TCPConfig_MAX_PAYLOAD_SIZE \<and> (th_syn (ts_header seg) \<longleftrightarrow> a = 0) \<and>
     (th_syn (ts_header seg) \<longrightarrow> seg_data seg = [] \<and> \<not> th_fin (ts_header seg)) \<and>
     excerpt D (a - 1) (seg_data seg) \<and>
     (th_fin (ts_header seg) \<longrightarrow> a - 1 + length (seg_data seg) = length D)"

fun tiles :: "bytes \<Rightarrow> WrappingInt32 \<Rightarrow> nat \<Rightarrow> tcp_segment list \<Rightarrow> nat \<Rightarrow> bool" where
  "tiles D isn a [] e \<longleftrightarrow> a = e"
| "tiles D isn a (seg # segs) e \<longleftrightarrow> sends D isn a seg \<and> tiles D isn (a + seg_len seg) segs e"

lemma seg_len_seqno:
  "seg_len (seg\<lparr>ts_header := h\<lparr>th_seqno := x\<rparr>\<rparr>) = seg_len (seg\<lparr>ts_header := h\<rparr>)"
  "seg_len (seg\<lparr>ts_header := h\<lparr>th_syn := b, th_seqno := x\<rparr>\<rparr>) = seg_len (seg\<lparr>ts_header := h\<lparr>th_syn := b\<rparr>\<rparr>)"
  by (simp_all add: TCPSegment_length_in_sequence_space_def)

lemma sends_carries: "sends D isn a seg \<Longrightarrow> carries D isn seg (a - 1)"
  by (auto simp: sends_def carries_def wrap_abs_zero)

lemma sends_len:
  assumes "sends D isn a seg"
  shows "0 < seg_len seg" "seg_len seg \<le> 1453" "a + seg_len seg \<le> length D + 2"
  using assms
  by (auto simp: sends_def TCPSegment_length_in_sequence_space_def TCPConfig_MAX_PAYLOAD_SIZE_def excerpt_def)

lemma tiles_append: "tiles D isn a (xs @ ys) e \<longleftrightarrow> (\<exists>m. tiles D isn a xs m \<and> tiles D isn m ys e)"
  by (induction xs arbitrary: a) auto

lemma tiles_le: "tiles D isn a segs e \<Longrightarrow> a \<le> e"
  by (induction segs arbitrary: a) (auto dest: add_leD1)

lemma tiles_sends: "tiles D isn a segs e \<Longrightarrow> seg \<in> set segs \<Longrightarrow> \<exists>b \<ge> a. sends D isn b seg"
proof (induction segs arbitrary: a)
  case (Cons x segs)
  then show ?case by (cases "seg = x") (auto, meson add_leD1)
qed simp

definition sn_emits :: "bytes \<Rightarrow> WrappingInt32 \<Rightarrow> tcp_segment \<Rightarrow> bool" where
  "sn_emits D isn seg \<longleftrightarrow>
     seg_len seg = 0 \<and> \<not> th_ack (ts_header seg) \<or> (\<exists>a. sends D isn a seg)"

definition sn_queue :: "bytes \<Rightarrow> tcp_sender \<Rightarrow> bool" where
  "sn_queue D s \<longleftrightarrow>
     (\<exists>a. tiles D (sn_isn s) a (sn_copy_segments_out s) (sn_next_seqno s) \<and>
        a \<le> sn_send_base s \<and> sn_send_base s \<le> sn_next_seqno s \<and>
        (sn_copy_segments_out s \<noteq> [] \<longrightarrow> sn_send_base s < a + seg_len (hd (sn_copy_segments_out s)))) \<and>
     (\<forall>seg \<in> set (sn_segments_out s). sn_emits D (sn_isn s) seg) \<and>
     (sn_copy_segments_out s \<noteq> [] \<longrightarrow> tm_running (sn_timer s))"

definition sn_data :: "bytes \<Rightarrow> tcp_sender \<Rightarrow> bool" where
  "sn_data D s \<longleftrightarrow>
     out_ok D (sn_stream s) \<and> length D < 2 ^ 63 \<and> length D + bs_cap (sn_stream s) < 2 ^ 64 \<and>
     (bs_eof (sn_stream s) \<longrightarrow> bs_written (sn_stream s) = length D) \<and>
     sn_next_seqno s = of_bool (sn_syn_flag s) + bs_read (sn_stream s) + of_bool (sn_fin_flag s) \<and>
     (\<not> sn_syn_flag s \<longrightarrow> bs_read (sn_stream s) = 0 \<and> \<not> sn_fin_flag s) \<and>
     (sn_fin_flag s \<longrightarrow> bs_read (sn_stream s) = length D \<and> bs_eof (sn_stream s)) \<and>
     0 < sn_window_size s \<and> sn_window_size s < 2 ^ 16"

definition sn_inv :: "bytes \<Rightarrow> tcp_sender \<Rightarrow> bool" where
  "sn_inv D s \<longleftrightarrow> sn_queue D s \<and> sn_data D s"

lemma sn_queue_frame [simp]:
  "sn_queue D (s\<lparr>sn_stream := st\<rparr>) = sn_queue D s"
  "sn_queue D (s\<lparr>sn_timer := (sn_timer s)\<lparr>tm_total_time := tt\<rparr>\<rparr>) = sn_queue D s"
  by (simp_all add: sn_queue_def)

lemma sn_data_frame [simp]:
  "sn_data D (s\<lparr>sn_timer := t\<rparr>) = sn_data D s"
  "sn_data D (s\<lparr>sn_segments_out := segs\<rparr>) = sn_data D s"
  by (simp_all add: sn_data_def)

lemma sn_inv_new:
  assumes "length D + capacity < 2 ^ 64" "length D < 2 ^ 63"
  shows "sn_inv D (TCPSender_new random capacity retx_timeout fixed_isn)"
  using assms
  by (simp add: sn_inv_def sn_queue_def sn_data_def TCPSender_new_def Timer_defs out_ok_def
      bs_inv_new ByteStream_new_def bs_inv_def add64_def)

lemma send_segment_fields:
  fixes s :: tcp_sender
  defines "seg' \<equiv> \<lambda>seg. seg\<lparr>ts_header := (ts_header seg)\<lparr>th_seqno := wrap_abs (sn_next_seqno s) (sn_isn s)\<rparr>\<rparr>"
  shows "sn_isn (TCPSender_send_segment s seg) = sn_isn s"
    and "sn_next_seqno (TCPSender_send_segment s seg) = add64 (sn_next_seqno s) (seg_len seg)"
    and "sn_segments_out (TCPSender_send_segment s seg) = sn_segments_out s @ [seg' seg]"
    and "sn_copy_segments_out (TCPSender_send_segment s seg) = sn_copy_segments_out s @ [seg' seg]"
    and "tm_running (sn_timer (TCPSender_send_segment s seg))"
    and "sn_stream (TCPSender_send_segment s seg) = sn_stream s"
    and "sn_send_base (TCPSender_send_segment s seg) = sn_send_base s"
    and "sn_window_size (TCPSender_send_segment s seg) = sn_window_size s"
    and "sn_window_size_zero (TCPSender_send_segment s seg) = sn_window_size_zero s"
    and "sn_syn_flag (TCPSender_send_segment s seg) = sn_syn_flag s"
    and "sn_fin_flag (TCPSender_send_segment s seg) = sn_fin_flag s"
    and "sn_initial_retransmission_timeout (TCPSender_send_segment s seg) = sn_initial_retransmission_timeout s"
    and "sn_consecutive_retransmissions (TCPSender_send_segment s seg) = sn_consecutive_retransmissions s"
  by (simp_all add: TCPSender_send_segment_def Let_def Timer_defs seg'_def
      TCPSegment_length_in_sequence_space_def)

lemma send_segment_queue:
  assumes "sn_queue D s" "sn_next_seqno s + seg_len seg < 2 ^ 64"
    and "sends D (sn_isn s) (sn_next_seqno s)
      (seg\<lparr>ts_header := (ts_header seg)\<lparr>th_seqno := wrap_abs (sn_next_seqno s) (sn_isn s)\<rparr>\<rparr>)"
  shows "sn_queue D (TCPSender_send_segment s seg)"
proof -
  let ?seg = "seg\<lparr>ts_header := (ts_header seg)\<lparr>th_seqno := wrap_abs (sn_next_seqno s) (sn_isn s)\<rparr>\<rparr>"
  have len: "seg_len ?seg = seg_len seg" by (simp add: TCPSegment_length_in_sequence_space_def)
  from assms(1) obtain a where a:
    "tiles D (sn_isn s) a (sn_copy_segments_out s) (sn_next_seqno s)"
    "a \<le> sn_send_base s" "sn_send_base s \<le> sn_next_seqno s"
    "sn_copy_segments_out s \<noteq> [] \<longrightarrow> sn_send_base s < a + seg_len (hd (sn_copy_segments_out s))"
    by (auto simp: sn_queue_def)
  have "tiles D (sn_isn s) a (sn_copy_segments_out s @ [?seg]) (sn_next_seqno s + seg_len seg)"
    using a(1) assms(3) by (auto simp: tiles_append len)
  moreover have "sn_send_base s < a + seg_len (hd (sn_copy_segments_out s @ [?seg]))"
    using a sends_len(1) [OF assms(3)] by (cases "sn_copy_segments_out s") auto
  moreover have "\<forall>seg \<in> set (sn_segments_out s). sn_emits D (sn_isn s) seg" "sn_emits D (sn_isn s) ?seg"
    using assms(1,3) by (auto simp: sn_queue_def sn_emits_def)
  ultimately show ?thesis
    using assms(2,3) a(2,3) unfolding sn_queue_def
    by (intro conjI, intro exI [of _ a]) (auto simp: send_segment_fields add64_exact)
qed

section \<open>Filling the window\<close>

text \<open>
  \<open>sn_sent D s s' n\<close>: between \<open>s\<close> and \<open>s'\<close> the sender sent new segments that
  take up the next \<open>n\<close> sequence numbers, and did nothing else.
\<close>

definition sn_sent :: "bytes \<Rightarrow> tcp_sender \<Rightarrow> tcp_sender \<Rightarrow> nat \<Rightarrow> bool" where
  "sn_sent D s s' n \<longleftrightarrow>
     sn_inv D s' \<and> sn_next_seqno s' = sn_next_seqno s + n \<and> sn_isn s' = sn_isn s \<and>
     sn_send_base s' = sn_send_base s \<and> sn_window_size s' = sn_window_size s \<and>
     sn_window_size_zero s' = sn_window_size_zero s \<and>
     sn_initial_retransmission_timeout s' = sn_initial_retransmission_timeout s \<and>
     sn_consecutive_retransmissions s' = sn_consecutive_retransmissions s \<and>
     bs_written (sn_stream s') = bs_written (sn_stream s) \<and>
     bs_cap (sn_stream s') = bs_cap (sn_stream s) \<and>
     bs_eof (sn_stream s') = bs_eof (sn_stream s) \<and>
     bs_error (sn_stream s') = bs_error (sn_stream s) \<and>
     (\<exists>new. sn_segments_out s' = sn_segments_out s @ new \<and>
        sn_copy_segments_out s' = sn_copy_segments_out s @ new \<and>
        tiles D (sn_isn s) (sn_next_seqno s) new (sn_next_seqno s + n))"

lemma sn_sent_refl: "sn_inv D s \<Longrightarrow> sn_sent D s s 0"
  by (simp add: sn_sent_def)

lemma sn_sent_trans:
  assumes "sn_sent D s s1 m" "sn_sent D s1 s2 n"
  shows "sn_sent D s s2 (m + n)"
proof -
  obtain new1 where 1: "sn_segments_out s1 = sn_segments_out s @ new1"
    "sn_copy_segments_out s1 = sn_copy_segments_out s @ new1"
    "tiles D (sn_isn s) (sn_next_seqno s) new1 (sn_next_seqno s + m)"
    using assms(1) by (auto simp: sn_sent_def)
  obtain new2 where 2: "sn_segments_out s2 = sn_segments_out s1 @ new2"
    "sn_copy_segments_out s2 = sn_copy_segments_out s1 @ new2"
    "tiles D (sn_isn s1) (sn_next_seqno s1) new2 (sn_next_seqno s1 + n)"
    using assms(2) by (auto simp: sn_sent_def)
  have "tiles D (sn_isn s) (sn_next_seqno s) (new1 @ new2) (sn_next_seqno s + (m + n))"
    using 1(3) 2(3) assms(1) by (auto simp: tiles_append sn_sent_def add.assoc)
  then have "\<exists>new. sn_segments_out s2 = sn_segments_out s @ new \<and>
      sn_copy_segments_out s2 = sn_copy_segments_out s @ new \<and>
      tiles D (sn_isn s) (sn_next_seqno s) new (sn_next_seqno s + (m + n))"
    using 1 2 by auto
  with assms show ?thesis by (simp add: sn_sent_def)
qed

lemma sn_inv_bounds:
  assumes "sn_inv D s"
  shows "sn_next_seqno s \<le> length D + 2" "sn_next_seqno s < 2 ^ 63 + 2"
    and "sn_send_base s \<le> sn_next_seqno s"
    and "TCPSender_bytes_in_flight s = sn_next_seqno s - sn_send_base s"
    and "bs_written (sn_stream s) = bs_read (sn_stream s) + length (bs_buf (sn_stream s))"
    and "bs_written (sn_stream s) \<le> length D"
proof -
  have D: "out_ok D (sn_stream s)" "length D < 2 ^ 63" using assms by (auto simp: sn_inv_def sn_data_def)
  show w: "bs_written (sn_stream s) = bs_read (sn_stream s) + length (bs_buf (sn_stream s))"
    by (rule out_ok_written [OF D(1)])
  show l: "bs_written (sn_stream s) \<le> length D" using out_ok_written_le [OF D(1)] by simp
  show n: "sn_next_seqno s \<le> length D + 2"
    using assms w l by (auto simp: sn_inv_def sn_data_def of_bool_def)
  then show "sn_next_seqno s < 2 ^ 63 + 2" using D(2) by simp
  show b: "sn_send_base s \<le> sn_next_seqno s" using assms by (auto simp: sn_inv_def sn_queue_def)
  show "TCPSender_bytes_in_flight s = sn_next_seqno s - sn_send_base s"
    using b n D(2) by (simp add: TCPSender_bytes_in_flight_def sub64_exact)
qed

text \<open>Sending one prepared segment after taking \<open>n\<close> bytes out of the stream.\<close>

lemma send_from_stream:
  assumes inv: "sn_inv D s" and syn: "sn_syn_flag s" "\<not> sn_fin_flag s"
    and n: "n \<le> length (bs_buf (sn_stream s))" "n \<le> TCPConfig_MAX_PAYLOAD_SIZE"
    and fin: "fin \<longrightarrow> bs_eof (sn_stream s) \<and> n = length (bs_buf (sn_stream s))"
    and pos: "0 < n \<or> fin"
    and seg: "seg_data seg = take n (bs_buf (sn_stream s))" "th_fin (ts_header seg) = fin"
      "\<not> th_syn (ts_header seg)" "\<not> th_ack (ts_header seg)"
    and st: "stream = (sn_stream s)\<lparr>bs_buf := drop n (bs_buf (sn_stream s)),
      bs_read := add64 (bs_read (sn_stream s)) n\<rparr>"
  shows "sn_sent D s ((TCPSender_send_segment (s\<lparr>sn_stream := stream\<rparr>) seg)\<lparr>sn_fin_flag := fin\<rparr>)
    (n + of_bool fin)"
proof -
  let ?st = "sn_stream s" and ?s = "s\<lparr>sn_stream := stream\<rparr>"
  let ?seg = "seg\<lparr>ts_header := (ts_header seg)\<lparr>th_seqno := wrap_abs (sn_next_seqno s) (sn_isn s)\<rparr>\<rparr>"
  note b = sn_inv_bounds [OF inv]
  have data: "sn_data D s" and q: "sn_queue D s" using inv by (auto simp: sn_inv_def)
  have nx: "sn_next_seqno s = bs_read ?st + 1" using data syn by (simp add: sn_data_def)
  have lenD: "length D < 2 ^ 63" and ex: "excerpt D (bs_read ?st) (bs_buf ?st)" and o: "out_ok D ?st"
    and e: "bs_eof ?st \<longrightarrow> bs_written ?st = length D" and cap: "length D + bs_cap ?st < 2 ^ 64"
    using data by (auto simp: sn_data_def out_ok_def)
  have len: "seg_len seg = n + of_bool fin" "seg_len ?seg = n + of_bool fin"
    using seg n by (auto simp: TCPSegment_length_in_sequence_space_def)
  have rn: "bs_read ?st + n \<le> length D" using n(1) b(5,6) by simp
  then have rd: "add64 (bs_read ?st) n = bs_read ?st + n" using lenD by (simp add: add64_exact)
  have end_data: "fin \<Longrightarrow> bs_read ?st + n = length D" using fin e b(5) by simp
  have snd: "sends D (sn_isn s) (sn_next_seqno s) ?seg"
    unfolding sends_def using seg n pos len(2) end_data excerpt_take [OF ex, of n]
    by (simp add: nx) 
  have fits: "sn_next_seqno s + (n + of_bool fin) < 2 ^ 64"
    using rn nx lenD by (cases fin) simp_all
  have "sn_queue D ?s" using q by (simp add: sn_queue_def)
  then have q': "sn_queue D (TCPSender_send_segment ?s seg)"
    using send_segment_queue [of D ?s seg] len fits snd by simp
  have c: "length (bs_buf ?st) \<le> bs_cap ?st" using o by (simp add: out_ok_def bs_inv_def)
  have "bs_read ?st + n + (length (bs_buf ?st) - n) = bs_written ?st" using n(1) b(5) by simp
  then have "add64 (bs_read ?st + n) (length (bs_buf ?st) - n) = bs_written ?st"
    using b(6) lenD add64_exact [of "bs_read ?st + n" "length (bs_buf ?st) - n"] by simp
  then have o': "out_ok D stream"
    using excerpt_drop [OF ex n(1)] rn cap c lenD
    by (simp add: st out_ok_def bs_inv_def rd)
  have flag: "bs_read stream = bs_read ?st + n" "bs_written stream = bs_written ?st"
    "bs_cap stream = bs_cap ?st" "bs_eof stream = bs_eof ?st" "bs_error stream = bs_error ?st"
    by (simp_all add: st rd)
  have "sn_inv D ((TCPSender_send_segment ?s seg)\<lparr>sn_fin_flag := fin\<rparr>)"
    using q' o' data fits fin end_data
    by (simp add: sn_inv_def sn_data_def sn_queue_def send_segment_fields flag nx len add64_exact syn)
  then show ?thesis 
    using fits snd
    by (simp add: sn_sent_def send_segment_fields flag len add64_exact)
qed

lemma send_segment_fin_flag:
  "TCPSender_send_segment (s\<lparr>sn_fin_flag := fin\<rparr>) seg = (TCPSender_send_segment s seg)\<lparr>sn_fin_flag := fin\<rparr>"
  by (simp add: TCPSender_send_segment_def Let_def)

lemma fin_flag_same: "\<not> sn_fin_flag s \<Longrightarrow> s\<lparr>sn_fin_flag := False\<rparr> = s"
  by (cases s) simp

lemma fill_step_sent:
  assumes inv: "sn_inv D s" and syn: "sn_syn_flag s" "\<not> sn_fin_flag s"
    and rem: "0 < rem" "rem < 2 ^ 64" "bs_buf (sn_stream s) \<noteq> []"
  defines "n \<equiv> min (min rem TCPConfig_MAX_PAYLOAD_SIZE) (length (bs_buf (sn_stream s)))"
  defines "fin \<equiv> bs_eof (sn_stream s) \<and> n = length (bs_buf (sn_stream s)) \<and> n < rem"
  shows "sn_sent D s (fst (TCPSender_fill_step s rem)) (n + of_bool fin)"
    and "snd (TCPSender_fill_step s rem) = rem - (n + of_bool fin)"
    and "bs_buf (sn_stream (fst (TCPSender_fill_step s rem))) = drop n (bs_buf (sn_stream s))"
    and "sn_syn_flag (fst (TCPSender_fill_step s rem))"
    and "sn_fin_flag (fst (TCPSender_fill_step s rem)) = fin"
proof -
  let ?m = "min rem TCPConfig_MAX_PAYLOAD_SIZE" and ?buf = "bs_buf (sn_stream s)"
  define stream where "stream = (sn_stream s)\<lparr>bs_buf := drop n ?buf, bs_read := add64 (bs_read (sn_stream s)) n\<rparr>"
  define seg where "seg = \<lparr>ts_header = TCPHeader_default\<lparr>th_fin := fin\<rparr>, ts_payload = Buffer_new (take n ?buf)\<rparr>"
  have nd: "take ?m ?buf = take n ?buf" "drop ?m ?buf = drop n ?buf" "min ?m (length ?buf) = n"
    by (auto simp: n_def min_def)
  have n: "0 < n" "n \<le> rem" "n \<le> length ?buf" "n \<le> TCPConfig_MAX_PAYLOAD_SIZE" "n < 2 ^ 64"
    using rem by (auto simp: n_def TCPConfig_MAX_PAYLOAD_SIZE_def)
  have hd0: "\<not> th_syn TCPHeader_default" "\<not> th_fin TCPHeader_default" "\<not> th_ack TCPHeader_default"
    by (simp_all add: TCPHeader_default_def)
  have def': "TCPHeader_default\<lparr>th_fin := False\<rparr> = TCPHeader_default" 
    by (simp add: TCPHeader_default_def)
  have step: "TCPSender_fill_step s rem =
      ((TCPSender_send_segment (s\<lparr>sn_stream := stream\<rparr>) seg)\<lparr>sn_fin_flag := fin\<rparr>, rem - (n + of_bool fin))"
  proof -
    have "add64 n 1 = n + 1" using n(4) by (simp add: add64_exact TCPConfig_MAX_PAYLOAD_SIZE_def)
    then have l: "ByteStream_eof stream \<and> add64 n 1 \<le> rem \<longleftrightarrow> fin"
      using n by (auto simp: ByteStream_accessors stream_def fin_def)
    have "fin \<Longrightarrow> n < rem" by (simp add: fin_def)
    then have "sub64 rem (n + of_bool fin) = rem - (n + of_bool fin)"
      using n rem(2) by (cases fin) (simp_all add: sub64_exact)
    moreover have "length (take n ?buf) = n" using n(3) by simp
    moreover have "sn_fin_flag (TCPSender_send_segment (s\<lparr>sn_stream := stream\<rparr>) seg) = False"
      by (simp add: send_segment_fields syn)
    ultimately show ?thesis
      using l
      by (cases fin) (auto simp: TCPSender_fill_step_def read_exact nd TCPSegment_default_def Let_def
          TCPSegment_length_in_sequence_space_def hd0 seg_def def' send_segment_fin_flag fin_flag_same
          simp flip: stream_def)
  qed
  show "sn_sent D s (fst (TCPSender_fill_step s rem)) (n + of_bool fin)"
    unfolding step fst_conv
    by (rule send_from_stream [OF inv syn n(3,4), where stream = stream])
       (use n in \<open>auto simp: fin_def seg_def stream_def hd0\<close>)
  show "snd (TCPSender_fill_step s rem) = rem - (n + of_bool fin)"
    "bs_buf (sn_stream (fst (TCPSender_fill_step s rem))) = drop n (bs_buf (sn_stream s))"
    "sn_syn_flag (fst (TCPSender_fill_step s rem))"
    "sn_fin_flag (fst (TCPSender_fill_step s rem)) = fin"
    by (simp_all add: step send_segment_fields stream_def syn)
qed

lemma fill_loop_sent:
  "sn_inv D s \<Longrightarrow> sn_syn_flag s \<Longrightarrow> \<not> sn_fin_flag s \<Longrightarrow> rem < 2 ^ 64 \<Longrightarrow> bs_buf (sn_stream s) \<noteq> [] \<Longrightarrow>
   sn_sent D s (TCPSender_fill_loop s rem)
     (min rem (length (bs_buf (sn_stream s)) + of_bool (bs_eof (sn_stream s)))) \<and>
   sn_syn_flag (TCPSender_fill_loop s rem)"
proof (induction s rem rule: TCPSender_fill_loop.induct)
  case (1 s rem)
  let ?r = "TCPSender_fill_step s rem" and ?buf = "bs_buf (sn_stream s)"
  define n where "n = min (min rem TCPConfig_MAX_PAYLOAD_SIZE) (length ?buf)"
  define fin where "fin = (bs_eof (sn_stream s) \<and> n = length ?buf \<and> n < rem)"
  show ?case
  proof (cases "rem = 0")
    case True
    then show ?thesis using 1 sn_sent_refl [of D s] by (simp add: TCPSender_fill_loop.simps)
  next
    case False
    then have pos: "0 < rem" by simp
    note step = fill_step_sent [OF 1(2-4) pos 1(5,6), folded n_def, folded fin_def]
    have unf: "TCPSender_fill_loop s rem = TCPSender_fill_loop (fst ?r) (snd ?r)"
      using 1(6) pos by (subst TCPSender_fill_loop.simps) (simp add: ByteStream_accessors Let_def)
    have eof: "bs_eof (sn_stream (fst ?r)) = bs_eof (sn_stream s)" using step(1) by (simp add: sn_sent_def)
    show ?thesis
    proof (cases "n = length ?buf")
      case True
      then have "TCPSender_fill_loop (fst ?r) (snd ?r) = fst ?r"
        using step(3) by (subst TCPSender_fill_loop.simps) (simp add: ByteStream_accessors)
      moreover have "n + of_bool fin = min rem (length ?buf + of_bool (bs_eof (sn_stream s)))"
        using True by (auto simp: fin_def n_def)
      ultimately show ?thesis using step(1,4) unf by simp
    next
      case False
      then have fin: "\<not> fin" and lt: "n < length ?buf" by (auto simp: fin_def n_def)
      have rest: "sn_sent D (fst ?r) (TCPSender_fill_loop (fst ?r) (snd ?r))
          (min (rem - n) (length ?buf - n + of_bool (bs_eof (sn_stream s)))) \<and>
        sn_syn_flag (TCPSender_fill_loop (fst ?r) (snd ?r))"
        using 1(1) [OF _ refl] step fin lt pos 1(5,6) eof
        by (simp add: ByteStream_accessors sn_sent_def)
      have "n + of_bool fin + min (rem - n) (length ?buf - n + of_bool (bs_eof (sn_stream s)))
          = min rem (length ?buf + of_bool (bs_eof (sn_stream s)))"
        using fin lt by (simp add: n_def)
      then show ?thesis
        using sn_sent_trans [OF step(1) rest [THEN conjunct1]] rest unf by simp
    qed
  qed
qed

text \<open>The number of sequence numbers that wait to be sent.\<close>

definition sn_pending :: "tcp_sender \<Rightarrow> nat" where
  "sn_pending s =
     (if \<not> sn_syn_flag s then 1
      else if sn_fin_flag s then 0
      else length (bs_buf (sn_stream s)) + of_bool (bs_eof (sn_stream s)))"

lemma fill_window_syn:
  assumes inv: "sn_inv D s" and syn: "\<not> sn_syn_flag s"
  shows "sn_sent D s (TCPSender_fill_window s) 1 \<and> sn_syn_flag (TCPSender_fill_window s)"
proof -
  let ?seg = "TCPSegment_default\<lparr>ts_header := TCPHeader_default\<lparr>th_syn := True\<rparr>\<rparr>"
  have 0: "sn_next_seqno s = 0" "\<not> sn_fin_flag s" "sn_window_size s \<noteq> 0" and data: "sn_data D s"
    using inv syn by (auto simp: sn_inv_def sn_data_def)
  have len: "seg_len ?seg = 1"
    by (simp add: TCPSegment_length_in_sequence_space_def TCPSegment_default_def TCPHeader_default_def)
  have snd: "sends D (sn_isn s) 0 (?seg\<lparr>ts_header := (ts_header ?seg)\<lparr>th_seqno := wrap_abs 0 (sn_isn s)\<rparr>\<rparr>)"
    by (simp add: sends_def TCPSegment_length_in_sequence_space_def TCPSegment_default_def TCPHeader_default_def)
  then have q: "sn_queue D (TCPSender_send_segment s ?seg)"
    using send_segment_queue [of D s ?seg] inv by (simp add: sn_inv_def 0 len)
  have fw: "TCPSender_fill_window s = (TCPSender_send_segment s ?seg)\<lparr>sn_syn_flag := True\<rparr>"
    using 0 syn by (simp add: TCPSender_fill_window_def)
  have "sn_inv D (TCPSender_fill_window s)"
    using q data 0 syn unfolding fw
    by (simp add: sn_inv_def sn_queue_def sn_data_def send_segment_fields len add64_def)
  with fw 0 len snd show ?thesis
    by (simp add: sn_sent_def send_segment_fields add64_def seg_len_seqno)
qed

lemma fill_window_fin:
  assumes inv: "sn_inv D s" and syn: "sn_syn_flag s" "\<not> sn_fin_flag s"
    and e: "bs_eof (sn_stream s)" "bs_buf (sn_stream s) = []"
    and room: "sub64 (sn_window_size s) (TCPSender_bytes_in_flight s) > 0"
  shows "sn_sent D s (TCPSender_fill_window s) 1 \<and> sn_syn_flag (TCPSender_fill_window s)"
proof -
  let ?seg = "TCPSegment_default\<lparr>ts_header := TCPHeader_default\<lparr>th_fin := True\<rparr>\<rparr>"
  have "bs_read (sn_stream s) < 2 ^ 64"
    using sn_inv_bounds(5,6) [OF inv] inv by (simp add: sn_inv_def sn_data_def)
  then have st: "(sn_stream s)\<lparr>bs_buf := [], bs_read := add64 (bs_read (sn_stream s)) 0\<rparr> = sn_stream s"
    using e(2) by (cases "sn_stream s") (simp add: add64_zero_right)
  have "s\<lparr>sn_stream := sn_stream s\<rparr> = s" by (cases s) simp
  moreover have "TCPSender_fill_window s = (TCPSender_send_segment s ?seg)\<lparr>sn_fin_flag := True\<rparr>"
    using inv syn e room by (simp add: TCPSender_fill_window_def ByteStream_accessors sn_inv_def sn_data_def)
  ultimately show ?thesis
    using send_from_stream [OF inv syn, of 0 True ?seg "sn_stream s"] e st
    by (simp add: TCPSegment_default_def TCPHeader_default_def send_segment_fields syn)
qed

lemma fill_window_sent:
  assumes inv: "sn_inv D s"
  shows "sn_sent D s (TCPSender_fill_window s)
     (if sn_syn_flag s
      then min (sub64 (sn_window_size s) (TCPSender_bytes_in_flight s)) (sn_pending s) else 1)"
    and "sn_syn_flag (TCPSender_fill_window s)"
proof -
  let ?room = "sub64 (sn_window_size s) (TCPSender_bytes_in_flight s)" and ?st = "sn_stream s"
  let ?goal = "sn_sent D s (TCPSender_fill_window s) (if sn_syn_flag s then min ?room (sn_pending s) else 1)
    \<and> sn_syn_flag (TCPSender_fill_window s)"
  have w: "sn_window_size s \<noteq> 0" using inv by (simp add: sn_inv_def sn_data_def)
  consider (syn) "\<not> sn_syn_flag s" | (fin) "sn_syn_flag s" "sn_fin_flag s"
    | (idle) "sn_syn_flag s" "\<not> sn_fin_flag s" "bs_buf ?st = []" "\<not> bs_eof ?st"
    | (full) "sn_syn_flag s" "\<not> sn_fin_flag s" "bs_buf ?st = []" "bs_eof ?st" "?room = 0"
    | (eof) "sn_syn_flag s" "\<not> sn_fin_flag s" "bs_buf ?st = []" "bs_eof ?st" "?room > 0"
    | (data) "sn_syn_flag s" "\<not> sn_fin_flag s" "bs_buf ?st \<noteq> []" by blast
  then have ?goal
  proof cases
    case syn then show ?thesis using fill_window_syn [OF inv] by simp
  next
    case fin then show ?thesis
      using sn_sent_refl [OF inv] by (simp add: TCPSender_fill_window_def sn_pending_def)
  next
    case idle then show ?thesis using sn_sent_refl [OF inv] w
      by (simp add: TCPSender_fill_window_def sn_pending_def ByteStream_accessors)
  next
    case full then show ?thesis using sn_sent_refl [OF inv] w
      by (simp add: TCPSender_fill_window_def sn_pending_def ByteStream_accessors)
  next
    case eof
    then have "min ?room (sn_pending s) = 1" by (simp add: sn_pending_def)
    then show ?thesis using fill_window_fin [OF inv eof(1,2,4,3,5)] eof(1) by (simp only: if_True)
  next
    case data
    then have "TCPSender_fill_window s = TCPSender_fill_loop s ?room"
      using w by (simp add: TCPSender_fill_window_def ByteStream_accessors)
    then show ?thesis using fill_loop_sent [OF inv, of ?room] data by (simp add: sn_pending_def)
  qed
  then show "sn_sent D s (TCPSender_fill_window s) (if sn_syn_flag s then min ?room (sn_pending s) else 1)"
    "sn_syn_flag (TCPSender_fill_window s)" by blast+
qed

section \<open>Acknowledgments\<close>

lemma sends_decode:
  assumes "sends D isn a seg" "a \<le> e" "e < a + 2 ^ 31" "e < 2 ^ 63 + 2"
  shows "unwrap_abs (th_seqno (ts_header seg)) isn e = a"
  using assms seqno.dec_enc [of a e isn] by (simp add: sends_def)

lemma ack_tiles:
  assumes "tiles D isn a segs e" "a \<le> x" "x \<le> e" "e < a + 2 ^ 31" "e < 2 ^ 63 + 2"
    and P: "\<And>seg. P seg \<longleftrightarrow>
      add64 (unwrap_abs (th_seqno (ts_header seg)) isn e) (seg_len seg) \<le> x"
  shows "\<exists>b. tiles D isn a (takeWhile P segs) b \<and> tiles D isn b (dropWhile P segs) e \<and> b \<le> x \<and>
    (dropWhile P segs \<noteq> [] \<longrightarrow> x < b + seg_len (hd (dropWhile P segs)))"
  using assms(1-5)
proof (induction segs arbitrary: a)
  case (Cons seg segs)
  have s: "sends D isn a seg" "tiles D isn (a + seg_len seg) segs e" using Cons.prems by simp_all
  have "P seg \<longleftrightarrow> a + seg_len seg \<le> x"
    using sends_decode [OF s(1)] sends_len(2) [OF s(1)] tiles_le [OF s(2)] Cons.prems(2-)
    by (simp add: P add64_exact)
  then show ?case using Cons.IH [OF s(2)] Cons.prems s by (cases "P seg") auto
qed auto

text \<open>The receiver's reply when it acknowledges new data: everything before \<open>fill_window\<close>.\<close>

definition sn_acked :: "tcp_sender \<Rightarrow> size_t \<Rightarrow> tcp_sender" where
  "sn_acked s x = (let s = s\<lparr>sn_send_base := x\<rparr>
     in s\<lparr>sn_copy_segments_out := dropWhile (TCPSender_acknowledged s x) (sn_copy_segments_out s)\<rparr>)"

abbreviation sn_near :: "tcp_sender \<Rightarrow> bool" where
  "sn_near s \<equiv> sn_next_seqno s < sn_send_base s + 2 ^ 30"

lemma sn_acked_split:
  assumes inv: "sn_inv D s" and near: "sn_near s"
    and x: "sn_send_base s < x" "x \<le> sn_next_seqno s"
  shows "\<exists>acked a b. sn_copy_segments_out s = acked @ sn_copy_segments_out (sn_acked s x) \<and>
      tiles D (sn_isn s) a acked b \<and>
      tiles D (sn_isn s) b (sn_copy_segments_out (sn_acked s x)) (sn_next_seqno s) \<and> b \<le> x \<and>
      (sn_copy_segments_out (sn_acked s x) \<noteq> [] \<longrightarrow>
        x < b + seg_len (hd (sn_copy_segments_out (sn_acked s x))))"
proof -
  let ?P = "TCPSender_acknowledged (s\<lparr>sn_send_base := x\<rparr>) x"
  from inv obtain a where a:
    "tiles D (sn_isn s) a (sn_copy_segments_out s) (sn_next_seqno s)" "a \<le> sn_send_base s"
    "sn_copy_segments_out s \<noteq> [] \<longrightarrow> sn_send_base s < a + seg_len (hd (sn_copy_segments_out s))"
    by (auto simp: sn_inv_def sn_queue_def)
  have "sn_send_base s < a + 1454"
    using a x sends_len(2) [of D "sn_isn s" a "hd (sn_copy_segments_out s)"]
    by (cases "sn_copy_segments_out s") auto
  then have "\<exists>b. tiles D (sn_isn s) a (takeWhile ?P (sn_copy_segments_out s)) b \<and>
      tiles D (sn_isn s) b (sn_copy_segments_out (sn_acked s x)) (sn_next_seqno s) \<and> b \<le> x \<and>
      (sn_copy_segments_out (sn_acked s x) \<noteq> [] \<longrightarrow>
        x < b + seg_len (hd (sn_copy_segments_out (sn_acked s x))))"
    using ack_tiles [OF a(1), of x ?P] a(2) x near sn_inv_bounds(2) [OF inv]
    by (simp add: sn_acked_def Let_def TCPSender_acknowledged_def)
  moreover have "sn_copy_segments_out s =
      takeWhile ?P (sn_copy_segments_out s) @ sn_copy_segments_out (sn_acked s x)"
    by (simp add: sn_acked_def Let_def)
  ultimately show ?thesis by blast
qed

lemma sn_acked_queue:
  assumes inv: "sn_inv D s" and near: "sn_near s"
    and x: "sn_send_base s < x" "x \<le> sn_next_seqno s"
  shows "sn_queue D (sn_acked s x)"
proof -
  have "\<exists>b. tiles D (sn_isn s) b (sn_copy_segments_out (sn_acked s x)) (sn_next_seqno s) \<and> b \<le> x \<and>
      (sn_copy_segments_out (sn_acked s x) \<noteq> [] \<longrightarrow>
        x < b + seg_len (hd (sn_copy_segments_out (sn_acked s x))))"
    using sn_acked_split [OF assms] by blast
  moreover have "sn_copy_segments_out (sn_acked s x) \<noteq> [] \<Longrightarrow> sn_copy_segments_out s \<noteq> []"
    by (auto simp: sn_acked_def Let_def)
  ultimately show ?thesis using inv x by (simp add: sn_inv_def sn_queue_def sn_acked_def Let_def)
qed

definition sn_window_update :: "tcp_sender \<Rightarrow> uint16 \<Rightarrow> tcp_sender" where
  "sn_window_update s w = s\<lparr>sn_window_size := (if w = 0 then 1 else unat w), sn_window_size_zero := (w = 0)\<rparr>"

lemma sn_window_update_inv: "sn_inv D s \<Longrightarrow> sn_inv D (sn_window_update s w)"
  using unsigned_less [of w, where 'a = nat]
  by (auto simp: sn_window_update_def sn_inv_def sn_queue_def sn_data_def unat_gt_0)

lemma sn_timer_inv: "sn_inv D s \<Longrightarrow> (sn_copy_segments_out s \<noteq> [] \<longrightarrow> tm_running t) \<Longrightarrow>
  sn_inv D (s\<lparr>sn_consecutive_retransmissions := c, sn_timer := t\<rparr>)"
  by (auto simp: sn_inv_def sn_queue_def sn_data_def)

text \<open>The three outcomes of \<open>ack_received\<close>.\<close>

lemma ack_cases:
  fixes s w ackno
  defines "x \<equiv> unwrap_abs ackno (sn_isn s) (sn_send_base s)"
  defines "s1 \<equiv> TCPSender_fill_window (sn_acked (sn_window_update s w) x)"
  shows "x > sn_next_seqno s \<Longrightarrow> TCPSender_ack_received s ackno w = s"
    and "x \<le> sn_next_seqno s \<Longrightarrow> x \<le> sn_send_base s \<Longrightarrow>
      TCPSender_ack_received s ackno w = sn_window_update s w"
    and "x \<le> sn_next_seqno s \<Longrightarrow> x > sn_send_base s \<Longrightarrow>
      TCPSender_ack_received s ackno w = s1\<lparr>sn_consecutive_retransmissions := 0,
        sn_timer := (if sn_copy_segments_out s1 \<noteq> []
          then Timer_start_with (sn_timer s1) (sn_initial_retransmission_timeout s1)
          else Timer_clear (sn_timer s1))\<rparr>"
  unfolding x_def s1_def
  by (simp_all add: TCPSender_ack_received_def Let_def sn_window_update_def sn_acked_def)

lemma acked_sent:
  assumes inv: "sn_inv D s" and near: "sn_near s"
    and x: "sn_send_base s < x" "x \<le> sn_next_seqno s" and a: "a = sn_acked (sn_window_update s w) x"
  shows "sn_sent D a (TCPSender_fill_window a)
      (min (sub64 (if w = 0 then 1 else unat w) (sn_next_seqno s - x)) (sn_pending s))"
proof -
  have inv1: "sn_inv D (sn_window_update s w)" by (rule sn_window_update_inv [OF inv])
  have "sn_data D a" using inv1 by (simp add: a sn_inv_def sn_data_def sn_acked_def Let_def)
  moreover have "sn_queue D a"
    unfolding a using sn_acked_queue [OF inv1] near x by (simp add: sn_window_update_def)
  ultimately have inva: "sn_inv D a" by (simp add: sn_inv_def)
  have syn: "sn_syn_flag a"
    using inv x by (auto simp: a sn_inv_def sn_data_def sn_acked_def sn_window_update_def Let_def of_bool_def split: if_splits)
  have f: "sn_window_size a = (if w = 0 then 1 else unat w)" "sn_next_seqno a = sn_next_seqno s"
    "sn_send_base a = x" "sn_pending a = sn_pending s"
    by (simp_all add: a sn_acked_def sn_window_update_def Let_def sn_pending_def)
  show ?thesis using fill_window_sent(1) [OF inva] syn sn_inv_bounds(4) [OF inva] by (simp add: f)
qed

lemma ack_received_inv:
  assumes inv: "sn_inv D s" and near: "sn_near s"
  shows "sn_inv D (TCPSender_ack_received s ackno w)"
proof -
  let ?x = "unwrap_abs ackno (sn_isn s) (sn_send_base s)"
  consider "?x > sn_next_seqno s" | "?x \<le> sn_next_seqno s" "?x \<le> sn_send_base s"
    | "?x \<le> sn_next_seqno s" "?x > sn_send_base s" by linarith
  then show ?thesis
  proof cases
    case 3
    from acked_sent [OF inv near 3(2,1) refl, of w]
    have "sn_inv D (TCPSender_fill_window (sn_acked (sn_window_update s w) ?x))" by (simp add: sn_sent_def)
    then show ?thesis
      unfolding ack_cases(3) [OF 3] by (rule sn_timer_inv) (simp add: Timer_defs)
  qed (simp_all add: ack_cases inv sn_window_update_inv)
qed

section \<open>Time\<close>

text \<open>When the timer has run out the oldest outstanding segment is sent again.\<close>

definition sn_expired :: "tcp_sender \<Rightarrow> size_t \<Rightarrow> bool" where
  "sn_expired s ms \<longleftrightarrow>
     sn_copy_segments_out s \<noteq> [] \<and> tm_running (sn_timer s) \<and>
     tm_rt_timeout (sn_timer s) \<le> add64 (tm_total_time (sn_timer s)) ms"

lemma tick_cases:
  "\<not> sn_expired s ms \<Longrightarrow> TCPSender_tick s ms =
     s\<lparr>sn_timer := (sn_timer s)\<lparr>tm_total_time := add64 (tm_total_time (sn_timer s)) ms\<rparr>\<rparr>"
  "sn_expired s ms \<Longrightarrow> TCPSender_tick s ms =
     s\<lparr>sn_segments_out := sn_segments_out s @ [hd (sn_copy_segments_out s)],
       sn_consecutive_retransmissions :=
         (if sn_window_size_zero s then sn_consecutive_retransmissions s
          else add64 (sn_consecutive_retransmissions s) 1),
       sn_timer := \<lparr>tm_running = True, tm_total_time = 0,
         tm_rt_timeout = (if sn_window_size_zero s then tm_rt_timeout (sn_timer s)
           else mul64 (tm_rt_timeout (sn_timer s)) 2)\<rparr>\<rparr>"
  by (cases s; cases "sn_timer s"; auto simp: TCPSender_tick_def Let_def Timer_defs sn_expired_def)+

lemma retransmitted_sends:
  assumes "sn_inv D s" "sn_copy_segments_out s \<noteq> []"
  shows "\<exists>a. sends D (sn_isn s) a (hd (sn_copy_segments_out s)) \<and> a \<le> sn_send_base s \<and>
    sn_send_base s < a + seg_len (hd (sn_copy_segments_out s))"
proof -
  obtain seg segs where "sn_copy_segments_out s = seg # segs" using assms(2) by (auto simp: neq_Nil_conv)
  with assms(1) show ?thesis by (auto simp: sn_inv_def sn_queue_def)
qed

lemma tick_inv:
  assumes "sn_inv D s"
  shows "sn_inv D (TCPSender_tick s ms)"
proof (cases "sn_expired s ms")
  case True
  then have "sn_copy_segments_out s \<noteq> []" by (simp add: sn_expired_def)
  from retransmitted_sends [OF assms this] assms show ?thesis
    unfolding tick_cases(2) [OF True] by (auto simp: sn_inv_def sn_queue_def sn_data_def sn_emits_def)
next
  case False
  with assms show ?thesis by (simp add: tick_cases(1) sn_inv_def)
qed

section \<open>Runs\<close>

text \<open>
  The calls its owner makes on a sender, each with the segments the owner takes from
  \<open>segments_out\<close>. The bytes written are the stream \<open>D\<close>; an acknowledgment may carry any
  number and window, but arrives with less than \<open>2^30\<close> sequence numbers in flight.
\<close>

inductive sn_step :: "bytes \<Rightarrow> tcp_sender \<Rightarrow> tcp_segment list \<Rightarrow> tcp_sender \<Rightarrow> bool" for D where
  write_data: "ByteStream_write (sn_stream s) data = (stream, n) \<Longrightarrow>
    excerpt D (bs_written (sn_stream s)) (take n data) \<Longrightarrow> sn_step D s [] (s\<lparr>sn_stream := stream\<rparr>)"
| end_data: "bs_written (sn_stream s) = length D \<Longrightarrow>
    sn_step D s [] (s\<lparr>sn_stream := ByteStream_end_input (sn_stream s)\<rparr>)"
| fill: "sn_step D s [] (TCPSender_fill_window s)"
| ack: "sn_near s \<Longrightarrow> sn_step D s [] (TCPSender_ack_received s ackno w)"
| tick: "sn_step D s [] (TCPSender_tick s ms)"
| empty: "sn_step D s [] (TCPSender_send_empty_segment s)"
| emit: "sn_step D s (sn_segments_out s) (s\<lparr>sn_segments_out := []\<rparr>)"

inductive sn_run :: "bytes \<Rightarrow> tcp_sender \<Rightarrow> tcp_segment list \<Rightarrow> tcp_sender \<Rightarrow> bool" for D where
  none: "sn_run D s [] s"
| more: "sn_run D s segs s' \<Longrightarrow> sn_step D s' segs' s'' \<Longrightarrow> sn_run D s (segs @ segs') s''"

lemma sn_stream_inv:
  assumes "sn_inv D s" "out_ok D st" "bs_eof st \<longrightarrow> bs_written st = length D"
    "bs_read st = bs_read (sn_stream s)" "bs_cap st = bs_cap (sn_stream s)"
    "bs_eof (sn_stream s) \<longrightarrow> bs_eof st"
  shows "sn_inv D (s\<lparr>sn_stream := st\<rparr>)"
  using assms by (simp add: sn_inv_def sn_data_def)

lemma write_data_inv:
  assumes inv: "sn_inv D s" and w: "ByteStream_write (sn_stream s) data = (st, n)"
    and ex: "excerpt D (bs_written (sn_stream s)) (take n data)"
  shows "sn_inv D (s\<lparr>sn_stream := st\<rparr>)"
proof -
  have o: "out_ok D (sn_stream s)" and e: "bs_eof (sn_stream s) \<longrightarrow> bs_written (sn_stream s) = length D"
    using inv by (auto simp: sn_inv_def sn_data_def)
  then have bi: "bs_inv (sn_stream s)" by (simp add: out_ok_def)
  from w have n: "n = min (length data) (bs_cap (sn_stream s) - length (bs_buf (sn_stream s)))"
    and st: "st = (sn_stream s)\<lparr>bs_buf := bs_buf (sn_stream s) @ take n data,
      bs_written := add64 (bs_written (sn_stream s)) n\<rparr>"
    by (auto simp: write_exact [OF bi] Let_def)
  have len: "length (take n data) = n" using n by simp
  have fits: "bs_written (sn_stream s) + length (take n data) \<le> bs_read (sn_stream s) + bs_cap (sn_stream s)"
    using n out_ok_written [OF o] bi by (auto simp: bs_inv_def)
  have sum: "add64 (bs_written (sn_stream s)) n = bs_written (sn_stream s) + n"
    using fits o by (intro add64_exact) (simp add: out_ok_def del: length_take add: len)
  then have "st = fst (ByteStream_write (sn_stream s) (take n data))"
    unfolding write_out_ok(1) [OF o ex fits] by (simp add: st len del: length_take)
  with write_out_ok(2) [OF o ex fits] have "out_ok D st" by simp
  moreover have "bs_eof (sn_stream s) \<longrightarrow> bs_written st = length D"
  proof
    assume "bs_eof (sn_stream s)"
    then have "n = 0" using e ex len by (simp add: excerpt_def del: length_take)
    with e \<open>bs_eof (sn_stream s)\<close> sum show "bs_written st = length D" by (simp add: st)
  qed
  ultimately show ?thesis using inv by (intro sn_stream_inv) (simp_all add: st)
qed

text \<open>A step keeps the invariant, the initial number and the error flag, and acknowledgments stay.\<close>

definition sn_keeps :: "bytes \<Rightarrow> tcp_sender \<Rightarrow> tcp_sender \<Rightarrow> bool" where
  "sn_keeps D s s' \<longleftrightarrow>
     sn_inv D s' \<and> sn_isn s' = sn_isn s \<and> sn_send_base s \<le> sn_send_base s' \<and>
     sn_next_seqno s \<le> sn_next_seqno s' \<and> bs_error (sn_stream s') = bs_error (sn_stream s)"

lemma ack_received_keeps:
  assumes "sn_inv D s" "sn_near s"
  shows "sn_keeps D s (TCPSender_ack_received s ackno w)"
    and "sn_send_base (TCPSender_ack_received s ackno w) =
      (let x = unwrap_abs ackno (sn_isn s) (sn_send_base s)
       in if sn_send_base s < x \<and> x \<le> sn_next_seqno s then x else sn_send_base s)"
proof -
  let ?x = "unwrap_abs ackno (sn_isn s) (sn_send_base s)" and ?s = "TCPSender_ack_received s ackno w"
  consider "?x > sn_next_seqno s" | "?x \<le> sn_next_seqno s" "?x \<le> sn_send_base s"
    | "?x \<le> sn_next_seqno s" "?x > sn_send_base s" by linarith
  then have "sn_keeps D s ?s \<and> sn_send_base ?s =
      (let x = ?x in if sn_send_base s < x \<and> x \<le> sn_next_seqno s then x else sn_send_base s)"
  proof cases
    case 3
    from acked_sent [OF assms 3(2,1) refl, of w] ack_received_inv [OF assms, of ackno w] 3 show ?thesis
      unfolding sn_keeps_def ack_cases(3) [OF 3]
      by (simp add: sn_sent_def sn_acked_def sn_window_update_def Let_def)
  qed (use assms sn_window_update_inv [OF assms(1), of w] in
      \<open>simp_all add: ack_cases sn_window_update_def sn_keeps_def\<close>)
  then show "sn_keeps D s ?s" "sn_send_base ?s =
      (let x = ?x in if sn_send_base s < x \<and> x \<le> sn_next_seqno s then x else sn_send_base s)" by simp_all
qed

lemma sn_step_inv:
  assumes "sn_step D s segs s'" "sn_inv D s"
  shows "sn_keeps D s s'" "seg \<in> set segs \<Longrightarrow> sn_emits D (sn_isn s) seg"
proof -
  have seg: "\<forall>seg \<in> set (sn_segments_out s). sn_emits D (sn_isn s) seg"
    using assms(2) by (simp add: sn_inv_def sn_queue_def)
  from assms(1) have "sn_keeps D s s' \<and> (seg \<in> set segs \<longrightarrow> sn_emits D (sn_isn s) seg)"
  proof cases
    case (write_data data stream n)
    moreover have "bs_error stream = bs_error (sn_stream s)"
      using write_data(3) by (auto simp: ByteStream_write_def Let_def)
    ultimately show ?thesis using write_data_inv [OF assms(2)] by (simp add: sn_keeps_def)
  next
    case end_data
    have "out_ok D (ByteStream_end_input (sn_stream s))"
      using assms(2) by (simp add: ByteStream_end_input_def sn_inv_def sn_data_def out_ok_def bs_inv_def)
    with end_data sn_stream_inv [OF assms(2)] show ?thesis
      by (simp add: ByteStream_end_input_def sn_keeps_def)
  next
    case fill
    then show ?thesis using fill_window_sent(1) [OF assms(2)] by (simp add: sn_sent_def sn_keeps_def)
  next
    case (ack ackno w)
    then show ?thesis using ack_received_keeps(1) [OF assms(2)] by simp
  next
    case (tick ms)
    then show ?thesis
      using tick_inv [OF assms(2)] by (simp add: TCPSender_tick_def Let_def sn_keeps_def)
  next
    case empty
    then show ?thesis using assms(2) seg
      by (simp add: TCPSender_send_empty_segment_def Let_def sn_inv_def sn_queue_def sn_keeps_def
          sn_emits_def TCPSegment_length_in_sequence_space_def TCPHeader_default_def)
  next
    case emit
    then show ?thesis using assms(2) seg by (simp add: sn_inv_def sn_queue_def sn_keeps_def)
  qed
  then show "sn_keeps D s s'" "seg \<in> set segs \<Longrightarrow> sn_emits D (sn_isn s) seg" by blast+
qed

lemma sn_run_inv:
  assumes "sn_run D s segs s'" "sn_inv D s"
  shows "sn_inv D s' \<and> sn_isn s' = sn_isn s \<and> (\<forall>seg \<in> set segs. sn_emits D (sn_isn s) seg)"
  using assms
proof induction
  case (more s segs s' segs' s'')
  with sn_step_inv [OF more.hyps(2)] show ?case by (auto simp: sn_keeps_def)
qed simp

section \<open>A sample connection\<close>

text \<open>A SYN, its acknowledgment with a window of two, and three bytes to send.\<close>

definition sample_isn :: WrappingInt32 where "sample_isn = WrappingInt32 4294967290"

definition sample_syn_sent :: tcp_sender where
  "sample_syn_sent = TCPSender_fill_window (TCPSender_new sample_isn 10 1000 None)"

definition sample_acked :: tcp_sender where
  "sample_acked = TCPSender_ack_received sample_syn_sent (wrap_abs 1 sample_isn) 2"

definition sample_established :: tcp_sender where
  "sample_established = sample_acked\<lparr>sn_stream := fst (ByteStream_write (sn_stream sample_acked) [1, 2, 3])\<rparr>"

abbreviation sample_syn :: tcp_segment where
  "sample_syn \<equiv> \<lparr>ts_header = TCPHeader_default\<lparr>th_seqno := sample_isn, th_syn := True\<rparr>, ts_payload = Buffer_default\<rparr>"

lemma sample_syn_sent_value: "sample_syn_sent =
  \<lparr>sn_isn = sample_isn, sn_segments_out = [sample_syn], sn_initial_retransmission_timeout = 1000,
   sn_stream = ByteStream_new 10, sn_next_seqno = 1,
   sn_timer = \<lparr>tm_running = True, tm_total_time = 0, tm_rt_timeout = 1000\<rparr>, sn_send_base = 0,
   sn_window_size = 1, sn_window_size_zero = False, sn_syn_flag = True, sn_fin_flag = False,
   sn_copy_segments_out = [sample_syn], sn_consecutive_retransmissions = 0\<rparr>"
  by (simp add: sample_syn_sent_def TCPSender_new_def TCPSender_fill_window_def
      TCPSender_send_segment_def Timer_defs TCPSegment_default_def TCPHeader_default_def
      TCPSegment_length_in_sequence_space_def wrap_abs_zero add64_def Let_def)

lemma sample_acked_value: "sample_acked =
  \<lparr>sn_isn = sample_isn, sn_segments_out = [sample_syn], sn_initial_retransmission_timeout = 1000,
   sn_stream = ByteStream_new 10, sn_next_seqno = 1,
   sn_timer = \<lparr>tm_running = False, tm_total_time = 0, tm_rt_timeout = 0\<rparr>, sn_send_base = 1,
   sn_window_size = 2, sn_window_size_zero = False, sn_syn_flag = True, sn_fin_flag = False,
   sn_copy_segments_out = [], sn_consecutive_retransmissions = 0\<rparr>"
proof -
  have "unwrap_abs (wrap_abs 1 sample_isn) sample_isn 0 = 1" by (rule seqno.dec_enc) simp_all
  moreover have "unwrap_abs sample_isn sample_isn 1 = 0"
    using seqno.dec_enc [of 0 1 sample_isn] by (simp add: wrap_abs_zero)
  ultimately show ?thesis
    by (simp add: sample_acked_def sample_syn_sent_value TCPSender_ack_received_def Let_def
        TCPSender_acknowledged_def TCPSegment_length_in_sequence_space_def TCPHeader_default_def
        TCPSender_fill_window_def ByteStream_accessors ByteStream_new_def Timer_defs add64_def)
qed

lemma sample_write:
  "ByteStream_write (ByteStream_new 10) [1, 2, 3] =
   ((ByteStream_new 10)\<lparr>bs_buf := [1, 2, 3], bs_written := 3\<rparr>, 3)"
  using write_exact [OF bs_inv_new [of 10]] by (simp add: ByteStream_new_def add64_def)

lemma sample_established_fields:
  "sn_isn sample_established = sample_isn" "sn_next_seqno sample_established = 1"
  "sn_send_base sample_established = 1" "sn_window_size sample_established = 2"
  "sn_syn_flag sample_established" "\<not> sn_fin_flag sample_established"
  "bs_buf (sn_stream sample_established) = [1, 2, 3]" "\<not> bs_eof (sn_stream sample_established)"
  "bs_written (sn_stream sample_established) = 3" "TCPSender_bytes_in_flight sample_established = 0"
  by (simp_all add: sample_established_def sample_acked_value sample_write TCPSender_bytes_in_flight_def)
    (simp add: ByteStream_new_def)

lemma sample_syn_sent_inv: "sn_inv [1, 2, 3] sample_syn_sent"
  using fill_window_sent(1) [OF sn_inv_new [of "[1, 2, 3]" 10 sample_isn 1000 None]]
  by (simp add: sample_syn_sent_def sn_sent_def)

lemma sample_established_inv: "sn_inv [1, 2, 3] sample_established"
proof -
  have "sn_inv [1, 2, 3] sample_acked"
    unfolding sample_acked_def
    by (rule ack_received_inv [OF sample_syn_sent_inv]) (simp add: sample_syn_sent_value)
  from write_data_inv [OF this, of "[1, 2, 3]"] show ?thesis
    by (simp add: sample_established_def sample_acked_value sample_write)
      (simp add: ByteStream_new_def excerpt_def)
qed

lemma sample_filled:
  "sn_sent [1, 2, 3] sample_established (TCPSender_fill_window sample_established) 2"
proof -
  have "min (sub64 2 0) (sn_pending sample_established) = 2"
    by (simp add: sub64_def sn_pending_def sample_established_fields)
  with fill_window_sent(1) [OF sample_established_inv] show ?thesis
    by (simp only: sample_established_fields if_True)
qed

definition sample_shrunk :: tcp_sender where
  "sample_shrunk = sn_window_update (TCPSender_fill_window sample_established) 1"

section \<open>Properties\<close>

text \<open>
  C3: whatever the owner calls, and whatever acknowledgments arrive, every segment a sender gives
  out is either empty or carries a piece of the stream under the number it has there, with at most
  \<open>MAX_PAYLOAD_SIZE\<close> bytes; and the segments kept for retransmission tile the sequence
  numbers up to \<open>next_seqno\<close> without a gap, starting with the one that holds
  \<open>send_base\<close>.
\<close>

theorem tcp_sender_emits:
  assumes "length D + capacity < 2 ^ 64" "length D < 2 ^ 63"
    and "sn_run D (TCPSender_new random capacity retx_timeout fixed_isn) segs s"
  shows "(\<forall>seg \<in> set segs. seg_len seg = 0 \<or>
      (\<exists>k. carries D (sn_isn s) seg k \<and> length (seg_data seg) \<le> TCPConfig_MAX_PAYLOAD_SIZE)) \<and>
    (\<exists>a. tiles D (sn_isn s) a (sn_copy_segments_out s) (sn_next_seqno s) \<and> a \<le> sn_send_base s \<and>
      sn_send_base s \<le> sn_next_seqno s \<and>
      (sn_copy_segments_out s \<noteq> [] \<longrightarrow> sn_send_base s < a + seg_len (hd (sn_copy_segments_out s))))"
proof -
  note run = sn_run_inv [OF assms(3) sn_inv_new [OF assms(1,2)]]
  have "seg_len seg = 0 \<or> (\<exists>k. carries D (sn_isn s) seg k \<and> length (seg_data seg) \<le> TCPConfig_MAX_PAYLOAD_SIZE)"
    if "seg \<in> set segs" for seg
  proof -
    have "seg_len seg = 0 \<or> (\<exists>a. sends D (sn_isn s) a seg)" using run that by (auto simp: sn_emits_def)
    then show ?thesis using sends_carries [of D "sn_isn s" _ seg] by (auto simp: sends_def)
  qed
  moreover have "sn_queue D s" using run by (simp add: sn_inv_def)
  ultimately show ?thesis unfolding sn_queue_def by blast
qed

theorem tcp_sender_emits_witness:
  "\<exists>segs s. sn_run [1, 2, 3] (TCPSender_new sample_isn 10 1000 None) segs s \<and> length segs = 1 \<and>
     (\<forall>seg \<in> set segs. seg_len seg = 0 \<or> (\<exists>k. carries [1, 2, 3] (sn_isn s) seg k \<and>
        length (seg_data seg) \<le> TCPConfig_MAX_PAYLOAD_SIZE))"
proof -
  let ?s = "sample_syn_sent"
  have "sn_run [1, 2, 3] (TCPSender_new sample_isn 10 1000 None) ([] @ []) ?s"
    unfolding sample_syn_sent_def by (rule sn_run.more [OF sn_run.none sn_step.fill])
  from sn_run.more [OF this sn_step.emit] 
  have run: "sn_run [1, 2, 3] (TCPSender_new sample_isn 10 1000 None) (sn_segments_out ?s) (?s\<lparr>sn_segments_out := []\<rparr>)"
    by simp
  have len: "length (sn_segments_out ?s) = 1" by (simp add: sample_syn_sent_value)
  have "length [1, 2, 3 :: byte] + 10 < 2 ^ 64" "length [1, 2, 3 :: byte] < 2 ^ 63" by simp_all
  from run len tcp_sender_emits [OF this run, THEN conjunct1] show ?thesis
    by (intro exI conjI)
qed

text \<open>
  C23: \<open>fill_window\<close> once the SYN has been sent and while no more is in flight than the window
  holds. It then sends exactly as much as the window and the stream allow, FIN included, as contiguous
  new segments which it also keeps for retransmission, and there is still no more in flight than the
  window holds.
\<close>

theorem tcp_sender_fill_window:
  assumes "sn_inv D s" "sn_syn_flag s" "TCPSender_bytes_in_flight s \<le> sn_window_size s"
  shows "sn_next_seqno (TCPSender_fill_window s) = sn_next_seqno s +
      min (sn_window_size s - TCPSender_bytes_in_flight s) (sn_pending s) \<and>
    TCPSender_bytes_in_flight (TCPSender_fill_window s) \<le> sn_window_size s \<and>
    (\<exists>new. sn_segments_out (TCPSender_fill_window s) = sn_segments_out s @ new \<and>
       sn_copy_segments_out (TCPSender_fill_window s) = sn_copy_segments_out s @ new \<and>
       tiles D (sn_isn s) (sn_next_seqno s) new (sn_next_seqno (TCPSender_fill_window s)))"
proof -
  have "sn_window_size s < 2 ^ 16" using assms(1) by (simp add: sn_inv_def sn_data_def)
  with assms(3) have "sub64 (sn_window_size s) (TCPSender_bytes_in_flight s) =
      sn_window_size s - TCPSender_bytes_in_flight s" by (simp add: sub64_exact)
  with fill_window_sent(1) [OF assms(1)] assms(2)
  have sent: "sn_sent D s (TCPSender_fill_window s)
      (min (sn_window_size s - TCPSender_bytes_in_flight s) (sn_pending s))" by simp
  then have "sn_inv D (TCPSender_fill_window s)" by (simp add: sn_sent_def)
  from sn_inv_bounds(4) [OF this] sn_inv_bounds(3,4) [OF assms(1)] sent assms(3)
  have "TCPSender_bytes_in_flight (TCPSender_fill_window s) \<le> sn_window_size s"
    by (simp add: sn_sent_def)
  with sent show ?thesis by (simp add: sn_sent_def)
qed

theorem tcp_sender_fill_window_witness:
  "sn_next_seqno (TCPSender_fill_window sample_established) = 3 \<and>
   TCPSender_bytes_in_flight (TCPSender_fill_window sample_established) \<le> 2"
  using tcp_sender_fill_window [OF sample_established_inv]
  by (simp add: sample_established_fields sn_pending_def)

text \<open>
  C24: when the peer shrinks its window below what is in flight, the unsigned difference
  \<open>_window_size - bytes_in_flight()\<close> wraps around and \<open>fill_window\<close> sends everything
  that waits, all of it outside the window.
\<close>

theorem tcp_sender_window_shrink:
  assumes "sn_inv D s" "sn_syn_flag s" "sn_window_size s < TCPSender_bytes_in_flight s"
  shows "sn_next_seqno (TCPSender_fill_window s) = sn_next_seqno s + sn_pending s"
proof -
  note b = sn_inv_bounds [OF assms(1)]
  have "sn_pending s + sn_next_seqno s \<le> length D + 2" and D: "length D < 2 ^ 63"
    using assms(1,2) b by (auto simp: sn_pending_def sn_inv_def sn_data_def of_bool_def)
  then have "sn_pending s \<le> 2 ^ 64 - (TCPSender_bytes_in_flight s - sn_window_size s)"
    using b(4) by simp
  moreover have "sub64 (sn_window_size s) (TCPSender_bytes_in_flight s) =
      2 ^ 64 - (TCPSender_bytes_in_flight s - sn_window_size s)"
    using assms(3) b(2,4) by (intro sub64_wraps) simp_all
  ultimately show ?thesis
    using fill_window_sent(1) [OF assms(1)] assms(2) by (simp add: sn_sent_def min_absorb2)
qed

theorem tcp_sender_window_shrink_witness:
  "sn_window_size sample_shrunk = 1 \<and> TCPSender_bytes_in_flight sample_shrunk = 2 \<and>
   sn_next_seqno (TCPSender_fill_window sample_shrunk) = 4"
proof -
  have inv: "sn_inv [1, 2, 3] sample_shrunk"
    unfolding sample_shrunk_def using sample_filled by (simp add: sn_sent_def sn_window_update_inv)
  have f: "sn_next_seqno sample_shrunk = 3" "sn_send_base sample_shrunk = 1" "sn_window_size sample_shrunk = 1"
    "bs_written (sn_stream sample_shrunk) = 3" "\<not> bs_eof (sn_stream sample_shrunk)"
    using sample_filled by (simp_all add: sample_shrunk_def sn_window_update_def sn_sent_def sample_established_fields)
  moreover have syn: "sn_syn_flag sample_shrunk"
    using fill_window_sent(2) [OF sample_established_inv] by (simp add: sample_shrunk_def sn_window_update_def)
  ultimately have "bs_read (sn_stream sample_shrunk) = 2" "\<not> sn_fin_flag sample_shrunk"
    using inv by (auto simp: sn_inv_def sn_data_def)
  with syn f sn_inv_bounds(5) [OF inv] have "sn_pending sample_shrunk = 1" by (simp add: sn_pending_def)
  then show ?thesis
    using tcp_sender_window_shrink [OF inv syn] f sn_inv_bounds(4) [OF inv] by simp
qed

text \<open>
  C25: \<open>ack_received\<close>. An acknowledgment of something never sent changes nothing; one that is
  not new only updates the window; a new one moves \<open>send_base\<close> to it, forgets exactly the
  outstanding segments that lie entirely below it, fills the window, and resets the timer and the
  count of retransmissions.
\<close>

theorem tcp_sender_ack:
  fixes w :: uint16 and ackno
  assumes "sn_inv D s" "sn_near s"
  defines "x \<equiv> unwrap_abs ackno (sn_isn s) (sn_send_base s)" and "s' \<equiv> TCPSender_ack_received s ackno w"
  shows "if x > sn_next_seqno s then s' = s
    else if x \<le> sn_send_base s
    then s' = s\<lparr>sn_window_size := (if w = 0 then 1 else unat w), sn_window_size_zero := (w = 0)\<rparr>
    else sn_send_base s' = x \<and> sn_consecutive_retransmissions s' = 0 \<and>
      tm_running (sn_timer s') = (sn_copy_segments_out s' \<noteq> []) \<and>
      (sn_copy_segments_out s' \<noteq> [] \<longrightarrow> tm_total_time (sn_timer s') = 0 \<and>
         tm_rt_timeout (sn_timer s') = sn_initial_retransmission_timeout s) \<and>
      (\<exists>acked rest new a b. sn_copy_segments_out s = acked @ rest \<and>
         sn_copy_segments_out s' = rest @ new \<and> tiles D (sn_isn s) a acked b \<and> b \<le> x \<and>
         tiles D (sn_isn s) b (rest @ new) (sn_next_seqno s') \<and>
         (rest \<noteq> [] \<longrightarrow> x < b + seg_len (hd rest)))"
proof -
  consider "x > sn_next_seqno s" | "x \<le> sn_next_seqno s" "x \<le> sn_send_base s"
    | (new) "x \<le> sn_next_seqno s" "x > sn_send_base s" by linarith
  then show ?thesis
  proof cases
    case new
    let ?a = "sn_acked (sn_window_update s w) x"
    have x: "x \<le> sn_next_seqno s" "\<not> x \<le> sn_send_base s" using new by simp_all
    note s' = ack_cases(3) [OF new [unfolded x_def], of w, folded x_def, folded s'_def]
    note sent = acked_sent [OF assms(1,2) new(2,1) refl, of w]
    have base: "sn_send_base s' = x" "sn_initial_retransmission_timeout s' = sn_initial_retransmission_timeout s"
      using sent s' by (simp_all add: sn_sent_def sn_acked_def sn_window_update_def Let_def)
    have upd: "sn_inv D (sn_window_update s w)" "sn_near (sn_window_update s w)"
      "sn_copy_segments_out (sn_window_update s w) = sn_copy_segments_out s"
      "sn_isn (sn_window_update s w) = sn_isn s" "sn_isn ?a = sn_isn s"
      "sn_next_seqno (sn_window_update s w) = sn_next_seqno s" "sn_next_seqno ?a = sn_next_seqno s"
      "sn_send_base (sn_window_update s w) = sn_send_base s"
      using sn_window_update_inv [OF assms(1)] assms(2)
      by (simp_all add: sn_window_update_def sn_acked_def Let_def)
    obtain acked a b where split: "sn_copy_segments_out s = acked @ sn_copy_segments_out ?a"
      "tiles D (sn_isn s) a acked b" "tiles D (sn_isn s) b (sn_copy_segments_out ?a) (sn_next_seqno s)"
      "b \<le> x" "sn_copy_segments_out ?a \<noteq> [] \<longrightarrow> x < b + seg_len (hd (sn_copy_segments_out ?a))"
      using sn_acked_split [OF upd(1,2), unfolded upd, OF new(2,1)] by blast
    obtain new where nw: "sn_copy_segments_out s' = sn_copy_segments_out ?a @ new"
      "tiles D (sn_isn s) (sn_next_seqno s) new (sn_next_seqno s')"
      using sent s' upd(5,7) by (auto simp: sn_sent_def)
    have "tiles D (sn_isn s) b (sn_copy_segments_out ?a @ new) (sn_next_seqno s')"
      using split(3) nw(2) by (auto simp: tiles_append)
    then have "\<exists>acked rest new a b. sn_copy_segments_out s = acked @ rest \<and>
         sn_copy_segments_out s' = rest @ new \<and> tiles D (sn_isn s) a acked b \<and> b \<le> x \<and>
         tiles D (sn_isn s) b (rest @ new) (sn_next_seqno s') \<and>
         (rest \<noteq> [] \<longrightarrow> x < b + seg_len (hd rest))"
      using split nw(1) by blast
    moreover have "sn_consecutive_retransmissions s' = 0"
      "tm_running (sn_timer s') = (sn_copy_segments_out s' \<noteq> [])"
      "sn_copy_segments_out s' \<noteq> [] \<longrightarrow> tm_total_time (sn_timer s') = 0 \<and>
         tm_rt_timeout (sn_timer s') = sn_initial_retransmission_timeout s"
      using base(2) by (simp_all add: s' Timer_defs)
    ultimately show ?thesis using x base(1) by simp
  qed (simp_all add: x_def s'_def ack_cases sn_window_update_def)
qed

theorem tcp_sender_ack_witness:
  "sn_send_base (TCPSender_ack_received sample_syn_sent (wrap_abs 1 sample_isn) 2) = 1"
proof -
  have x: "unwrap_abs (wrap_abs 1 sample_isn) sample_isn 0 = 1" by (rule seqno.dec_enc) simp_all
  from tcp_sender_ack [OF sample_syn_sent_inv, of "wrap_abs 1 sample_isn" 2] x show ?thesis
    by (simp add: sample_syn_sent_value)
qed

text \<open>
  C26: exponential backoff. As long as nothing is acknowledged, each expiry of the timer sends the
  oldest outstanding segment again and, unless it probes a zero window, doubles the timeout and
  counts a retransmission.
\<close>

theorem tcp_sender_backoff:
  assumes "sn_copy_segments_out s \<noteq> []" "tm_running (sn_timer s)" "tm_total_time (sn_timer s) = 0"
    and "\<forall>i < length mss. rto * 2 ^ i \<le> mss ! i \<and> mss ! i < 2 ^ 64"
    and "rto = tm_rt_timeout (sn_timer s)" "rto * 2 ^ length mss < 2 ^ 64"
    and "sn_consecutive_retransmissions s + length mss < 2 ^ 64"
  shows "foldl TCPSender_tick s mss =
    s\<lparr>sn_segments_out := sn_segments_out s @ replicate (length mss) (hd (sn_copy_segments_out s)),
      sn_consecutive_retransmissions := sn_consecutive_retransmissions s +
        (if sn_window_size_zero s then 0 else length mss),
      sn_timer := \<lparr>tm_running = True, tm_total_time = 0,
        tm_rt_timeout = (if sn_window_size_zero s then rto else rto * 2 ^ length mss)\<rparr>\<rparr>"
  using assms
proof (induction mss rule: rev_induct)
  case Nil
  then show ?case by (cases s; cases "sn_timer s") simp
next
  case (snoc ms mss)
  let ?s = "foldl TCPSender_tick s mss" and ?n = "length mss"
  have pre: "\<forall>i < ?n. rto * 2 ^ i \<le> mss ! i \<and> mss ! i < 2 ^ 64" "rto * 2 ^ ?n \<le> ms" "ms < 2 ^ 64"
    using snoc.prems(4) by (auto simp: nth_append less_Suc_eq dest: spec [of _ "?n"])
  have dbl: "rto * 2 ^ ?n * 2 < 2 ^ 64" using snoc.prems(6) by (simp add: mult.assoc)
  have IH: "?s = s\<lparr>sn_segments_out := sn_segments_out s @ replicate ?n (hd (sn_copy_segments_out s)),
      sn_consecutive_retransmissions := sn_consecutive_retransmissions s + (if sn_window_size_zero s then 0 else ?n),
      sn_timer := \<lparr>tm_running = True, tm_total_time = 0,
        tm_rt_timeout = (if sn_window_size_zero s then rto else rto * 2 ^ ?n)\<rparr>\<rparr>"
    using snoc.IH [OF snoc.prems(1-3) pre(1) snoc.prems(5)] snoc.prems(7) dbl by simp
  have "rto \<le> rto * 2 ^ ?n" by simp
  with pre(2) have "rto \<le> ms" by linarith
  then have "sn_expired ?s ms"
    unfolding IH sn_expired_def using snoc.prems(1) pre(2,3) by (simp add: add64_def)
  from tick_cases(2) [OF this] show ?case
    unfolding foldl_append foldl.simps IH using snoc.prems(7) dbl
    by (simp add: add64_exact mul64_exact replicate_append_same mult.assoc)
qed

theorem tcp_sender_backoff_witness:
  "tm_rt_timeout (sn_timer (foldl TCPSender_tick sample_syn_sent [1000, 2500, 4000])) = 8000 \<and>
   sn_consecutive_retransmissions (foldl TCPSender_tick sample_syn_sent [1000, 2500, 4000]) = 3"
proof -
  define mss :: "nat list" where "mss = [1000, 2500, 4000]"
  have len: "length mss = 3" by (simp add: mss_def)
  have mss: "\<forall>i < length mss. 1000 * 2 ^ i \<le> mss ! i \<and> mss ! i < 2 ^ 64"
    by (simp add: mss_def All_less_Suc)
  have s: "sn_copy_segments_out sample_syn_sent \<noteq> []" "tm_running (sn_timer sample_syn_sent)"
    "tm_total_time (sn_timer sample_syn_sent) = 0" "1000 = tm_rt_timeout (sn_timer sample_syn_sent)"
    "\<not> sn_window_size_zero sample_syn_sent" "sn_consecutive_retransmissions sample_syn_sent = 0"
    by (simp_all add: sample_syn_sent_value)
  show ?thesis
    using tcp_sender_backoff [OF s(1-3) mss s(4)] s(5,6) unfolding mss_def [symmetric] by (simp add: len)
qed

end
