(* ===== verification/TCP_State.thy ===== *)
theory TCP_State
  imports TCP_Sender
begin

text \<open>
  The summary of a connection's state of \<open>tcp_helpers/tcp_state.hh\<close> and
  \<open>tcp_helpers/tcp_state.cc\<close>: the official state names, the strings that summarize a sender
  and a receiver, and the comparison of the two.
\<close>

section \<open>State summaries\<close>

datatype TCPState_State =
  LISTEN | SYN_RCVD | SYN_SENT | ESTABLISHED | CLOSE_WAIT | LAST_ACK | FIN_WAIT_1 | FIN_WAIT_2 |
  CLOSING | TIME_WAIT | CLOSED | RESET

definition TCPReceiverStateSummary_ERROR :: string where
  "TCPReceiverStateSummary_ERROR = ''error (connection was reset)''"

definition TCPReceiverStateSummary_LISTEN :: string where
  "TCPReceiverStateSummary_LISTEN = ''waiting for SYN: ackno is empty''"

definition TCPReceiverStateSummary_SYN_RECV :: string where
  "TCPReceiverStateSummary_SYN_RECV =
     ''SYN received (ackno exists), and input to stream hasn'' @ [CHR 39] @ ''t ended''"

definition TCPReceiverStateSummary_FIN_RECV :: string where
  "TCPReceiverStateSummary_FIN_RECV = ''input to stream has ended''"

definition TCPSenderStateSummary_ERROR :: string where
  "TCPSenderStateSummary_ERROR = ''error (connection was reset)''"

definition TCPSenderStateSummary_CLOSED :: string where
  "TCPSenderStateSummary_CLOSED = ''waiting for stream to begin (no SYN sent)''"

definition TCPSenderStateSummary_SYN_SENT :: string where
  "TCPSenderStateSummary_SYN_SENT = ''stream started but nothing acknowledged''"

definition TCPSenderStateSummary_SYN_ACKED :: string where
  "TCPSenderStateSummary_SYN_ACKED = ''stream ongoing''"

definition TCPSenderStateSummary_FIN_SENT :: string where
  "TCPSenderStateSummary_FIN_SENT = ''stream finished (FIN sent) but not fully acknowledged''"

definition TCPSenderStateSummary_FIN_ACKED :: string where
  "TCPSenderStateSummary_FIN_ACKED = ''stream finished and fully acknowledged''"

lemmas state_strings =
  TCPReceiverStateSummary_ERROR_def TCPReceiverStateSummary_LISTEN_def
  TCPReceiverStateSummary_SYN_RECV_def TCPReceiverStateSummary_FIN_RECV_def
  TCPSenderStateSummary_ERROR_def TCPSenderStateSummary_CLOSED_def
  TCPSenderStateSummary_SYN_SENT_def TCPSenderStateSummary_SYN_ACKED_def
  TCPSenderStateSummary_FIN_SENT_def TCPSenderStateSummary_FIN_ACKED_def

record tcp_state =
  st_sender :: string
  st_receiver :: string
  st_active :: bool
  st_linger_after_streams_finish :: bool

definition TCPState_eq :: "tcp_state \<Rightarrow> tcp_state \<Rightarrow> bool" where
  "TCPState_eq s other \<longleftrightarrow>
     st_active s = st_active other \<and>
     st_linger_after_streams_finish s = st_linger_after_streams_finish other \<and>
     st_sender s = st_sender other \<and> st_receiver s = st_receiver other"

definition TCPState_ne :: "tcp_state \<Rightarrow> tcp_state \<Rightarrow> bool" where
  "TCPState_ne s other \<longleftrightarrow> \<not> TCPState_eq s other"

definition to_string_bool :: "bool \<Rightarrow> string" where
  "to_string_bool b = (if b then ''1'' else ''0'')"

definition TCPState_name :: "tcp_state \<Rightarrow> string" where
  "TCPState_name s =
     ''sender=`'' @ st_sender s @ ''`, receiver=`'' @ st_receiver s @ ''`, active='' @
     to_string_bool (st_active s) @ '', linger_after_streams_finish='' @
     to_string_bool (st_linger_after_streams_finish s)"

fun TCPState_of_State :: "TCPState_State \<Rightarrow> tcp_state" where
  "TCPState_of_State LISTEN =
     \<lparr>st_sender = TCPSenderStateSummary_CLOSED, st_receiver = TCPReceiverStateSummary_LISTEN,
      st_active = True, st_linger_after_streams_finish = True\<rparr>"
| "TCPState_of_State SYN_RCVD =
     \<lparr>st_sender = TCPSenderStateSummary_SYN_SENT, st_receiver = TCPReceiverStateSummary_SYN_RECV,
      st_active = True, st_linger_after_streams_finish = True\<rparr>"
| "TCPState_of_State SYN_SENT =
     \<lparr>st_sender = TCPSenderStateSummary_SYN_SENT, st_receiver = TCPReceiverStateSummary_LISTEN,
      st_active = True, st_linger_after_streams_finish = True\<rparr>"
| "TCPState_of_State ESTABLISHED =
     \<lparr>st_sender = TCPSenderStateSummary_SYN_ACKED, st_receiver = TCPReceiverStateSummary_SYN_RECV,
      st_active = True, st_linger_after_streams_finish = True\<rparr>"
| "TCPState_of_State CLOSE_WAIT =
     \<lparr>st_sender = TCPSenderStateSummary_SYN_ACKED, st_receiver = TCPReceiverStateSummary_FIN_RECV,
      st_active = True, st_linger_after_streams_finish = False\<rparr>"
| "TCPState_of_State LAST_ACK =
     \<lparr>st_sender = TCPSenderStateSummary_FIN_SENT, st_receiver = TCPReceiverStateSummary_FIN_RECV,
      st_active = True, st_linger_after_streams_finish = False\<rparr>"
| "TCPState_of_State CLOSING =
     \<lparr>st_sender = TCPSenderStateSummary_FIN_SENT, st_receiver = TCPReceiverStateSummary_FIN_RECV,
      st_active = True, st_linger_after_streams_finish = True\<rparr>"
| "TCPState_of_State FIN_WAIT_1 =
     \<lparr>st_sender = TCPSenderStateSummary_FIN_SENT, st_receiver = TCPReceiverStateSummary_SYN_RECV,
      st_active = True, st_linger_after_streams_finish = True\<rparr>"
| "TCPState_of_State FIN_WAIT_2 =
     \<lparr>st_sender = TCPSenderStateSummary_FIN_ACKED, st_receiver = TCPReceiverStateSummary_SYN_RECV,
      st_active = True, st_linger_after_streams_finish = True\<rparr>"
| "TCPState_of_State TIME_WAIT =
     \<lparr>st_sender = TCPSenderStateSummary_FIN_ACKED, st_receiver = TCPReceiverStateSummary_FIN_RECV,
      st_active = True, st_linger_after_streams_finish = True\<rparr>"
| "TCPState_of_State RESET =
     \<lparr>st_sender = TCPSenderStateSummary_ERROR, st_receiver = TCPReceiverStateSummary_ERROR,
      st_active = False, st_linger_after_streams_finish = False\<rparr>"
| "TCPState_of_State CLOSED =
     \<lparr>st_sender = TCPSenderStateSummary_FIN_ACKED, st_receiver = TCPReceiverStateSummary_FIN_RECV,
      st_active = False, st_linger_after_streams_finish = False\<rparr>"

definition TCPState_receiver_summary :: "tcp_receiver \<Rightarrow> string" where
  "TCPState_receiver_summary receiver =
     (if bs_error (TCPReceiver_stream_out receiver) then TCPReceiverStateSummary_ERROR
      else if TCPReceiver_ackno receiver = None then TCPReceiverStateSummary_LISTEN
      else if ByteStream_input_ended (TCPReceiver_stream_out receiver)
      then TCPReceiverStateSummary_FIN_RECV
      else TCPReceiverStateSummary_SYN_RECV)"

definition TCPState_sender_summary :: "tcp_sender \<Rightarrow> string" where
  "TCPState_sender_summary sender =
     (if bs_error (sn_stream sender) then TCPSenderStateSummary_ERROR
      else if sn_next_seqno sender = 0 then TCPSenderStateSummary_CLOSED
      else if sn_next_seqno sender = TCPSender_bytes_in_flight sender then TCPSenderStateSummary_SYN_SENT
      else if \<not> ByteStream_eof (sn_stream sender) then TCPSenderStateSummary_SYN_ACKED
      else if sn_next_seqno sender < add64 (ByteStream_bytes_written (sn_stream sender)) 2
      then TCPSenderStateSummary_SYN_ACKED
      else if TCPSender_bytes_in_flight sender \<noteq> 0 then TCPSenderStateSummary_FIN_SENT
      else TCPSenderStateSummary_FIN_ACKED)"

definition TCPState_new :: "tcp_sender \<Rightarrow> tcp_receiver \<Rightarrow> bool \<Rightarrow> bool \<Rightarrow> tcp_state" where
  "TCPState_new sender receiver active linger =
     \<lparr>st_sender = TCPState_sender_summary sender, st_receiver = TCPState_receiver_summary receiver,
      st_active = active, st_linger_after_streams_finish = (if active then linger else False)\<rparr>"

section \<open>Properties\<close>

text \<open>
  The official states are told apart. No two of the twelve have the same summary, and the text
  \<open>name()\<close> prints for a summary determines the official state.
\<close>

theorem tcp_states_distinct:
  "(TCPState_eq (TCPState_of_State a) (TCPState_of_State b) \<longleftrightarrow> a = b) \<and>
   (TCPState_name (TCPState_of_State a) = TCPState_name (TCPState_of_State b) \<longleftrightarrow> a = b) \<and>
   TCPState_ne (TCPState_of_State a) (TCPState_of_State b) = (a \<noteq> b)"
  by (cases a; cases b; simp add: TCPState_eq_def TCPState_ne_def TCPState_name_def to_string_bool_def state_strings)

end
