(* ===== verification/TCP_Connection.thy ===== *)
theory TCP_Connection
  imports TCP_State
begin

text \<open>
  The connection of \<open>tcp_connection.hh\<close> and \<open>tcp_connection.cc\<close>, which ties a sender
  to a receiver.
\<close>

section \<open>The connection\<close>

datatype receiver_state = listening | syn_received | fin_recv | unk
datatype sender_state = closed | syn_sent | syn_acked | fin_sent | fin_acked | unknown

fun sender_state_index :: "sender_state \<Rightarrow> nat" where
  "sender_state_index closed = 0"
| "sender_state_index syn_sent = 1"
| "sender_state_index syn_acked = 2"
| "sender_state_index fin_sent = 3"
| "sender_state_index fin_acked = 4"
| "sender_state_index unknown = 5"

record tcp_connection =
  cn_cfg :: tcp_config
  cn_receiver :: tcp_receiver
  cn_sender :: tcp_sender
  cn_segments_out :: "tcp_segment list"
  cn_linger_after_streams_finish :: bool
  cn_time_since_last_segment_received :: size_t
  cn_active :: bool
  cn_send_rst :: bool

definition TCPConnection_new :: "WrappingInt32 \<Rightarrow> tcp_config \<Rightarrow> tcp_connection" where
  "TCPConnection_new random cfg =
     \<lparr>cn_cfg = cfg, cn_receiver = TCPReceiver_new (cfg_recv_capacity cfg),
      cn_sender = TCPSender_new random (cfg_send_capacity cfg) (cfg_rt_timeout cfg) (cfg_fixed_isn cfg),
      cn_segments_out = [], cn_linger_after_streams_finish = True,
      cn_time_since_last_segment_received = 0, cn_active = True, cn_send_rst = False\<rparr>"

definition TCPConnection_remaining_outbound_capacity :: "tcp_connection \<Rightarrow> size_t" where
  "TCPConnection_remaining_outbound_capacity cn = ByteStream_remaining_capacity (sn_stream (cn_sender cn))"

definition TCPConnection_bytes_in_flight :: "tcp_connection \<Rightarrow> size_t" where
  "TCPConnection_bytes_in_flight cn = TCPSender_bytes_in_flight (cn_sender cn)"

definition TCPConnection_unassembled_bytes :: "tcp_connection \<Rightarrow> size_t" where
  "TCPConnection_unassembled_bytes cn = TCPReceiver_unassembled_bytes (cn_receiver cn)"

definition TCPConnection_inbound_stream :: "tcp_connection \<Rightarrow> byte_stream" where
  "TCPConnection_inbound_stream cn = TCPReceiver_stream_out (cn_receiver cn)"

definition TCPConnection_state :: "tcp_connection \<Rightarrow> tcp_state" where
  "TCPConnection_state cn =
     TCPState_new (cn_sender cn) (cn_receiver cn) (cn_active cn) (cn_linger_after_streams_finish cn)"

definition TCPConnection_r_state :: "tcp_connection \<Rightarrow> receiver_state" where
  "TCPConnection_r_state cn =
     (if TCPReceiver_ackno (cn_receiver cn) = None then listening
      else if \<not> ByteStream_input_ended (TCPReceiver_stream_out (cn_receiver cn)) then syn_received
      else if ByteStream_input_ended (TCPReceiver_stream_out (cn_receiver cn)) then fin_recv
      else unk)"

definition TCPConnection_s_state :: "tcp_connection \<Rightarrow> sender_state" where
  "TCPConnection_s_state cn =
     (let next_seqno_absolute = sn_next_seqno (cn_sender cn); stream_in = sn_stream (cn_sender cn)
      in if next_seqno_absolute = 0 then closed
         else if next_seqno_absolute = TCPConnection_bytes_in_flight cn then syn_sent
         else if next_seqno_absolute > TCPConnection_bytes_in_flight cn \<and> \<not> ByteStream_eof stream_in \<or>
                 ByteStream_eof stream_in \<and>
                 next_seqno_absolute < add64 (ByteStream_bytes_written stream_in) 2 then syn_acked
         else if ByteStream_eof stream_in \<and>
                 next_seqno_absolute = add64 (ByteStream_bytes_written stream_in) 2 then
           if TCPConnection_bytes_in_flight cn > 0 then fin_sent else fin_acked
         else unknown)"

definition TCPConnection_clean_shutdown :: "tcp_connection \<Rightarrow> tcp_connection" where
  "TCPConnection_clean_shutdown cn =
     (let cn = (if TCPConnection_r_state cn = fin_recv \<and>
                   sender_state_index (TCPConnection_s_state cn) < sender_state_index fin_sent
                then cn\<lparr>cn_linger_after_streams_finish := False\<rparr> else cn)
      in if TCPConnection_r_state cn = fin_recv \<and> TCPConnection_s_state cn = fin_acked then
           if \<not> cn_linger_after_streams_finish cn \<or>
              cn_time_since_last_segment_received cn \<ge> 10 * unat (cfg_rt_timeout (cn_cfg cn))
           then cn\<lparr>cn_active := False\<rparr> else cn
         else cn)"

text \<open>
  The loop of \<open>push_segment_out\<close>, over the segments queued by the sender. \<open>value()\<close> is
  only called when the receiver has an acknowledgment number.
\<close>

fun TCPConnection_push_loop :: "tcp_segment list \<Rightarrow> tcp_connection \<Rightarrow> tcp_connection" where
  "TCPConnection_push_loop [] cn = cn\<lparr>cn_sender := (cn_sender cn)\<lparr>sn_segments_out := []\<rparr>\<rparr>"
| "TCPConnection_push_loop (seg # segs) cn =
     (let head = ts_header seg;
          head = (if TCPConnection_r_state cn \<noteq> listening
                  then head\<lparr>th_ack := True, th_ackno := the (TCPReceiver_ackno (cn_receiver cn)),
                    th_win := of_nat (min (TCPReceiver_window_size (cn_receiver cn)) 65535)\<rparr>
                  else head);
          head = (if cn_send_rst cn then head\<lparr>th_rst := True\<rparr> else head)
      in TCPConnection_push_loop segs
           (cn\<lparr>cn_send_rst := False, cn_segments_out := cn_segments_out cn @ [seg\<lparr>ts_header := head\<rparr>]\<rparr>))"

definition TCPConnection_push_segment_out :: "bool \<Rightarrow> tcp_connection \<Rightarrow> tcp_connection" where
  "TCPConnection_push_segment_out send_syn cn =
     (let cn = (if send_syn \<or> TCPConnection_s_state cn \<noteq> closed \<or> TCPConnection_r_state cn \<noteq> listening
                then cn\<lparr>cn_sender := TCPSender_fill_window (cn_sender cn)\<rparr> else cn);
          cn = TCPConnection_push_loop (sn_segments_out (cn_sender cn)) cn
      in TCPConnection_clean_shutdown cn)"

definition TCPReceiver_set_error :: "tcp_receiver \<Rightarrow> tcp_receiver" where
  "TCPReceiver_set_error r =
     r\<lparr>rc_reassembler := (rc_reassembler r)\<lparr>sr_output := ByteStream_set_error (rc_output r)\<rparr>\<rparr>"

definition TCPConnection_unclean_shutdown :: "bool \<Rightarrow> tcp_connection \<Rightarrow> tcp_connection" where
  "TCPConnection_unclean_shutdown send_rst cn =
     (let cn = cn\<lparr>cn_sender := (cn_sender cn)\<lparr>sn_stream := ByteStream_set_error (sn_stream (cn_sender cn))\<rparr>,
                  cn_receiver := TCPReceiver_set_error (cn_receiver cn), cn_active := False\<rparr>
      in if send_rst then
           let cn = cn\<lparr>cn_send_rst := True\<rparr>;
               cn = (if sn_segments_out (cn_sender cn) = []
                     then cn\<lparr>cn_sender := TCPSender_send_empty_segment (cn_sender cn)\<rparr> else cn)
           in TCPConnection_push_segment_out False cn
         else cn)"

definition TCPConnection_connect :: "tcp_connection \<Rightarrow> tcp_connection" where
  "TCPConnection_connect cn = TCPConnection_push_segment_out True cn"

definition TCPConnection_write :: "tcp_connection \<Rightarrow> bytes \<Rightarrow> tcp_connection \<times> size_t" where
  "TCPConnection_write cn data =
     (let (stream, bw) = ByteStream_write (sn_stream (cn_sender cn)) data;
          cn = cn\<lparr>cn_sender := (cn_sender cn)\<lparr>sn_stream := stream\<rparr>\<rparr>
      in (TCPConnection_push_segment_out False cn, bw))"

definition TCPConnection_end_input_stream :: "tcp_connection \<Rightarrow> tcp_connection" where
  "TCPConnection_end_input_stream cn =
     TCPConnection_push_segment_out False
       (cn\<lparr>cn_sender := (cn_sender cn)\<lparr>sn_stream := ByteStream_end_input (sn_stream (cn_sender cn))\<rparr>\<rparr>)"

definition TCPConnection_tick :: "tcp_connection \<Rightarrow> size_t \<Rightarrow> tcp_connection" where
  "TCPConnection_tick cn ms_since_last_tick =
     (if \<not> cn_active cn then cn
      else
        let cn = cn\<lparr>cn_time_since_last_segment_received :=
                    add64 (cn_time_since_last_segment_received cn) ms_since_last_tick,
                  cn_sender := TCPSender_tick (cn_sender cn) ms_since_last_tick\<rparr>;
            cn = (if TCPSender_consecutive_retransmissions (cn_sender cn) > TCPConfig_MAX_RETX_ATTEMPTS
                  then TCPConnection_unclean_shutdown True cn else cn)
        in TCPConnection_push_segment_out False cn)"

text \<open>
  \<open>segment_received\<close> behind the calls of the receiver and the sender: the reply.
\<close>

definition TCPConnection_reply :: "tcp_connection \<Rightarrow> tcp_segment \<Rightarrow> tcp_connection" where
  "TCPConnection_reply cn seg =
     (if th_syn (ts_header seg) \<and> TCPConnection_r_state cn = listening \<and>
         TCPConnection_s_state cn = closed
      then TCPConnection_connect cn
      else
        let cn = (if TCPSegment_length_in_sequence_space seg > 0 \<and>
                     TCPConnection_r_state cn \<noteq> listening \<and> sn_segments_out (cn_sender cn) = [] \<and>
                     \<not> (th_syn (ts_header seg) \<and> \<not> th_ack (ts_header seg) \<and>
                        TCPConnection_s_state cn = closed)
                  then cn\<lparr>cn_sender := TCPSender_send_empty_segment (cn_sender cn)\<rparr> else cn)
        in TCPConnection_push_segment_out False cn)"

definition TCPConnection_segment_received ::
  "stl_env \<Rightarrow> tcp_connection \<Rightarrow> tcp_segment \<Rightarrow> tcp_connection result" where
  "TCPConnection_segment_received env cn seg =
     (if \<not> cn_active cn then Inr cn
      else
        let cn = cn\<lparr>cn_time_since_last_segment_received := 0\<rparr>
        in if th_ack (ts_header seg) \<and> TCPConnection_s_state cn = closed then Inr cn
           else if th_rst (ts_header seg) then Inr (TCPConnection_unclean_shutdown False cn)
           else
             bindR (TCPReceiver_segment_received env (cn_receiver cn) seg)
               (\<lambda>r. let cn = cn\<lparr>cn_receiver := r\<rparr>;
                        cn = (if th_ack (ts_header seg)
                              then cn\<lparr>cn_sender := TCPSender_ack_received (cn_sender cn)
                                      (th_ackno (ts_header seg)) (th_win (ts_header seg))\<rparr>
                              else cn)
                    in Inr (TCPConnection_reply cn seg)))"

lemma connection_follows:
  "ub_or (TCPConnection_segment_received env cn seg) (TCPConnection_segment_received stl_ideal cn seg)"
  unfolding TCPConnection_segment_received_def Let_def by (intro ub_intros receiver_follows)

definition TCPConnection_destroy :: "tcp_connection \<Rightarrow> tcp_connection" where
  "TCPConnection_destroy cn =
     (if cn_active cn then TCPConnection_unclean_shutdown True cn else cn)"

section \<open>What a connection sends\<close>

text \<open>The header fields \<open>push_segment_out\<close> fills in.\<close>

definition cn_stamp :: "tcp_receiver \<Rightarrow> bool \<Rightarrow> tcp_segment \<Rightarrow> tcp_segment" where
  "cn_stamp r rst seg =
     (let head = ts_header seg;
          head = (case TCPReceiver_ackno r of None \<Rightarrow> head
            | Some ackno \<Rightarrow> head\<lparr>th_ack := True, th_ackno := ackno,
                th_win := of_nat (min (TCPReceiver_window_size r) 65535)\<rparr>)
      in seg\<lparr>ts_header := head\<lparr>th_rst := (rst \<or> th_rst head)\<rparr>\<rparr>)"

fun cn_stamps :: "tcp_receiver \<Rightarrow> bool \<Rightarrow> tcp_segment list \<Rightarrow> tcp_segment list" where
  "cn_stamps r rst [] = []"
| "cn_stamps r rst (seg # segs) = cn_stamp r rst seg # map (cn_stamp r False) segs"

lemma r_state_listening: "TCPConnection_r_state cn = listening \<longleftrightarrow> \<not> rc_syn (cn_receiver cn)"
  by (simp add: TCPConnection_r_state_def TCPReceiver_ackno_def Let_def)

lemma ackno_None: "TCPReceiver_ackno r = None \<longleftrightarrow> \<not> rc_syn r"
  by (simp add: TCPReceiver_ackno_def Let_def)

lemma push_loop_stamps:
  "TCPConnection_push_loop segs cn =
     cn\<lparr>cn_sender := (cn_sender cn)\<lparr>sn_segments_out := []\<rparr>,
        cn_send_rst := (if segs = [] then cn_send_rst cn else False),
        cn_segments_out := cn_segments_out cn @ cn_stamps (cn_receiver cn) (cn_send_rst cn) segs\<rparr>"
proof (induction segs arbitrary: cn)
  case (Cons seg segs)
  have "cn_stamps r False segs = map (cn_stamp r False) segs" for r by (cases segs) simp_all
  moreover have "\<And>h :: tcp_header. \<not> x \<Longrightarrow> h\<lparr>th_rst := (x \<or> th_rst h)\<rparr> = h" for x by simp
  ultimately show ?case
    by (cases "TCPReceiver_ackno (cn_receiver cn)")
      (auto simp: Cons.IH Let_def cn_stamp_def TCPConnection_r_state_def)
qed simp

lemma cn_stamp_frame [simp]:
  "seg_len (cn_stamp r rst seg) = seg_len seg" "seg_data (cn_stamp r rst seg) = seg_data seg"
  "th_syn (ts_header (cn_stamp r rst seg)) = th_syn (ts_header seg)"
  "th_fin (ts_header (cn_stamp r rst seg)) = th_fin (ts_header seg)"
  "th_seqno (ts_header (cn_stamp r rst seg)) = th_seqno (ts_header seg)"
  "carries D isn (cn_stamp r rst seg) k = carries D isn seg k"
  by (simp_all add: cn_stamp_def Let_def TCPSegment_length_in_sequence_space_def carries_def
      split: option.splits)

lemma cn_stamp_ack:
  "th_ack (ts_header (cn_stamp r rst seg)) \<longleftrightarrow> TCPReceiver_ackno r \<noteq> None \<or> th_ack (ts_header seg)"
  "TCPReceiver_ackno r = Some ackno \<Longrightarrow> th_ackno (ts_header (cn_stamp r rst seg)) = ackno"
  by (auto simp: cn_stamp_def Let_def split: option.splits)

section \<open>The invariant of a connection\<close>

text \<open>
  A segment of a peer that sends the bytes \<open>D\<close> from \<open>isn\<close>, and has received what its
  partner numbers from \<open>isn'\<close> up to \<open>pos\<close>: a piece of the stream, or empty, and with
  an acknowledgment that is not ahead of what was received.
\<close>

definition emitted ::
  "bytes \<Rightarrow> WrappingInt32 \<Rightarrow> WrappingInt32 \<Rightarrow> nat \<Rightarrow> tcp_segment \<Rightarrow> bool" where
  "emitted D isn isn' pos seg \<longleftrightarrow>
     (seg_len seg = 0 \<or> (\<exists>k. carries D isn seg k)) \<and>
     (th_ack (ts_header seg) \<longrightarrow> (\<exists>x \<le> pos. th_ackno (ts_header seg) = wrap_abs x isn'))"

lemma emitted_mono: "emitted D isn isn' pos seg \<Longrightarrow> pos \<le> pos' \<Longrightarrow> emitted D isn isn' pos' seg"
  by (auto simp: emitted_def dest: le_trans)

lemma emitted_stamp:
  assumes "sn_emits D isn seg" "rc_inv S isn' r"
  shows "emitted D isn isn' (rc_pos r) (cn_stamp r rst seg)"
proof -
  have "seg_len seg = 0 \<or> (\<exists>k. carries D isn seg k)"
    using assms(1) by (auto simp: sn_emits_def intro: sends_carries)
  moreover have "\<not> th_ack (ts_header seg)" using assms(1) by (auto simp: sn_emits_def sends_def)
  ultimately show ?thesis
    using rc_pos_facts(4) [OF assms(2)]
    by (auto simp: emitted_def cn_stamp_ack split: if_splits)
qed

lemma emitted_stamps:
  "\<forall>seg \<in> set segs. sn_emits D isn seg \<Longrightarrow> rc_inv S isn' r \<Longrightarrow>
   seg \<in> set (cn_stamps r rst segs) \<Longrightarrow> emitted D isn isn' (rc_pos r) seg"
  by (cases segs) (auto intro: emitted_stamp)

text \<open>
  The connection sends the bytes \<open>D\<close> and receives the bytes \<open>S\<close>, which the peer
  numbers from \<open>isn\<close>. It is active, or was reset, or everything was received and
  acknowledged.
\<close>

definition cn_inv :: "bytes \<Rightarrow> bytes \<Rightarrow> WrappingInt32 \<Rightarrow> tcp_connection \<Rightarrow> bool" where
  "cn_inv D S isn cn \<longleftrightarrow>
     sn_inv D (cn_sender cn) \<and> rc_inv S isn (cn_receiver cn) \<and>
     length D + 2 < 2 ^ 30 \<and> length S + 2 < 2 ^ 30 \<and>
     (\<forall>seg \<in> set (cn_segments_out cn).
        emitted D (sn_isn (cn_sender cn)) isn (rc_pos (cn_receiver cn)) seg) \<and>
     (cn_active cn \<or> bs_error (sn_stream (cn_sender cn)) \<or>
      sn_send_base (cn_sender cn) = length D + 2 \<and> rc_pos (cn_receiver cn) = length S + 2)"

text \<open>
  What an operation of a connection keeps: the invariant, the initial number, what was read; and
  what only grows.
\<close>

definition cn_keeps ::
  "bytes \<Rightarrow> bytes \<Rightarrow> WrappingInt32 \<Rightarrow> nat \<Rightarrow> tcp_connection \<Rightarrow> tcp_connection \<Rightarrow> bool" where
  "cn_keeps D S isn b cn cn' \<longleftrightarrow>
     cn_inv D S isn cn' \<and> sn_isn (cn_sender cn') = sn_isn (cn_sender cn) \<and>
     bs_read (rc_output (cn_receiver cn')) = bs_read (rc_output (cn_receiver cn)) \<and>
     rc_pos (cn_receiver cn) \<le> rc_pos (cn_receiver cn') \<and>
     sn_send_base (cn_sender cn) \<le> sn_send_base (cn_sender cn') \<and>
     sn_send_base (cn_sender cn') \<le> max b (sn_send_base (cn_sender cn))"

lemma cn_keeps_refl: "cn_inv D S isn cn \<Longrightarrow> cn_keeps D S isn b cn cn"
  by (simp add: cn_keeps_def)

lemma cn_keeps_trans:
  "cn_keeps D S isn b c1 c2 \<Longrightarrow> cn_keeps D S isn b c2 c3 \<Longrightarrow> cn_keeps D S isn b c1 c3"
  by (auto simp: cn_keeps_def)

lemma sender_step_keeps:
  assumes inv: "cn_inv D S isn cn" and step: "sn_step D (cn_sender cn) segs s"
    and base: "sn_send_base s \<le> max b (sn_send_base (cn_sender cn))"
  shows "cn_keeps D S isn b cn (cn\<lparr>cn_sender := s\<rparr>)"
proof -
  have sn: "sn_inv D (cn_sender cn)" using inv by (simp add: cn_inv_def)
  note k = sn_step_inv(1) [OF step sn]
  then have s: "sn_inv D s" by (simp add: sn_keeps_def)
  have "sn_send_base s \<le> length D + 2" using sn_inv_bounds(1,3) [OF s] by linarith
  with inv k base show ?thesis by (auto simp: cn_keeps_def cn_inv_def sn_keeps_def)
qed

lemma empty_segment_base [simp]: "sn_send_base (TCPSender_send_empty_segment s) = sn_send_base s"
  by (simp add: TCPSender_send_empty_segment_def Let_def)

lemma push_loop_keeps:
  assumes "cn_inv D S isn cn"
  shows "cn_keeps D S isn b cn (TCPConnection_push_loop (sn_segments_out (cn_sender cn)) cn)"
proof -
  have "\<forall>seg \<in> set (sn_segments_out (cn_sender cn)). sn_emits D (sn_isn (cn_sender cn)) seg"
    "rc_inv S isn (cn_receiver cn)"
    using assms by (auto simp: cn_inv_def sn_inv_def sn_queue_def)
  from emitted_stamps [OF this, of _ "cn_send_rst cn"] sender_step_keeps [OF assms sn_step.emit, of b] show ?thesis
    by (auto simp: push_loop_stamps cn_keeps_def cn_inv_def)
qed

lemma clean_shutdown_frame:
  "cn_sender (TCPConnection_clean_shutdown cn) = cn_sender cn"
  "cn_receiver (TCPConnection_clean_shutdown cn) = cn_receiver cn"
  "cn_segments_out (TCPConnection_clean_shutdown cn) = cn_segments_out cn"
  "cn_cfg (TCPConnection_clean_shutdown cn) = cn_cfg cn"
  "cn_send_rst (TCPConnection_clean_shutdown cn) = cn_send_rst cn"
  "cn_time_since_last_segment_received (TCPConnection_clean_shutdown cn) = cn_time_since_last_segment_received cn"
  by (simp_all add: TCPConnection_clean_shutdown_def Let_def)

lemma state_frame:
  "TCPConnection_r_state (cn\<lparr>cn_linger_after_streams_finish := l\<rparr>) = TCPConnection_r_state cn"
  "TCPConnection_s_state (cn\<lparr>cn_linger_after_streams_finish := l\<rparr>) = TCPConnection_s_state cn"
  "TCPConnection_s_state (cn\<lparr>cn_time_since_last_segment_received := t\<rparr>) = TCPConnection_s_state cn"
  by (simp_all add: TCPConnection_r_state_def TCPConnection_s_state_def TCPConnection_bytes_in_flight_def Let_def)

lemma clean_shutdown_active:
  "cn_active (TCPConnection_clean_shutdown cn) \<longleftrightarrow> cn_active cn \<and>
     \<not> (TCPConnection_r_state cn = fin_recv \<and> TCPConnection_s_state cn = fin_acked \<and>
        (\<not> cn_linger_after_streams_finish cn \<or>
         cn_time_since_last_segment_received cn \<ge> 10 * unat (cfg_rt_timeout (cn_cfg cn))))"
  by (auto simp: TCPConnection_clean_shutdown_def Let_def state_frame)

lemma sn_finished:
  assumes "sn_inv D s"
  shows "sn_next_seqno s = length D + 2 \<longleftrightarrow> sn_fin_flag s"
    and "sn_fin_flag s \<Longrightarrow> ByteStream_eof (sn_stream s)"
    and "ByteStream_eof (sn_stream s) \<Longrightarrow> bs_written (sn_stream s) = length D"
  using assms sn_inv_bounds(5,6) [OF assms]
  by (auto simp: sn_inv_def sn_data_def ByteStream_accessors of_bool_def split: if_splits)

lemma s_state_exact:
  assumes inv: "sn_inv D (cn_sender cn)"
  shows "TCPConnection_s_state cn =
    (if sn_next_seqno (cn_sender cn) = 0 then closed
     else if sn_send_base (cn_sender cn) = 0 then syn_sent
     else if sn_next_seqno (cn_sender cn) < length D + 2 then syn_acked
     else if sn_send_base (cn_sender cn) < sn_next_seqno (cn_sender cn) then fin_sent else fin_acked)"
proof -
  let ?s = "cn_sender cn"
  note b = sn_inv_bounds [OF inv] and f = sn_finished [OF inv]
  have "length D < 2 ^ 63" using inv by (simp add: sn_inv_def sn_data_def)
  then have w: "add64 (bs_written (sn_stream ?s)) 2 = bs_written (sn_stream ?s) + 2"
    using b(6) by (simp add: add64_exact)
  have flight: "sn_next_seqno ?s = TCPSender_bytes_in_flight ?s \<longleftrightarrow>
      sn_next_seqno ?s = 0 \<or> sn_send_base ?s = 0" using b(3,4) by auto
  show ?thesis
    using b(1,3,4) f w flight
    by (auto simp: TCPConnection_s_state_def TCPConnection_bytes_in_flight_def Let_def
        ByteStream_bytes_written_def)
qed

lemma fin_acked_iff:
  assumes "sn_inv D (cn_sender cn)"
  shows "TCPConnection_s_state cn = fin_acked \<longleftrightarrow> sn_send_base (cn_sender cn) = length D + 2"
  using sn_inv_bounds(1,3) [OF assms] by (auto simp: s_state_exact [OF assms])

lemma fin_recv_iff:
  assumes "rc_inv S isn (cn_receiver cn)"
  shows "TCPConnection_r_state cn = fin_recv \<longleftrightarrow> rc_pos (cn_receiver cn) = length S + 2"
  using rc_pos_facts(3) [OF assms] 
  by (simp add: TCPConnection_r_state_def ackno_None TCPReceiver_accessors)

lemma clean_shutdown_keeps:
  assumes "cn_inv D S isn cn"
  shows "cn_keeps D S isn b cn (TCPConnection_clean_shutdown cn)"
proof -
  have "sn_inv D (cn_sender cn)" "rc_inv S isn (cn_receiver cn)" using assms by (auto simp: cn_inv_def)
  with assms show ?thesis
    using fin_acked_iff [of D cn] fin_recv_iff [of S isn cn]
    by (auto simp: cn_keeps_def cn_inv_def clean_shutdown_frame clean_shutdown_active)
qed

lemma push_keeps:
  assumes "cn_inv D S isn cn"
  shows "cn_keeps D S isn b cn (TCPConnection_push_segment_out send_syn cn)"
proof -
  let ?c = "if send_syn \<or> TCPConnection_s_state cn \<noteq> closed \<or> TCPConnection_r_state cn \<noteq> listening
    then cn\<lparr>cn_sender := TCPSender_fill_window (cn_sender cn)\<rparr> else cn"
  have 1: "cn_keeps D S isn b cn ?c"
    using sender_step_keeps [OF assms sn_step.fill, of b] fill_window_sent(1) [of D "cn_sender cn"] assms
      cn_keeps_refl [OF assms] by (simp add: sn_sent_def cn_inv_def)
  have 2: "cn_keeps D S isn b ?c (TCPConnection_push_loop (sn_segments_out (cn_sender ?c)) ?c)"
    by (rule push_loop_keeps) (use 1 in \<open>simp add: cn_keeps_def\<close>)
  have 3: "cn_keeps D S isn b (TCPConnection_push_loop (sn_segments_out (cn_sender ?c)) ?c)
      (TCPConnection_clean_shutdown (TCPConnection_push_loop (sn_segments_out (cn_sender ?c)) ?c))"
    by (rule clean_shutdown_keeps) (use 2 in \<open>simp add: cn_keeps_def\<close>)
  show ?thesis
    unfolding TCPConnection_push_segment_out_def Let_def
    by (rule cn_keeps_trans [OF cn_keeps_trans [OF 1 2] 3])
qed

lemma set_error_frame [simp]:
  "out_ok S (ByteStream_set_error st) = out_ok S st" "bs_buf (ByteStream_set_error st) = bs_buf st"
  "bs_read (ByteStream_set_error st) = bs_read st" "bs_written (ByteStream_set_error st) = bs_written st"
  "bs_cap (ByteStream_set_error st) = bs_cap st" "bs_eof (ByteStream_set_error st) = bs_eof st"
  "bs_error (ByteStream_set_error st)"
  by (simp_all add: ByteStream_set_error_def out_ok_def bs_inv_def)

lemma set_error_rc_inv: "rc_inv S isn r \<Longrightarrow> rc_inv S isn (TCPReceiver_set_error r)"
proof -
  have "sr_inv S (ra\<lparr>sr_output := ByteStream_set_error (sr_output ra)\<rparr>) = sr_inv S ra" for ra
    by (simp add: sr_inv_def)
  then show "rc_inv S isn r \<Longrightarrow> rc_inv S isn (TCPReceiver_set_error r)"
    by (auto simp: TCPReceiver_set_error_def rc_inv_def sr_ok_def split: if_splits)
qed

lemma set_error_sn_inv:
  assumes "sn_inv D s"
  shows "sn_inv D (s\<lparr>sn_stream := ByteStream_set_error (sn_stream s)\<rparr>)"
  using assms by (intro sn_stream_inv) (simp_all add: sn_inv_def sn_data_def)

lemma unclean_shutdown_keeps:
  assumes "cn_inv D S isn cn"
  shows "cn_keeps D S isn b cn (TCPConnection_unclean_shutdown send_rst cn)"
proof -
  let ?c = "cn\<lparr>cn_sender := (cn_sender cn)\<lparr>sn_stream := ByteStream_set_error (sn_stream (cn_sender cn))\<rparr>,
    cn_receiver := TCPReceiver_set_error (cn_receiver cn), cn_active := False\<rparr>"
  have pos: "rc_pos (TCPReceiver_set_error r) = rc_pos r" for r
    by (simp add: rc_pos_def TCPReceiver_set_error_def)
  have c: "cn_inv D S isn ?c" "cn_inv D S isn (?c\<lparr>cn_send_rst := True\<rparr>)"
    using assms set_error_rc_inv set_error_sn_inv by (simp_all add: cn_inv_def pos)
  then have k: "cn_keeps D S isn b cn ?c" "cn_keeps D S isn b cn (?c\<lparr>cn_send_rst := True\<rparr>)"
    by (simp_all add: cn_keeps_def pos) (simp_all add: TCPReceiver_set_error_def)
  let ?d = "if sn_segments_out (cn_sender (?c\<lparr>cn_send_rst := True\<rparr>)) = []
    then ?c\<lparr>cn_send_rst := True, cn_sender := TCPSender_send_empty_segment (cn_sender (?c\<lparr>cn_send_rst := True\<rparr>))\<rparr>
    else ?c\<lparr>cn_send_rst := True\<rparr>"
  have d: "cn_keeps D S isn b cn ?d"
    using cn_keeps_trans [OF k(2) sender_step_keeps [OF c(2) sn_step.empty]] k(2) by simp
  have p: "cn_keeps D S isn b ?d (TCPConnection_push_segment_out False ?d)"
    by (rule push_keeps) (use d in \<open>simp add: cn_keeps_def\<close>)
  show ?thesis
    unfolding TCPConnection_unclean_shutdown_def Let_def
    using cn_keeps_trans [OF d p] k(1) by (cases send_rst) simp_all
qed

lemma cn_inv_near: "cn_inv D S isn cn \<Longrightarrow> sn_near (cn_sender cn)"
  using sn_inv_bounds(1) [of D "cn_sender cn"] by (simp add: cn_inv_def)

lemma receiver_ignores_empty:
  "seg_len seg = 0 \<Longrightarrow> TCPReceiver_segment_received env r seg = Inr r"
  by (auto simp: TCPReceiver_segment_received_def TCPReceiver_accept_def Let_def
      TCPSegment_length_in_sequence_space_def split: if_splits)

lemma receiver_keeps:
  assumes "rc_inv S isn r" "length S + 2 < 2 ^ 30" "seg_len seg = 0 \<or> (\<exists>k. carries S isn seg k)"
  shows "\<exists>r'. TCPReceiver_segment_received stl_ideal r seg = Inr r' \<and> rc_inv S isn r' \<and>
    bs_read (rc_output r') = bs_read (rc_output r) \<and> rc_pos r \<le> rc_pos r'"
proof (cases "seg_len seg = 0")
  case True
  then show ?thesis using receiver_ignores_empty assms(1) by auto
next
  case False
  then obtain k where k: "carries S isn seg k" using assms(3) by auto
  obtain r' new where r': "TCPReceiver_segment_received stl_ideal r seg = Inr r'" "rc_step S isn r new r'"
    "rc_syn r \<longrightarrow> rc_syn r'" "rc_fin r \<longrightarrow> rc_fin r'"
    using TCPReceiver_segment_received_ok [OF assms(1) k] carries_near [OF k assms(1)] assms(2) by auto
  from rc_pos_mono [OF assms(1) r'(2-4)] r' show ?thesis by (auto simp: rc_step_def)
qed

lemma reply_keeps:
  assumes "cn_inv D S isn cn"
  shows "cn_keeps D S isn b cn (TCPConnection_reply cn seg)"
proof -
  have e: "cn_keeps D S isn b cn (cn\<lparr>cn_sender := TCPSender_send_empty_segment (cn_sender cn)\<rparr>)"
    by (rule sender_step_keeps [OF assms sn_step.empty]) simp
  then have "cn_inv D S isn (cn\<lparr>cn_sender := TCPSender_send_empty_segment (cn_sender cn)\<rparr>)"
    by (simp add: cn_keeps_def)
  from cn_keeps_trans [OF e push_keeps [OF this]] push_keeps [OF assms] show ?thesis
    by (simp add: TCPConnection_reply_def TCPConnection_connect_def Let_def)
qed

lemma honest_ack:
  assumes inv: "cn_inv D S isn cn" and x: "x \<le> pos" "pos \<le> length D + 2"
  shows "sn_send_base (TCPSender_ack_received (cn_sender cn) (wrap_abs x (sn_isn (cn_sender cn))) w)
    \<le> max pos (sn_send_base (cn_sender cn))"
proof -
  have s: "sn_inv D (cn_sender cn)" "length D + 2 < 2 ^ 30" using inv by (auto simp: cn_inv_def)
  have "sn_send_base (cn_sender cn) \<le> length D + 2" using sn_inv_bounds(1,3) [OF s(1)] by linarith
  then have "unwrap_abs (wrap_abs x (sn_isn (cn_sender cn))) (sn_isn (cn_sender cn))
      (sn_send_base (cn_sender cn)) = x"
    using x s(2) by (intro seqno.dec_enc) simp_all
  then show ?thesis
    using x ack_received_keeps(2) [OF s(1) cn_inv_near [OF inv]] by (simp add: Let_def)
qed

lemma segment_received_keeps:
  assumes inv: "cn_inv D S isn cn"
    and seg: "emitted S isn (sn_isn (cn_sender cn)) pos seg" "pos \<le> length D + 2"
  shows "\<exists>cn'. TCPConnection_segment_received stl_ideal cn seg = Inr cn' \<and> cn_keeps D S isn pos cn cn'"
proof -
  let ?c = "cn\<lparr>cn_time_since_last_segment_received := 0\<rparr>"
  have c: "cn_inv D S isn ?c" "\<And>x. cn_keeps D S isn pos ?c x \<longleftrightarrow> cn_keeps D S isn pos cn x"
    using inv by (simp_all add: cn_inv_def cn_keeps_def)
  obtain r where r: "TCPReceiver_segment_received stl_ideal (cn_receiver cn) seg = Inr r" "rc_inv S isn r"
    "bs_read (rc_output r) = bs_read (rc_output (cn_receiver cn))" "rc_pos (cn_receiver cn) \<le> rc_pos r"
    using receiver_keeps [of S isn "cn_receiver cn" seg] inv seg by (auto simp: cn_inv_def emitted_def)
  let ?d = "?c\<lparr>cn_receiver := r\<rparr>"
  let ?e = "if th_ack (ts_header seg) then ?d\<lparr>cn_sender := TCPSender_ack_received (cn_sender ?d)
      (th_ackno (ts_header seg)) (th_win (ts_header seg))\<rparr> else ?d"
  have "cn_inv D S isn ?d"
    using inv r rc_pos_facts(2) [OF r(2)] by (auto simp: cn_inv_def intro: emitted_mono [OF _ r(4)])
  then have d: "cn_inv D S isn ?d" "cn_keeps D S isn pos ?c ?d" using r by (simp_all add: cn_keeps_def)
  have base: "th_ack (ts_header seg) \<Longrightarrow> sn_send_base (TCPSender_ack_received (cn_sender cn)
      (th_ackno (ts_header seg)) w) \<le> max pos (sn_send_base (cn_sender cn))" for w
    using honest_ack [OF inv _ seg(2)] seg(1) by (auto simp: emitted_def)
  have e: "cn_keeps D S isn pos ?d ?e"
    using sender_step_keeps [OF d(1) sn_step.ack [OF cn_inv_near [OF d(1)]], of _ _ pos] base
      cn_keeps_refl [OF d(1)] by simp
  have rep: "cn_keeps D S isn pos ?e (TCPConnection_reply ?e seg)"
    by (rule reply_keeps) (use e in \<open>simp add: cn_keeps_def\<close>)
  have "cn_keeps D S isn pos cn (TCPConnection_reply ?e seg)"
    using cn_keeps_trans [OF cn_keeps_trans [OF d(2) e] rep] c(2) by simp
  with r(1) unclean_shutdown_keeps [OF c(1), of pos False] cn_keeps_refl [OF c(1), where b = pos]
    cn_keeps_refl [OF inv, where b = pos] c(2)
  show ?thesis unfolding TCPConnection_segment_received_def Let_def by simp
qed

lemma write_keeps:
  assumes inv: "cn_inv D S isn cn" and w: "ByteStream_write (sn_stream (cn_sender cn)) data = (st, n)"
    and ex: "excerpt D (bs_written (sn_stream (cn_sender cn))) (take n data)"
  shows "cn_keeps D S isn b cn (fst (TCPConnection_write cn data))"
proof -
  have 1: "cn_keeps D S isn b cn (cn\<lparr>cn_sender := (cn_sender cn)\<lparr>sn_stream := st\<rparr>\<rparr>)"
    by (rule sender_step_keeps [OF inv sn_step.write_data [OF w ex]]) simp
  then have "cn_inv D S isn (cn\<lparr>cn_sender := (cn_sender cn)\<lparr>sn_stream := st\<rparr>\<rparr>)"
    by (simp add: cn_keeps_def)
  from cn_keeps_trans [OF 1 push_keeps [OF this]] w show ?thesis
    by (simp add: TCPConnection_write_def)
qed

lemma end_input_keeps:
  assumes inv: "cn_inv D S isn cn" and w: "bs_written (sn_stream (cn_sender cn)) = length D"
  shows "cn_keeps D S isn b cn (TCPConnection_end_input_stream cn)"
proof -
  have 1: "cn_keeps D S isn b cn
      (cn\<lparr>cn_sender := (cn_sender cn)\<lparr>sn_stream := ByteStream_end_input (sn_stream (cn_sender cn))\<rparr>\<rparr>)"
    by (rule sender_step_keeps [OF inv sn_step.end_data [OF w]]) simp
  then have "cn_inv D S isn
      (cn\<lparr>cn_sender := (cn_sender cn)\<lparr>sn_stream := ByteStream_end_input (sn_stream (cn_sender cn))\<rparr>\<rparr>)"
    by (simp add: cn_keeps_def)
  from cn_keeps_trans [OF 1 push_keeps [OF this]] show ?thesis
    by (simp add: TCPConnection_end_input_stream_def)
qed

lemma tick_keeps:
  assumes inv: "cn_inv D S isn cn"
  shows "cn_keeps D S isn b cn (TCPConnection_tick cn ms)"
proof -
  let ?t = "cn\<lparr>cn_time_since_last_segment_received := add64 (cn_time_since_last_segment_received cn) ms\<rparr>"
  let ?c = "?t\<lparr>cn_sender := TCPSender_tick (cn_sender cn) ms\<rparr>"
  have "cn_inv D S isn ?t" using inv by (simp add: cn_inv_def)
  from sender_step_keeps [OF this sn_step.tick, of ms b]
  have c: "cn_keeps D S isn b cn ?c" by (simp add: cn_keeps_def TCPSender_tick_def Let_def)
  let ?d = "if TCPSender_consecutive_retransmissions (cn_sender ?c) > TCPConfig_MAX_RETX_ATTEMPTS
    then TCPConnection_unclean_shutdown True ?c else ?c"
  have d: "cn_keeps D S isn b cn ?d"
    using cn_keeps_trans [OF c unclean_shutdown_keeps] c by (simp add: cn_keeps_def)
  have "cn_keeps D S isn b ?d (TCPConnection_push_segment_out False ?d)"
    by (rule push_keeps) (use d in \<open>simp add: cn_keeps_def\<close>)
  from cn_keeps_trans [OF d this] cn_keeps_refl [OF inv] show ?thesis
    unfolding TCPConnection_tick_def Let_def by simp
qed

section \<open>The handshake\<close>

definition cn_drain :: "tcp_connection \<Rightarrow> tcp_connection" where
  "cn_drain cn = cn\<lparr>cn_segments_out := []\<rparr>"

text \<open>Three segments, each delivered as soon as it is sent.\<close>

definition handshake ::
  "stl_env \<Rightarrow> tcp_connection \<Rightarrow> tcp_connection \<Rightarrow> (tcp_connection \<times> tcp_connection) result" where
  "handshake env a b =
     (let a1 = TCPConnection_connect a
      in bindR (TCPConnection_segment_received env b (hd (cn_segments_out a1)))
           (\<lambda>b1. bindR (TCPConnection_segment_received env (cn_drain a1) (hd (cn_segments_out b1)))
             (\<lambda>a2. bindR (TCPConnection_segment_received env (cn_drain b1) (hd (cn_segments_out a2)))
               (\<lambda>b2. Inr (cn_drain a2, b2)))))"

abbreviation syn_of :: "WrappingInt32 \<Rightarrow> tcp_segment" where
  "syn_of isn \<equiv> \<lparr>ts_header = TCPHeader_default\<lparr>th_seqno := isn, th_syn := True\<rparr>, ts_payload = Buffer_default\<rparr>"

definition sender_syn_sent :: "WrappingInt32 \<Rightarrow> tcp_config \<Rightarrow> tcp_sender" where
  "sender_syn_sent isn cfg =
     (TCPSender_new isn (cfg_send_capacity cfg) (cfg_rt_timeout cfg) (Some isn))\<lparr>sn_next_seqno := 1,
        sn_timer := \<lparr>tm_running = True, tm_total_time = 0, tm_rt_timeout = unat (cfg_rt_timeout cfg)\<rparr>,
        sn_syn_flag := True, sn_copy_segments_out := [syn_of isn]\<rparr>"

definition receiver_syn_received :: "WrappingInt32 \<Rightarrow> tcp_config \<Rightarrow> tcp_receiver" where
  "receiver_syn_received isn cfg =
     (TCPReceiver_new (cfg_recv_capacity cfg))\<lparr>rc_isn := isn, rc_syn := True, rc_recv_base := 1\<rparr>"

definition cfg_isn :: "WrappingInt32 \<Rightarrow> tcp_config \<Rightarrow> WrappingInt32" where
  "cfg_isn random cfg = (case cfg_fixed_isn cfg of Some isn \<Rightarrow> isn | None \<Rightarrow> random)"

lemma sn_isn_new [simp]: "sn_isn (TCPSender_new random c rt isn) = (case isn of Some isn \<Rightarrow> isn | None \<Rightarrow> random)"
  by (simp add: TCPSender_new_def)

lemma fill_window_new:
  "TCPSender_fill_window (cn_sender (TCPConnection_new random cfg)) =
     (sender_syn_sent (cfg_isn random cfg) cfg)\<lparr>sn_segments_out := [syn_of (cfg_isn random cfg)]\<rparr>"
  by (simp add: TCPConnection_new_def TCPSender_new_def TCPSender_fill_window_def sender_syn_sent_def cfg_isn_def
      TCPSender_send_segment_def Timer_defs TCPSegment_default_def TCPHeader_default_def
      TCPSegment_length_in_sequence_space_def wrap_abs_zero add64_def Let_def)

lemma clean_shutdown_noop: "TCPConnection_r_state cn \<noteq> fin_recv \<Longrightarrow> TCPConnection_clean_shutdown cn = cn"
  by (simp add: TCPConnection_clean_shutdown_def)

lemma fresh_receiver [simp]:
  "TCPReceiver_ackno (TCPReceiver_new c) = None"
  "TCPReceiver_ackno (receiver_syn_received isn cfg) = Some (wrap_abs 1 isn)"
  "\<not> ByteStream_input_ended (TCPReceiver_stream_out (receiver_syn_received isn cfg))"
  "\<not> bs_error (TCPReceiver_stream_out (receiver_syn_received isn cfg))"
  by (simp_all add: TCPReceiver_ackno_def TCPReceiver_new_def receiver_syn_received_def Let_def
      TCPReceiver_accessors StreamReassembler_new_def ByteStream_new_def add64_def)

lemma r_state_values:
  "cn_receiver cn = TCPReceiver_new c \<Longrightarrow> TCPConnection_r_state cn = listening"
  "cn_receiver cn = receiver_syn_received isn cfg \<Longrightarrow> TCPConnection_r_state cn = syn_received"
  by (simp_all add: TCPConnection_r_state_def)

lemma s_state_values:
  "cn_sender cn = TCPSender_new random c rt fixed \<Longrightarrow> TCPConnection_s_state cn = closed"
  "cn_sender cn = sender_syn_sent isn cfg \<Longrightarrow> TCPConnection_s_state cn = syn_sent"
  by (simp_all add: TCPConnection_s_state_def TCPSender_new_def sender_syn_sent_def
      TCPConnection_bytes_in_flight_def TCPSender_bytes_in_flight_def Let_def sub64_def)

lemma connect_new:
  "TCPConnection_connect (TCPConnection_new random cfg) =
     (TCPConnection_new random cfg)\<lparr>cn_sender := sender_syn_sent (cfg_isn random cfg) cfg,
        cn_segments_out := [syn_of (cfg_isn random cfg)]\<rparr>"
  unfolding TCPConnection_connect_def TCPConnection_push_segment_out_def Let_def push_loop_stamps fill_window_new
  by (simp add: fill_window_new cn_stamp_def TCPConnection_new_def clean_shutdown_noop r_state_values
     TCPHeader_default_def) (simp add: sender_syn_sent_def TCPSender_new_def)

definition win_of :: "tcp_config \<Rightarrow> uint16" where
  "win_of cfg = of_nat (min (TCPReceiver_window_size (TCPReceiver_new (cfg_recv_capacity cfg))) 65535)"

abbreviation syn_ack_of :: "WrappingInt32 \<Rightarrow> WrappingInt32 \<Rightarrow> tcp_config \<Rightarrow> tcp_segment" where
  "syn_ack_of isn peer cfg \<equiv> \<lparr>ts_header = TCPHeader_default\<lparr>th_seqno := isn, th_syn := True, th_ack := True,
     th_ackno := wrap_abs 1 peer, th_win := win_of cfg\<rparr>, ts_payload = Buffer_default\<rparr>"

lemma receive_syn_new:
  assumes "ts_header seg = h" "th_syn h" "seg_len seg = 1" 
  shows "TCPReceiver_segment_received env (TCPReceiver_new (cfg_recv_capacity cfg)) seg = 
    Inr (receiver_syn_received (th_seqno h) cfg)"
  using assms by (simp add: TCPReceiver_segment_received_def Let_def TCPReceiver_new_def receiver_syn_received_def)

lemma syn_len: "seg_len (syn_of isn) = 1" "seg_len (syn_ack_of isn peer cfg) = 1"
  by (simp_all add: TCPSegment_length_in_sequence_space_def TCPHeader_default_def)

lemma window_syn_received: 
  "TCPReceiver_window_size (receiver_syn_received isn cfg) = TCPReceiver_window_size (TCPReceiver_new (cfg_recv_capacity cfg))"
  by (simp add: TCPReceiver_window_size_def receiver_syn_received_def TCPReceiver_accessors TCPReceiver_new_def)

lemma stamp_syn_received:
  "\<not> th_rst (ts_header seg) \<Longrightarrow> cn_stamp (receiver_syn_received peer cfg) False seg =
     seg\<lparr>ts_header := (ts_header seg)\<lparr>th_ack := True, th_ackno := wrap_abs 1 peer, th_win := win_of cfg,
       th_rst := False\<rparr>\<rparr>"
  by (simp add: cn_stamp_def window_syn_received win_of_def)

lemma accept_syn:
  "TCPConnection_segment_received env (TCPConnection_new random cfg) (syn_of peer) =
     Inr ((TCPConnection_new random cfg)\<lparr>cn_receiver := receiver_syn_received peer cfg,
        cn_sender := sender_syn_sent (cfg_isn random cfg) cfg,
        cn_segments_out := [syn_ack_of (cfg_isn random cfg) peer cfg]\<rparr>)"
proof -
  let ?c = "(TCPConnection_new random cfg)\<lparr>cn_receiver := receiver_syn_received peer cfg\<rparr>"
  have "TCPReceiver_segment_received env (TCPReceiver_new (cfg_recv_capacity cfg)) (syn_of peer) =
      Inr (receiver_syn_received peer cfg)"
    using receive_syn_new [of "syn_of peer" _ env cfg, OF refl] syn_len by (simp add: TCPHeader_default_def)
  then have "TCPConnection_segment_received env (TCPConnection_new random cfg) (syn_of peer) =
      Inr (TCPConnection_reply ?c (syn_of peer))"
    by (simp add: TCPConnection_segment_received_def TCPConnection_new_def TCPHeader_default_def)
  also have "TCPConnection_reply ?c (syn_of peer) = TCPConnection_push_segment_out False ?c"
    using s_state_values(1) [of ?c] by (simp add: TCPConnection_reply_def TCPConnection_new_def Let_def r_state_values TCPHeader_default_def)
  also have "\<dots> = ?c\<lparr>cn_sender := sender_syn_sent (cfg_isn random cfg) cfg,
        cn_segments_out := [syn_ack_of (cfg_isn random cfg) peer cfg]\<rparr>"
    unfolding TCPConnection_push_segment_out_def Let_def push_loop_stamps
    by (simp add: r_state_values fill_window_new stamp_syn_received clean_shutdown_noop TCPHeader_default_def)
     (simp add: TCPConnection_new_def sender_syn_sent_def TCPSender_new_def stamp_syn_received)
  finally show ?thesis by simp
qed

definition sender_established :: "WrappingInt32 \<Rightarrow> tcp_config \<Rightarrow> uint16 \<Rightarrow> tcp_sender" where
  "sender_established isn cfg w =
     (TCPSender_new isn (cfg_send_capacity cfg) (cfg_rt_timeout cfg) (Some isn))\<lparr>sn_next_seqno := 1,
        sn_send_base := 1, sn_timer := \<lparr>tm_running = False, tm_total_time = 0, tm_rt_timeout = 0\<rparr>,
        sn_syn_flag := True, sn_window_size := (if w = 0 then 1 else unat w), sn_window_size_zero := (w = 0)\<rparr>"

lemma ack_syn: "TCPSender_ack_received (sender_syn_sent isn cfg) (wrap_abs 1 isn) w = sender_established isn cfg w"
proof -
  have "unwrap_abs (wrap_abs 1 isn) isn 0 = 1" by (rule seqno.dec_enc) simp_all
  moreover have "unwrap_abs isn isn 1 = 0"
    using seqno.dec_enc [of 0 1 isn] by (simp add: wrap_abs_zero)
  ultimately show ?thesis
    by (cases "w = 0") (simp_all add: sender_syn_sent_def sender_established_def TCPSender_new_def TCPSender_ack_received_def Let_def
        TCPSender_acknowledged_def TCPSegment_length_in_sequence_space_def TCPHeader_default_def
        TCPSender_fill_window_def ByteStream_accessors ByteStream_new_def Timer_defs add64_def)
qed

lemma fill_established [simp]:
  "TCPSender_fill_window ((sender_established isn cfg w)\<lparr>sn_segments_out := q\<rparr>) =
     (sender_established isn cfg w)\<lparr>sn_segments_out := q\<rparr>"
  "TCPSender_fill_window (sender_established isn cfg w) = sender_established isn cfg w"
  by (simp_all add: TCPSender_fill_window_def sender_established_def TCPSender_new_def
      ByteStream_accessors ByteStream_new_def)

abbreviation ack_of :: "WrappingInt32 \<Rightarrow> WrappingInt32 \<Rightarrow> tcp_config \<Rightarrow> tcp_segment" where
  "ack_of isn peer cfg \<equiv> \<lparr>ts_header = TCPHeader_default\<lparr>th_seqno := wrap_abs 1 isn, th_ack := True,
     th_ackno := wrap_abs 1 peer, th_win := win_of cfg\<rparr>, ts_payload = Buffer_default\<rparr>"

lemma send_empty_established:
  "TCPSender_send_empty_segment (sender_established isn cfg w) = (sender_established isn cfg w)\<lparr>sn_segments_out :=
     [\<lparr>ts_header = TCPHeader_default\<lparr>th_seqno := wrap_abs 1 isn\<rparr>, ts_payload = Buffer_default\<rparr>]\<rparr>"
  "(sender_established isn cfg w)\<lparr>sn_segments_out := []\<rparr> = sender_established isn cfg w"
  by (simp_all add: TCPSender_send_empty_segment_def sender_established_def TCPSender_new_def)

lemma accept_syn_ack:
  assumes cn: "cn = (TCPConnection_new random cfg)\<lparr>cn_sender := sender_syn_sent isn cfg\<rparr>"
  shows "TCPConnection_segment_received env cn (syn_ack_of peer isn pc) =
     Inr (cn\<lparr>cn_receiver := receiver_syn_received peer cfg, cn_sender := sender_established isn cfg (win_of pc),
        cn_segments_out := [ack_of isn peer cfg]\<rparr>)"
proof -
  let ?seg = "syn_ack_of peer isn pc"
  let ?c = "cn\<lparr>cn_receiver := receiver_syn_received peer cfg, cn_sender := sender_established isn cfg (win_of pc)\<rparr>"
  have "TCPReceiver_segment_received env (TCPReceiver_new (cfg_recv_capacity cfg)) ?seg =
      Inr (receiver_syn_received peer cfg)"
    using receive_syn_new [of ?seg _ env cfg, OF refl] syn_len by (simp add: TCPHeader_default_def)
  then have "TCPConnection_segment_received env cn ?seg = Inr (TCPConnection_reply ?c ?seg)"
    using s_state_values(2) [of cn isn cfg] ack_syn [of isn cfg "win_of pc"]
    by (simp add: TCPConnection_segment_received_def cn)
      (simp add: TCPConnection_new_def TCPHeader_default_def s_state_values)
  also have "TCPConnection_reply ?c ?seg = TCPConnection_push_segment_out False
      (?c\<lparr>cn_sender := TCPSender_send_empty_segment (sender_established isn cfg (win_of pc))\<rparr>)"
    by (simp add: TCPConnection_reply_def Let_def r_state_values TCPHeader_default_def
       TCPSegment_length_in_sequence_space_def sender_established_def TCPSender_new_def)
  also have "\<dots> = ?c\<lparr>cn_segments_out := [ack_of isn peer cfg]\<rparr>"
    unfolding TCPConnection_push_segment_out_def Let_def push_loop_stamps
    by (simp add: r_state_values clean_shutdown_noop send_empty_established stamp_syn_received)
      (simp add: cn TCPConnection_new_def TCPHeader_default_def stamp_syn_received)
  finally show ?thesis by simp
qed

lemma accept_ack:
  assumes cn: "cn = (TCPConnection_new random cfg)\<lparr>cn_receiver := receiver_syn_received peer cfg, cn_sender := sender_syn_sent isn cfg\<rparr>"
  shows "TCPConnection_segment_received env cn (ack_of peer isn pc) =
     Inr (cn\<lparr>cn_sender := sender_established isn cfg (win_of pc)\<rparr>)"
proof -
  let ?seg = "ack_of peer isn pc"
  let ?c = "cn\<lparr>cn_sender := sender_established isn cfg (win_of pc)\<rparr>"
  have len: "seg_len ?seg = 0" by (simp add: TCPSegment_length_in_sequence_space_def TCPHeader_default_def)
  have "TCPConnection_segment_received env cn ?seg = Inr (TCPConnection_reply ?c ?seg)"
    using s_state_values(2) [of cn isn cfg] ack_syn [of isn cfg "win_of pc"] receiver_ignores_empty [OF len]
    by (simp add: TCPConnection_segment_received_def cn)
      (simp add: TCPConnection_new_def TCPHeader_default_def s_state_values)
  also have "TCPConnection_reply ?c ?seg = TCPConnection_push_segment_out False ?c"
    using len by (simp add: TCPConnection_reply_def Let_def cn TCPHeader_default_def)
  also have "\<dots> = ?c"
    unfolding TCPConnection_push_segment_out_def Let_def push_loop_stamps
    by (simp add: r_state_values cn_stamp_def clean_shutdown_noop cn)
      (simp add: TCPConnection_new_def TCPHeader_default_def sender_established_def TCPSender_new_def)
  finally show ?thesis by simp
qed

section \<open>Replies\<close>

lemma push_fields:
  "cn_receiver (TCPConnection_push_segment_out b cn) = cn_receiver cn"
  "cn_active (TCPConnection_push_segment_out b cn) \<Longrightarrow> cn_active cn"
  "sn_inv D (cn_sender cn) \<Longrightarrow> sn_inv D (cn_sender (TCPConnection_push_segment_out b cn)) \<and>
     bs_error (sn_stream (cn_sender (TCPConnection_push_segment_out b cn))) = bs_error (sn_stream (cn_sender cn))"
proof -
  let ?c = "if b \<or> TCPConnection_s_state cn \<noteq> closed \<or> TCPConnection_r_state cn \<noteq> listening
    then cn\<lparr>cn_sender := TCPSender_fill_window (cn_sender cn)\<rparr> else cn"
  have p: "TCPConnection_push_segment_out b cn =
      TCPConnection_clean_shutdown (TCPConnection_push_loop (sn_segments_out (cn_sender ?c)) ?c)"
    by (simp add: TCPConnection_push_segment_out_def Let_def)
  show "cn_receiver (TCPConnection_push_segment_out b cn) = cn_receiver cn"
    by (simp add: p clean_shutdown_frame push_loop_stamps)
  show "cn_active (TCPConnection_push_segment_out b cn) \<Longrightarrow> cn_active cn"
    by (simp add: p clean_shutdown_active push_loop_stamps split: if_splits)
  assume inv: "sn_inv D (cn_sender cn)"
  have c: "sn_inv D (cn_sender ?c)" "bs_error (sn_stream (cn_sender ?c)) = bs_error (sn_stream (cn_sender cn))"
    using fill_window_sent(1) [OF inv] inv by (auto simp: sn_sent_def)
  then have "sn_keeps D (cn_sender ?c) ((cn_sender ?c)\<lparr>sn_segments_out := []\<rparr>)"
    using sn_step_inv(1) [OF sn_step.emit] by blast
  then show "sn_inv D (cn_sender (TCPConnection_push_segment_out b cn)) \<and>
     bs_error (sn_stream (cn_sender (TCPConnection_push_segment_out b cn))) = bs_error (sn_stream (cn_sender cn))"
    using c by (simp add: p clean_shutdown_frame push_loop_stamps sn_keeps_def)
qed

text \<open>What \<open>push_segment_out\<close> emits: the sender's queue, stamped.\<close>

lemma push_emits:
  assumes inv: "sn_inv D (cn_sender cn)"
  shows "\<exists>new. cn_segments_out (TCPConnection_push_segment_out b cn) =
      cn_segments_out cn @ cn_stamps (cn_receiver cn) (cn_send_rst cn) (sn_segments_out (cn_sender cn) @ new)
    \<and> (sn_next_seqno (cn_sender cn) = 0 \<and> rc_syn (cn_receiver cn) \<longrightarrow> new \<noteq> [])"
proof -
  let ?s = "TCPSender_fill_window (cn_sender cn)"
  obtain new where new: "sn_segments_out ?s = sn_segments_out (cn_sender cn) @ new"
    "tiles D (sn_isn (cn_sender cn)) (sn_next_seqno (cn_sender cn)) new (sn_next_seqno ?s)"
    and next': "\<not> sn_syn_flag (cn_sender cn) \<longrightarrow> sn_next_seqno ?s = sn_next_seqno (cn_sender cn) + 1"
    using fill_window_sent(1) [OF inv] by (auto simp: sn_sent_def)
  have "sn_next_seqno (cn_sender cn) = 0 \<Longrightarrow> \<not> sn_syn_flag (cn_sender cn)"
    using inv by (auto simp: sn_inv_def sn_data_def of_bool_def split: if_splits)
  with new(2) next' have ne: "sn_next_seqno (cn_sender cn) = 0 \<Longrightarrow> new \<noteq> []" by auto
  show ?thesis
  proof (cases "b \<or> TCPConnection_s_state cn \<noteq> closed \<or> rc_syn (cn_receiver cn)")
    case True
    then show ?thesis
      using ne new(1)
      by (intro exI [of _ new]) (auto simp: TCPConnection_push_segment_out_def Let_def clean_shutdown_frame
          push_loop_stamps r_state_listening)
  next
    case False
    then show ?thesis
      by (intro exI [of _ "[]"]) (auto simp: TCPConnection_push_segment_out_def Let_def clean_shutdown_frame
          push_loop_stamps r_state_listening)
  qed
qed

lemma reply_emits:
  assumes inv: "sn_inv D (cn_sender cn)" and syn: "rc_syn (cn_receiver cn)" and len: "0 < seg_len seg"
    and closed: "th_ack (ts_header seg) \<longrightarrow> sn_next_seqno (cn_sender cn) \<noteq> 0"
  shows "\<exists>segs. segs \<noteq> [] \<and> cn_segments_out (TCPConnection_reply cn seg) =
      cn_segments_out cn @ cn_stamps (cn_receiver cn) (cn_send_rst cn) segs \<and>
    cn_receiver (TCPConnection_reply cn seg) = cn_receiver cn"
proof -
  let ?e = "cn\<lparr>cn_sender := TCPSender_send_empty_segment (cn_sender cn)\<rparr>"
  have closed': "TCPConnection_s_state cn = closed \<longleftrightarrow> sn_next_seqno (cn_sender cn) = 0"
    by (simp add: s_state_exact [OF inv])
  have e: "sn_inv D (cn_sender ?e)" using sn_step_inv(1) [OF sn_step.empty inv] by (simp add: sn_keeps_def)
  have eq: "sn_segments_out (cn_sender ?e) \<noteq> []" "cn_send_rst ?e = cn_send_rst cn" "cn_receiver ?e = cn_receiver cn"
    "cn_segments_out ?e = cn_segments_out cn"
    by (simp_all add: TCPSender_send_empty_segment_def Let_def)
  have lis: "TCPConnection_r_state cn \<noteq> listening" using syn by (simp add: r_state_listening)
  have r: "TCPConnection_reply cn seg = TCPConnection_push_segment_out False
      (if sn_segments_out (cn_sender cn) = [] \<and> \<not> (th_syn (ts_header seg) \<and> \<not> th_ack (ts_header seg) \<and>
          sn_next_seqno (cn_sender cn) = 0) then ?e else cn)" (is "_ = TCPConnection_push_segment_out False (if ?P then _ else _)")
    using lis len closed' by (simp add: TCPConnection_reply_def)
  show ?thesis
  proof (cases ?P)
    case True
    from push_emits [OF e, of False] obtain new where
      "cn_segments_out (TCPConnection_push_segment_out False ?e) = cn_segments_out cn @
        cn_stamps (cn_receiver cn) (cn_send_rst cn) (sn_segments_out (cn_sender ?e) @ new)" using eq by auto
    with True r eq(1,3) push_fields(1) [of False ?e] show ?thesis by auto
  next
    case False
    then have "sn_segments_out (cn_sender cn) \<noteq> [] \<or> sn_next_seqno (cn_sender cn) = 0" by auto
    with push_emits [OF inv, of False] syn obtain new where
      "cn_segments_out (TCPConnection_push_segment_out False cn) = cn_segments_out cn @
        cn_stamps (cn_receiver cn) (cn_send_rst cn) (sn_segments_out (cn_sender cn) @ new)"
      "sn_segments_out (cn_sender cn) @ new \<noteq> []" by auto
    with False r push_fields(1) [of False cn] show ?thesis by auto
  qed
qed

lemma stamps_ack:
  assumes "rc_syn r" "seg \<in> set (cn_stamps r rst segs)"
  shows "th_ack (ts_header seg) \<and> TCPReceiver_ackno r = Some (th_ackno (ts_header seg)) \<and>
    th_win (ts_header seg) = of_nat (min (TCPReceiver_window_size r) 65535)"
proof -
  obtain ackno where a: "TCPReceiver_ackno r = Some ackno" using assms(1) ackno_None by (cases "TCPReceiver_ackno r") auto
  have "\<exists>rst seg0. seg = cn_stamp r rst seg0" using assms(2) by (cases segs) auto
  with a show ?thesis by (auto simp: cn_stamp_def Let_def)
qed

lemma inactive_ignores:
  "\<not> cn_active cn \<Longrightarrow> TCPConnection_segment_received env cn seg = Inr cn"
  "\<not> cn_active cn \<Longrightarrow> TCPConnection_tick cn ms = cn"
  by (simp_all add: TCPConnection_segment_received_def TCPConnection_tick_def)

lemma cn_inv_new:
  assumes "length D + 2 < 2 ^ 30" "length S + 2 < 2 ^ 30"
    and "cfg_recv_capacity cfg < 2 ^ 63" "cfg_send_capacity cfg < 2 ^ 63"
  shows "cn_inv D S isn (TCPConnection_new random cfg)"
proof -
  have "sn_inv D (TCPSender_new random (cfg_send_capacity cfg) (cfg_rt_timeout cfg) (cfg_fixed_isn cfg))"
    by (rule sn_inv_new) (use assms in simp_all)
  moreover have "rc_inv S isn (TCPReceiver_new (cfg_recv_capacity cfg))"
    by (rule rc_inv_new) (use assms in simp_all)
  ultimately show ?thesis using assms by (simp add: cn_inv_def TCPConnection_new_def)
qed

lemma sender_syn_sent_inv:
  assumes "length D < 2 ^ 63" "length D + cfg_send_capacity cfg < 2 ^ 64"
  shows "sn_inv D (sender_syn_sent isn cfg)"
proof -
  let ?cfg = "cfg\<lparr>cfg_fixed_isn := Some isn\<rparr>"
  have same: "cfg_isn isn ?cfg = isn" "sender_syn_sent isn ?cfg = sender_syn_sent isn cfg"
    by (simp_all add: cfg_isn_def sender_syn_sent_def)
  have "sn_inv D (cn_sender (TCPConnection_new isn ?cfg))"
    using sn_inv_new [of D "cfg_send_capacity cfg"] assms by (simp add: TCPConnection_new_def)
  from fill_window_sent(1) [OF this]
  have "sn_inv D (TCPSender_fill_window (cn_sender (TCPConnection_new isn ?cfg)))"
    by (simp only: sn_sent_def)
  then have "sn_inv D ((sender_syn_sent isn cfg)\<lparr>sn_segments_out := [syn_of isn]\<rparr>)"
    unfolding fill_window_new same .
  then have "sn_inv D ((sender_syn_sent isn cfg)\<lparr>sn_segments_out := [syn_of isn], sn_segments_out := []\<rparr>)"
    using sn_step_inv(1) [OF sn_step.emit] by (simp only: sn_keeps_def)
  moreover have "(sender_syn_sent isn cfg)\<lparr>sn_segments_out := []\<rparr> = sender_syn_sent isn cfg"
    by (simp add: sender_syn_sent_def TCPSender_new_def)
  ultimately show ?thesis by simp
qed

section \<open>Properties\<close>

text \<open>
  C7: the three-way handshake. Whatever the configurations and the initial sequence numbers, a
  connection that connects and a fresh peer reach the official state ESTABLISHED by exchanging a
  SYN, a SYN with an acknowledgment, and an acknowledgment; nothing remains in flight.
\<close>

theorem tcp_handshake:
  "\<exists>a b. handshake env (TCPConnection_new ra ca) (TCPConnection_new rb cb) = Inr (a, b) \<and>
     TCPConnection_state a = TCPState_of_State ESTABLISHED \<and>
     TCPConnection_state b = TCPState_of_State ESTABLISHED \<and>
     TCPConnection_bytes_in_flight a = 0 \<and> TCPConnection_bytes_in_flight b = 0"
proof -
  let ?a = "cfg_isn ra ca" and ?b = "cfg_isn rb cb"
  let ?A = "(TCPConnection_new ra ca)\<lparr>cn_receiver := receiver_syn_received ?b ca, cn_sender := sender_established ?a ca (win_of cb)\<rparr>"
  let ?B = "(TCPConnection_new rb cb)\<lparr>cn_receiver := receiver_syn_received ?a cb, cn_sender := sender_established ?b cb (win_of ca)\<rparr>"
  have drain: "cn_drain ((TCPConnection_new r c)\<lparr>cn_sender := s, cn_segments_out := q\<rparr>) =
      (TCPConnection_new r c)\<lparr>cn_sender := s\<rparr>"
    "cn_drain ((TCPConnection_new r c)\<lparr>cn_receiver := p, cn_sender := s, cn_segments_out := q\<rparr>) =
      (TCPConnection_new r c)\<lparr>cn_receiver := p, cn_sender := s\<rparr>" for r c s q p
    by (simp_all add: TCPConnection_new_def cn_drain_def)
  have "handshake env (TCPConnection_new ra ca) (TCPConnection_new rb cb) = Inr (?A, ?B)"
    unfolding handshake_def Let_def connect_new
    by (simp add: accept_syn drain accept_syn_ack [OF refl] accept_ack [OF refl] del: One_nat_def)
  moreover have est: "TCPState_sender_summary (sender_established isn cfg w) = TCPSenderStateSummary_SYN_ACKED"
    "TCPState_receiver_summary (receiver_syn_received isn cfg) = TCPReceiverStateSummary_SYN_RECV"
    "TCPSender_bytes_in_flight (sender_established isn cfg w) = 0" for isn cfg w
    by (simp_all add: TCPState_sender_summary_def TCPState_receiver_summary_def)
     (simp_all add: sender_established_def TCPSender_new_def TCPSender_bytes_in_flight_def ByteStream_new_def ByteStream_accessors)
  ultimately show ?thesis
    by (simp add: TCPConnection_state_def TCPState_new_def TCPConnection_bytes_in_flight_def)
      (simp add: TCPConnection_new_def)
qed



text \<open>
  C28: a RST aborts. An active connection that receives one puts both streams into the error state,
  sends nothing, goes inactive, and from then on ignores segments and the passing of time. The only
  exception is a RST with an ACK for a connection that has not sent its SYN. A RST without an ACK aborts
  also a connection in LISTEN, which the tests describe as ignoring it.
\<close>

theorem tcp_connection_reset:
  assumes "cn_active cn" "th_rst (ts_header seg)"
    "th_ack (ts_header seg) \<longrightarrow> TCPConnection_s_state cn \<noteq> closed"
  shows "\<exists>cn'. TCPConnection_segment_received env cn seg = Inr cn' \<and> \<not> cn_active cn' \<and>
    bs_error (sn_stream (cn_sender cn')) \<and> bs_error (TCPConnection_inbound_stream cn') \<and>
    cn_segments_out cn' = cn_segments_out cn \<and>
    (\<forall>env' seg' ms. TCPConnection_segment_received env' cn' seg' = Inr cn' \<and> TCPConnection_tick cn' ms = cn')"
proof -
  let ?c = "TCPConnection_unclean_shutdown False (cn\<lparr>cn_time_since_last_segment_received := 0\<rparr>)"
  have "TCPConnection_segment_received env cn seg = Inr ?c"
    using assms by (auto simp: TCPConnection_segment_received_def state_frame Let_def)
  moreover have "\<not> cn_active ?c" "bs_error (sn_stream (cn_sender ?c))" "bs_error (TCPConnection_inbound_stream ?c)"
    "cn_segments_out ?c = cn_segments_out cn"
    by (simp_all add: TCPConnection_unclean_shutdown_def Let_def TCPConnection_inbound_stream_def
        TCPReceiver_set_error_def TCPReceiver_stream_out_def StreamReassembler_stream_out_def)
  ultimately show ?thesis using inactive_ignores by blast
qed

theorem tcp_connection_reset_witness:
  "let cn = TCPConnection_connect (TCPConnection_new (WrappingInt32 5) TCPConfig_default);
       seg = TCPSegment_default\<lparr>ts_header := TCPHeader_default\<lparr>th_rst := True, th_ack := True\<rparr>\<rparr>
   in cn_active cn \<and> TCPConnection_s_state cn = syn_sent \<and>
      (\<exists>cn'. TCPConnection_segment_received stl_strict cn seg = Inr cn' \<and> \<not> cn_active cn')"
proof -
  let ?cn = "TCPConnection_connect (TCPConnection_new (WrappingInt32 5) TCPConfig_default)"
  let ?seg = "TCPSegment_default\<lparr>ts_header := TCPHeader_default\<lparr>th_rst := True, th_ack := True\<rparr>\<rparr>"
  have cn: "cn_active ?cn" "TCPConnection_s_state ?cn = syn_sent"
    unfolding connect_new by (simp add: TCPConnection_new_def) (rule s_state_values(2), simp)
  then show ?thesis using tcp_connection_reset [of ?cn ?seg stl_strict] by (auto simp: Let_def TCPHeader_default_def)
qed

text \<open>
  C29: a connection gives up after too many retransmissions. When the timer runs out after
  \<open>MAX_RETX_ATTEMPTS\<close> retransmissions in a row, \<open>tick\<close> puts both streams into the
  error state, goes inactive, and the first segment it sends carries the RST flag.
\<close>

theorem tcp_connection_gives_up:
  assumes inv: "sn_inv D (cn_sender cn)" and act: "cn_active cn"
    and exp: "sn_expired (cn_sender cn) ms" "\<not> sn_window_size_zero (cn_sender cn)"
      "sn_consecutive_retransmissions (cn_sender cn) = TCPConfig_MAX_RETX_ATTEMPTS"
  shows "\<exists>seg rest. cn_segments_out (TCPConnection_tick cn ms) = cn_segments_out cn @ seg # rest \<and>
    th_rst (ts_header seg) \<and> \<not> cn_active (TCPConnection_tick cn ms) \<and>
    bs_error (sn_stream (cn_sender (TCPConnection_tick cn ms))) \<and>
    bs_error (TCPConnection_inbound_stream (TCPConnection_tick cn ms))"
proof -
  let ?c = "cn\<lparr>cn_time_since_last_segment_received := add64 (cn_time_since_last_segment_received cn) ms,
    cn_sender := TCPSender_tick (cn_sender cn) ms\<rparr>"
  let ?s = "(TCPSender_tick (cn_sender cn) ms)\<lparr>sn_stream := ByteStream_set_error (sn_stream (TCPSender_tick (cn_sender cn) ms))\<rparr>"
  let ?d = "?c\<lparr>cn_sender := ?s, cn_receiver := TCPReceiver_set_error (cn_receiver cn), cn_active := False, cn_send_rst := True\<rparr>"
  have q: "sn_segments_out (cn_sender ?c) \<noteq> []" "TCPSender_consecutive_retransmissions (cn_sender ?c) = 9"
    using exp by (simp_all add: tick_cases(2) TCPSender_consecutive_retransmissions_def
        TCPConfig_MAX_RETX_ATTEMPTS_def add64_def)
  have d: "sn_inv D (cn_sender ?d)" using set_error_sn_inv [OF tick_inv [OF inv]] by simp
  let ?p = "TCPConnection_push_segment_out False ?d"
  have un: "TCPConnection_unclean_shutdown True ?c = ?p"
    using q(1) by (simp add: TCPConnection_unclean_shutdown_def Let_def)
  have tick: "TCPConnection_tick cn ms = TCPConnection_push_segment_out False ?p"
    using act q(2) un by (simp add: TCPConnection_tick_def Let_def TCPConfig_MAX_RETX_ATTEMPTS_def)
  note p = push_fields(1,2) [of False ?d] push_fields(3) [OF d, of False]
  have p': "sn_inv D (cn_sender ?p)" "bs_error (sn_stream (cn_sender ?p))" "\<not> cn_active ?p"
    "bs_error (TCPReceiver_stream_out (cn_receiver ?p))"
    using p by (auto simp: TCPReceiver_set_error_def TCPReceiver_stream_out_def StreamReassembler_stream_out_def)
  obtain new where 1: "cn_segments_out ?p = cn_segments_out cn @
      cn_stamps (cn_receiver ?d) True (sn_segments_out (cn_sender ?c) @ new)"
    using push_emits [OF d, of False] by auto
  obtain new' where 2: "cn_segments_out (TCPConnection_tick cn ms) = cn_segments_out ?p @ new'"
    unfolding tick using push_emits [OF p'(1), of False] by auto
  obtain x xs where "sn_segments_out (cn_sender ?c) @ new = x # xs" using q(1) by (cases "sn_segments_out (cn_sender ?c)") auto
  with 1 2 have "cn_segments_out (TCPConnection_tick cn ms) = cn_segments_out cn @
      cn_stamp (cn_receiver ?d) True x # (map (cn_stamp (cn_receiver ?d) False) xs @ new')" by simp
  moreover have "th_rst (ts_header (cn_stamp (cn_receiver ?d) True x))" by (simp add: cn_stamp_def Let_def)
  moreover have "\<not> cn_active (TCPConnection_tick cn ms)"
    "bs_error (sn_stream (cn_sender (TCPConnection_tick cn ms)))"
    "bs_error (TCPConnection_inbound_stream (TCPConnection_tick cn ms))"
    unfolding tick TCPConnection_inbound_stream_def
    using push_fields(1,2) [of False ?p] push_fields(3) [OF p'(1), of False] p' by auto
  ultimately show ?thesis by blast
qed

theorem tcp_connection_gives_up_witness:
  "\<not> cn_active (TCPConnection_tick ((TCPConnection_new (WrappingInt32 5) TCPConfig_default)\<lparr>cn_sender :=
      (sender_syn_sent (WrappingInt32 5) TCPConfig_default)\<lparr>sn_consecutive_retransmissions := 8\<rparr>\<rparr>) 1000)"
proof -
  let ?s = "sender_syn_sent (WrappingInt32 5) TCPConfig_default"
  let ?cn = "(TCPConnection_new (WrappingInt32 5) TCPConfig_default)\<lparr>cn_sender :=
    ?s\<lparr>sn_consecutive_retransmissions := 8\<rparr>\<rparr>"
  have "sn_inv [] ?s"
    by (rule sender_syn_sent_inv) (simp_all add: TCPConfig_default_def TCPConfig_DEFAULT_CAPACITY_def)
  from sn_timer_inv [OF this, of "sn_timer ?s" 8] have "sn_inv [] (cn_sender ?cn)"
    by (simp add: sender_syn_sent_def TCPSender_new_def)
  note give_up = tcp_connection_gives_up [OF this, of 1000]
  have "cn_active ?cn" "sn_expired (cn_sender ?cn) 1000" "\<not> sn_window_size_zero (cn_sender ?cn)"
    "sn_consecutive_retransmissions (cn_sender ?cn) = TCPConfig_MAX_RETX_ATTEMPTS"
    by (simp_all add: TCPConnection_new_def sn_expired_def sender_syn_sent_def TCPSender_new_def
        TCPConfig_MAX_RETX_ATTEMPTS_def TCPConfig_default_def TCPConfig_TIMEOUT_DFLT_def add64_def)
  from give_up [OF this] show ?thesis by blast
qed

text \<open>
  The two views of the state agree. The enumerations a connection computes its decisions from
  and the strings of the state summary name the same state, and the value \<open>unknown\<close> never
  occurs.
\<close>

theorem tcp_connection_state_agrees:
  assumes "sn_inv D (cn_sender cn)" "\<not> bs_error (sn_stream (cn_sender cn))"
    "\<not> bs_error (TCPConnection_inbound_stream cn)"
  shows "st_sender (TCPConnection_state cn) = (case TCPConnection_s_state cn of
      closed \<Rightarrow> TCPSenderStateSummary_CLOSED | syn_sent \<Rightarrow> TCPSenderStateSummary_SYN_SENT
    | syn_acked \<Rightarrow> TCPSenderStateSummary_SYN_ACKED | fin_sent \<Rightarrow> TCPSenderStateSummary_FIN_SENT
    | fin_acked \<Rightarrow> TCPSenderStateSummary_FIN_ACKED | unknown \<Rightarrow> []) \<and>
    st_receiver (TCPConnection_state cn) = (case TCPConnection_r_state cn of
      listening \<Rightarrow> TCPReceiverStateSummary_LISTEN | syn_received \<Rightarrow> TCPReceiverStateSummary_SYN_RECV
    | fin_recv \<Rightarrow> TCPReceiverStateSummary_FIN_RECV | unk \<Rightarrow> []) \<and>
    TCPConnection_s_state cn \<noteq> unknown \<and> TCPConnection_r_state cn \<noteq> unk"
proof -
  let ?s = "cn_sender cn"
  note b = sn_inv_bounds [OF assms(1)] and f = sn_finished [OF assms(1)]
  have "length D < 2 ^ 63" using assms(1) by (simp add: sn_inv_def sn_data_def)
  then have w: "add64 (bs_written (sn_stream ?s)) 2 = bs_written (sn_stream ?s) + 2"
    using b(6) by (simp add: add64_exact)
  have "st_sender (TCPConnection_state cn) = (case TCPConnection_s_state cn of
      closed \<Rightarrow> TCPSenderStateSummary_CLOSED | syn_sent \<Rightarrow> TCPSenderStateSummary_SYN_SENT
    | syn_acked \<Rightarrow> TCPSenderStateSummary_SYN_ACKED | fin_sent \<Rightarrow> TCPSenderStateSummary_FIN_SENT
    | fin_acked \<Rightarrow> TCPSenderStateSummary_FIN_ACKED | unknown \<Rightarrow> [])"
    using b(1,3,4) f w assms(2) unfolding s_state_exact [OF assms(1)]
    by (auto simp: TCPConnection_state_def TCPState_new_def TCPState_sender_summary_def ByteStream_bytes_written_def)
  moreover have "TCPConnection_s_state cn \<noteq> unknown" by (simp add: s_state_exact [OF assms(1)])
  ultimately show ?thesis
    using assms(3) by (auto simp: TCPConnection_state_def TCPState_new_def TCPState_receiver_summary_def
        TCPConnection_r_state_def TCPConnection_inbound_stream_def)
qed

theorem tcp_connection_state_agrees_witness:
  "st_sender (TCPConnection_state (TCPConnection_new (WrappingInt32 5) TCPConfig_default)) =
     TCPSenderStateSummary_CLOSED \<and>
   st_receiver (TCPConnection_state (TCPConnection_new (WrappingInt32 5) TCPConfig_default)) =
     TCPReceiverStateSummary_LISTEN"
proof -
  let ?cn = "TCPConnection_new (WrappingInt32 5) TCPConfig_default"
  have "sn_inv [] (cn_sender ?cn)"
    using sn_inv_new [of "[]"] by (simp add: TCPConnection_new_def TCPConfig_default_def TCPConfig_DEFAULT_CAPACITY_def)
  from tcp_connection_state_agrees [OF this] s_state_values(1) [of ?cn] r_state_values(1) [of ?cn] show ?thesis
    by (simp add: TCPConnection_new_def TCPSender_new_def TCPConnection_inbound_stream_def TCPReceiver_accessors
        TCPReceiver_new_def StreamReassembler_new_def ByteStream_new_def)
qed

end
