(* ===== verification/TCP_Transfer.thy ===== *)
theory TCP_Transfer
  imports TCP_Connection
begin

text \<open>
  Two connections that talk to each other over a network that may lose, repeat, delay and reorder
  segments: a step relation on the pair of endpoints, and what every reachable state satisfies.
\<close>

section \<open>Endpoints\<close>

text \<open>
  An endpoint is a connection with what its owner has put on the wire and has read so far.
\<close>

record endpoint =
  ep_conn :: tcp_connection
  ep_sent :: "tcp_segment list"
  ep_read :: bytes

definition ep_new :: "WrappingInt32 \<Rightarrow> tcp_config \<Rightarrow> endpoint" where
  "ep_new random cfg = \<lparr>ep_conn = TCPConnection_new random cfg, ep_sent = [], ep_read = []\<rparr>"

definition TCPConnection_read :: "tcp_connection \<Rightarrow> size_t \<Rightarrow> tcp_connection \<times> bytes" where
  "TCPConnection_read cn n =
     (let r = cn_receiver cn; (ra, d) = read_stream_out (rc_reassembler r) n
      in (cn\<lparr>cn_receiver := r\<lparr>rc_reassembler := ra\<rparr>\<rparr>, d))"

text \<open>
  The calls of an owner that sends the bytes \<open>D\<close>; the segments in \<open>incoming\<close> are those
  the network may deliver.
\<close>

inductive ep_step :: "stl_env \<Rightarrow> bytes \<Rightarrow> tcp_segment set \<Rightarrow> endpoint \<Rightarrow> endpoint \<Rightarrow> bool"
  for env D incoming where
  connect: "ep_step env D incoming ep (ep\<lparr>ep_conn := TCPConnection_connect (ep_conn ep)\<rparr>)"
| write_data: "TCPConnection_write (ep_conn ep) data = (cn, n) \<Longrightarrow>
    excerpt D (bs_written (sn_stream (cn_sender (ep_conn ep)))) (take n data) \<Longrightarrow>
    ep_step env D incoming ep (ep\<lparr>ep_conn := cn\<rparr>)"
| end_data: "bs_written (sn_stream (cn_sender (ep_conn ep))) = length D \<Longrightarrow>
    ep_step env D incoming ep (ep\<lparr>ep_conn := TCPConnection_end_input_stream (ep_conn ep)\<rparr>)"
| tick: "ep_step env D incoming ep (ep\<lparr>ep_conn := TCPConnection_tick (ep_conn ep) ms\<rparr>)"
| receive: "seg \<in> incoming \<Longrightarrow> TCPConnection_segment_received env (ep_conn ep) seg = Inr cn \<Longrightarrow>
    ep_step env D incoming ep (ep\<lparr>ep_conn := cn\<rparr>)"
| read: "TCPConnection_read (ep_conn ep) n = (cn, d) \<Longrightarrow>
    ep_step env D incoming ep (ep\<lparr>ep_conn := cn, ep_read := ep_read ep @ d\<rparr>)"
| send: "ep_step env D incoming ep
    (ep\<lparr>ep_conn := (ep_conn ep)\<lparr>cn_segments_out := []\<rparr>,
        ep_sent := ep_sent ep @ cn_segments_out (ep_conn ep)\<rparr>)"

inductive transfer ::
  "stl_env \<Rightarrow> bytes \<Rightarrow> bytes \<Rightarrow> endpoint \<times> endpoint \<Rightarrow> endpoint \<times> endpoint \<Rightarrow> bool"
  for env D S start where
  init: "transfer env D S start start"
| left: "transfer env D S start (a, b) \<Longrightarrow> ep_step env D (set (ep_sent b)) a a' \<Longrightarrow>
    transfer env D S start (a', b)"
| right: "transfer env D S start (a, b) \<Longrightarrow> ep_step env S (set (ep_sent a)) b b' \<Longrightarrow>
    transfer env D S start (a, b')"

section \<open>What the connection has been given\<close>

text \<open>Only \<open>write\<close> adds to the bytes written into the stream of the sender.\<close>

abbreviation cn_written :: "tcp_connection \<Rightarrow> nat" where
  "cn_written cn \<equiv> bs_written (sn_stream (cn_sender cn))"

lemma send_segment_stream [simp]: "sn_stream (TCPSender_send_segment s seg) = sn_stream s"
  by (simp add: TCPSender_send_segment_def Let_def)

lemma fill_loop_written: "bs_written (sn_stream (TCPSender_fill_loop s rem)) = bs_written (sn_stream s)"
proof (induction s rem rule: TCPSender_fill_loop.induct)
  case (1 s rem)
  have "bs_written (sn_stream (fst (TCPSender_fill_step s rem))) = bs_written (sn_stream s)"
    by (simp add: TCPSender_fill_step_def Let_def read_exact split: prod.splits)
  with 1 show ?case by (subst TCPSender_fill_loop.simps) (simp add: Let_def)
qed

lemma fill_window_written [simp]: "bs_written (sn_stream (TCPSender_fill_window s)) = bs_written (sn_stream s)"
  by (simp add: TCPSender_fill_window_def Let_def fill_loop_written)

lemma ack_received_written [simp]:
  "bs_written (sn_stream (TCPSender_ack_received s ackno win)) = bs_written (sn_stream s)"
  by (simp add: TCPSender_ack_received_def Let_def)

lemma clean_shutdown_sender [simp]: "cn_sender (TCPConnection_clean_shutdown cn) = cn_sender cn"
  by (simp add: TCPConnection_clean_shutdown_def Let_def)

lemma push_segment_out_written [simp]: "cn_written (TCPConnection_push_segment_out syn cn) = cn_written cn"
  by (simp add: TCPConnection_push_segment_out_def Let_def push_loop_stamps)

lemma unclean_shutdown_written [simp]: "cn_written (TCPConnection_unclean_shutdown rst cn) = cn_written cn"
  by (simp add: TCPConnection_unclean_shutdown_def Let_def TCPSender_send_empty_segment_def ByteStream_set_error_def)

lemma segment_received_written:
  "TCPConnection_segment_received env cn seg = Inr cn' \<Longrightarrow> cn_written cn' = cn_written cn"
  by (auto simp: TCPConnection_segment_received_def Let_def bindR_eq_Inr TCPConnection_reply_def
      TCPConnection_connect_def TCPSender_send_empty_segment_def split: if_splits)

lemma end_input_written [simp]: "cn_written (TCPConnection_end_input_stream cn) = cn_written cn"
  by (simp add: TCPConnection_end_input_stream_def ByteStream_end_input_def)

lemma write_accepted:
  assumes "length data \<le> TCPConnection_remaining_outbound_capacity cn" "cn_written cn + length data < 2 ^ 64"
  obtains cn' where "TCPConnection_write cn data = (cn', length data)" "cn_written cn' = cn_written cn + length data"
proof -
  have "snd (TCPConnection_write cn data) = length data" "cn_written (fst (TCPConnection_write cn data)) = cn_written cn + length data"
    using assms
    by (simp_all add: TCPConnection_write_def ByteStream_write_def TCPConnection_remaining_outbound_capacity_def
        Let_def add64_exact)
  then show ?thesis by (metis that prod.collapse)
qed

section \<open>The invariant\<close>

abbreviation ep_pos :: "endpoint \<Rightarrow> nat" where
  "ep_pos ep \<equiv> rc_pos (cn_receiver (ep_conn ep))"

abbreviation ep_base :: "endpoint \<Rightarrow> nat" where
  "ep_base ep \<equiv> sn_send_base (cn_sender (ep_conn ep))"

abbreviation ep_isn :: "endpoint \<Rightarrow> WrappingInt32" where
  "ep_isn ep \<equiv> sn_isn (cn_sender (ep_conn ep))"

definition ep_inv :: "bytes \<Rightarrow> bytes \<Rightarrow> WrappingInt32 \<Rightarrow> endpoint \<Rightarrow> bool" where
  "ep_inv D S isn ep \<longleftrightarrow>
     cn_inv D S isn (ep_conn ep) \<and>
     ep_read ep = take (bs_read (rc_output (cn_receiver (ep_conn ep)))) S \<and>
     (\<forall>seg \<in> set (ep_sent ep). emitted D (ep_isn ep) isn (ep_pos ep) seg)"

definition transfer_inv ::
  "bytes \<Rightarrow> bytes \<Rightarrow> WrappingInt32 \<Rightarrow> WrappingInt32 \<Rightarrow> endpoint \<Rightarrow> endpoint \<Rightarrow> bool" where
  "transfer_inv D S isn isn' a b \<longleftrightarrow>
     ep_isn a = isn \<and> ep_isn b = isn' \<and> ep_inv D S isn' a \<and> ep_inv S D isn b \<and>
     ep_base a \<le> ep_pos b \<and> ep_base b \<le> ep_pos a"

lemma transfer_inv_sym: "transfer_inv D S isn isn' a b \<longleftrightarrow> transfer_inv S D isn' isn b a"
  by (auto simp: transfer_inv_def)

lemma read_keeps:
  assumes inv: "cn_inv D S isn cn" and r: "TCPConnection_read cn n = (cn', d)"
  shows "cn_inv D S isn cn'" "cn_sender cn' = cn_sender cn" "rc_pos (cn_receiver cn') = rc_pos (cn_receiver cn)"
    and "cn_segments_out cn' = cn_segments_out cn"
    and "take (bs_read (rc_output (cn_receiver cn'))) S = take (bs_read (rc_output (cn_receiver cn))) S @ d"
proof -
  let ?r = "cn_receiver cn"
  obtain ra where ra: "read_stream_out (rc_reassembler ?r) n = (ra, d)"
    and cn': "cn' = cn\<lparr>cn_receiver := ?r\<lparr>rc_reassembler := ra\<rparr>\<rparr>"
    using r by (auto simp: TCPConnection_read_def Let_def split: prod.splits)
  have rc: "rc_inv S isn ?r" "sr_ok S (rc_reassembler ?r)"
    using inv by (auto simp: cn_inv_def rc_inv_def)
  note rd = sr_ok_read [OF rc(2) ra]
  have out: "bs_written (sr_output ra) = bs_written (rc_output ?r)" "bs_eof (sr_output ra) = bs_eof (rc_output ?r)"
    using ra by (auto simp: read_stream_out_def read_exact StreamReassembler_stream_out_def)
  have rc': "rc_inv S isn (?r\<lparr>rc_reassembler := ra\<rparr>)"
    using rc rd out unfolding rc_inv_def by (auto split: if_splits)
  have pos: "rc_pos (?r\<lparr>rc_reassembler := ra\<rparr>) = rc_pos ?r" by (simp add: rc_pos_def)
  show "cn_inv D S isn cn'" using inv rc' by (simp add: cn' cn_inv_def pos)
  show "cn_sender cn' = cn_sender cn" "rc_pos (cn_receiver cn') = rc_pos (cn_receiver cn)"
    "cn_segments_out cn' = cn_segments_out cn"
    by (simp_all add: cn' pos)
  have "take (length (take m xs)) xs = take m xs" for m and xs :: bytes
    by (cases "m \<le> length xs") simp_all
  then have "take (length d) (drop (bs_read (rc_output ?r)) S) = d"
    using rd by (metis drop_take take_take)
  then show "take (bs_read (rc_output (cn_receiver cn'))) S = take (bs_read (rc_output ?r)) S @ d"
    using rd by (simp add: cn' take_add)
qed

lemma keeps_ep_inv:
  assumes "ep_inv D S isn ep" "cn_keeps D S isn bnd (ep_conn ep) cn"
  shows "ep_inv D S isn (ep\<lparr>ep_conn := cn\<rparr>)"
  using assms by (auto simp: ep_inv_def cn_keeps_def intro: emitted_mono)

lemma ep_step_inv:
  assumes inv: "ep_inv D S isn ep" and step: "ep_step env D incoming ep ep'"
    and inc: "\<forall>seg \<in> incoming. emitted S isn (ep_isn ep) pos seg" "pos \<le> length D + 2" "ep_base ep \<le> pos"
  shows "ep_inv D S isn ep' \<and> ep_isn ep' = ep_isn ep \<and> ep_pos ep \<le> ep_pos ep' \<and> ep_base ep' \<le> pos"
proof -
  have cn: "cn_inv D S isn (ep_conn ep)" using inv by (simp add: ep_inv_def)
  have keep: ?thesis if "cn_keeps D S isn pos (ep_conn ep) cn" "ep' = ep\<lparr>ep_conn := cn\<rparr>" for cn
    using keeps_ep_inv [OF inv that(1)] that inc(3) by (auto simp: cn_keeps_def)
  from step show ?thesis
  proof cases
    case connect
    show ?thesis by (rule keep [OF _ connect]) (simp add: TCPConnection_connect_def push_keeps [OF cn])
  next
    case (write_data data cn' n)
    then have "cn' = fst (TCPConnection_write (ep_conn ep) data)" by simp
    moreover have "\<exists>st. ByteStream_write (sn_stream (cn_sender (ep_conn ep))) data = (st, n)"
      using write_data(2) by (auto simp: TCPConnection_write_def Let_def split: prod.splits)
    ultimately show ?thesis using write_keeps [OF cn _ write_data(3)] keep [OF _ write_data(1)] by auto
  next
    case end_data
    show ?thesis by (rule keep [OF end_input_keeps [OF cn end_data(2)] end_data(1)])
  next
    case (tick ms)
    show ?thesis by (rule keep [OF tick_keeps [OF cn] tick])
  next
    case (receive seg cn')
    from segment_received_keeps [OF cn, of pos seg] inc receive(2) ub_or_Inr [OF connection_follows receive(3)] have "cn_keeps D S isn pos (ep_conn ep) cn'"
      by auto
    then show ?thesis by (rule keep [OF _ receive(1)])
  next
    case (read n cn' d)
    from read_keeps [OF cn read(2)] inv inc(3) show ?thesis by (simp add: ep_inv_def read(1))
  next
    case send
    with inv inc(3) show ?thesis by (auto simp: ep_inv_def cn_inv_def)
  qed
qed

lemma transfer_left:
  assumes inv: "transfer_inv D S isn isn' a b" and step: "ep_step env D (set (ep_sent b)) a a'"
  shows "transfer_inv D S isn isn' a' b"
proof -
  have i: "ep_inv D S isn' a" "ep_inv S D isn b" "ep_isn a = isn" "ep_isn b = isn'"
    "ep_base a \<le> ep_pos b" "ep_base b \<le> ep_pos a"
    using inv by (auto simp: transfer_inv_def)
  have "ep_pos b \<le> length D + 2"
    using i(2) rc_pos_facts(2) [of D isn "cn_receiver (ep_conn b)"] by (simp add: ep_inv_def cn_inv_def)
  moreover have "\<forall>seg \<in> set (ep_sent b). emitted S isn' (ep_isn a) (ep_pos b) seg"
    using i by (simp add: ep_inv_def)
  ultimately have "ep_inv D S isn' a' \<and> ep_isn a' = ep_isn a \<and> ep_pos a \<le> ep_pos a' \<and> ep_base a' \<le> ep_pos b"
    using ep_step_inv [OF i(1) step] i(5) by blast
  with i show ?thesis by (auto simp: transfer_inv_def)
qed

lemma transfer_invariant:
  assumes "transfer env D S start ab" "transfer_inv D S isn isn' (fst start) (snd start)"
  shows "transfer_inv D S isn isn' (fst ab) (snd ab)"
  using assms
proof induction
  case (left a b a')
  then show ?case using transfer_left by simp
next
  case (right a b b')
  then show ?case using transfer_left [of S D isn' isn b a env b'] transfer_inv_sym [of D S isn isn'] by simp
qed simp

section \<open>Properties\<close>

lemma transfer_start:
  assumes "length D + 2 < 2 ^ 30" "length S + 2 < 2 ^ 30"
    and "cfg_recv_capacity ca < 2 ^ 63" "cfg_send_capacity ca < 2 ^ 63"
    and "cfg_recv_capacity cb < 2 ^ 63" "cfg_send_capacity cb < 2 ^ 63"
  shows "transfer_inv D S (ep_isn (ep_new ra ca)) (ep_isn (ep_new rb cb)) (ep_new ra ca) (ep_new rb cb)"
proof -
  have ep: "ep_inv D S isn (ep_new r c)"
    if "length D + 2 < 2 ^ 30" "length S + 2 < 2 ^ 30"
      "cfg_recv_capacity c < 2 ^ 63" "cfg_send_capacity c < 2 ^ 63" for D S isn r c
    using cn_inv_new [OF that, of isn r]
    by (simp add: ep_inv_def ep_new_def)
      (simp add: TCPConnection_new_def TCPReceiver_new_def StreamReassembler_new_def ByteStream_new_def)
  have "sn_send_base (cn_sender (TCPConnection_new r c)) = 0" for r c
    by (simp add: TCPConnection_new_def TCPSender_new_def)
  with ep assms show ?thesis by (simp add: transfer_inv_def) (simp add: ep_new_def)
qed

lemma ep_readable:
  assumes "ep_inv D S isn ep"
  defines "out \<equiv> TCPConnection_inbound_stream (ep_conn ep)"
  shows "S = ep_read ep @ bs_buf out @ drop (bs_written out) S"
    and "ep_pos ep = length S + 2 \<Longrightarrow> ByteStream_input_ended out \<and> bs_written out = length S"
proof -
  let ?r = "cn_receiver (ep_conn ep)"
  have rc: "rc_inv S isn ?r" and rd: "ep_read ep = take (bs_read out) S" and out: "out = rc_output ?r"
    using assms by (auto simp: ep_inv_def cn_inv_def TCPConnection_inbound_stream_def TCPReceiver_accessors)
  have o: "out_ok S out" using rc by (simp add: rc_inv_def sr_ok_def sr_inv_def out)
  have "take (bs_written out) S = take (bs_read out) S @ bs_buf out"
    using o by (simp add: out_ok_written [OF o] take_add) (simp add: out_ok_def excerpt_def)
  then show "S = ep_read ep @ bs_buf out @ drop (bs_written out) S"
    using append_take_drop_id [of "bs_written out" S] rd by simp
  show "ep_pos ep = length S + 2 \<Longrightarrow> ByteStream_input_ended out \<and> bs_written out = length S"
    using rc_pos_facts(3) [OF rc] rc_inv_facts(6) [OF rc] by (simp add: out ByteStream_accessors)
qed

lemma transfer_receives:
  assumes "transfer_inv D S isn isn' a b" "seg \<in> set (ep_sent b)"
  shows "\<exists>cn. TCPConnection_segment_received stl_ideal (ep_conn a) seg = Inr cn \<and>
    (TCPConnection_segment_received env (ep_conn a) seg = Inl UndefinedBehaviour \<or>
     TCPConnection_segment_received env (ep_conn a) seg = Inr cn)"
proof -
  have i: "ep_inv D S isn' a" "ep_inv S D isn b" "ep_isn a = isn" "ep_isn b = isn'"
    using assms(1) by (auto simp: transfer_inv_def)
  have "ep_pos b \<le> length D + 2"
    using i(2) rc_pos_facts(2) [of D isn "cn_receiver (ep_conn b)"] by (simp add: ep_inv_def cn_inv_def)
  moreover have "cn_inv D S isn' (ep_conn a)" "emitted S isn' (ep_isn a) (ep_pos b) seg"
    using i assms(2) by (simp_all add: ep_inv_def)
  ultimately obtain cn where "TCPConnection_segment_received stl_ideal (ep_conn a) seg = Inr cn"
    using segment_received_keeps by blast
  with connection_follows [of env "ep_conn a" seg] show ?thesis by (auto elim: ub_orE)
qed

text \<open>
  C1: the service TCP gives, on every platform. Two fresh connections with any initial sequence numbers
  and configurations exchange segments over a network that may lose, repeat, delay and reorder them,
  while their owners write, read and let time pass in any order; the streams are shorter than
  \<open>2 ^ 30 - 2\<close>. At every moment of a run without an undefined operation the delivery of any segment
  ever sent returns where the platform gets past the undefined operations of the reassembler, and
  anywhere else has the same result or runs into such an operation, with no other exception; what an endpoint has read, followed by what it can read, is a prefix of what its peer
  writes; and an endpoint that has gone inactive without a reset has delivered all of its stream to its
  peer and received all of the peer's. Nothing is assumed of the undefined operations: they end a run
  unless the platform happens to get past them, and these runs are covered as well.
\<close>

theorem tcp_transfer_correct:
  assumes "length D + 2 < 2 ^ 30" "length S + 2 < 2 ^ 30"
    and "cfg_recv_capacity ca < 2 ^ 63" "cfg_send_capacity ca < 2 ^ 63"
    and "cfg_recv_capacity cb < 2 ^ 63" "cfg_send_capacity cb < 2 ^ 63"
    and "transfer env D S (ep_new ra ca, ep_new rb cb) (a, b)"
  shows "(\<forall>seg \<in> set (ep_sent b). \<exists>cn. TCPConnection_segment_received stl_ideal (ep_conn a) seg = Inr cn \<and>
      (TCPConnection_segment_received env (ep_conn a) seg = Inl UndefinedBehaviour \<or>
       TCPConnection_segment_received env (ep_conn a) seg = Inr cn)) \<and>
    (\<exists>rest. D = ep_read b @ bs_buf (TCPConnection_inbound_stream (ep_conn b)) @ rest) \<and>
    (\<not> cn_active (ep_conn a) \<and> \<not> bs_error (sn_stream (cn_sender (ep_conn a))) \<longrightarrow>
       D = ep_read b @ bs_buf (TCPConnection_inbound_stream (ep_conn b)) \<and>
       ByteStream_input_ended (TCPConnection_inbound_stream (ep_conn b)) \<and>
       S = ep_read a @ bs_buf (TCPConnection_inbound_stream (ep_conn a)))"
proof -
  obtain isn isn' where inv: "transfer_inv D S isn isn' a b"
    using transfer_invariant [OF assms(7)] transfer_start [OF assms(1-6), of ra rb] by auto
  then have i: "ep_inv D S isn' a" "ep_inv S D isn b" "ep_isn a = isn" "ep_isn b = isn'"
    "ep_base a \<le> ep_pos b" "ep_base b \<le> ep_pos a" by (auto simp: transfer_inv_def)
  have cn: "cn_inv D S isn' (ep_conn a)" using i(1) by (simp add: ep_inv_def)
  have pos: "ep_pos b \<le> length D + 2"
    using i(2) rc_pos_facts(2) [of D isn "cn_receiver (ep_conn b)"] by (simp add: ep_inv_def cn_inv_def)
  have recv: "\<forall>seg \<in> set (ep_sent b). \<exists>cn. TCPConnection_segment_received stl_ideal (ep_conn a) seg = Inr cn \<and>
      (TCPConnection_segment_received env (ep_conn a) seg = Inl UndefinedBehaviour \<or>
       TCPConnection_segment_received env (ep_conn a) seg = Inr cn)"
    using transfer_receives [OF inv] by blast
  have fin: "ep_pos b = length D + 2 \<and> ep_pos a = length S + 2"
    if "\<not> cn_active (ep_conn a)" "\<not> bs_error (sn_stream (cn_sender (ep_conn a)))"
    using cn that pos i(5) by (auto simp: cn_inv_def)
  show ?thesis
  proof (intro conjI impI)
    show "\<exists>rest. D = ep_read b @ bs_buf (TCPConnection_inbound_stream (ep_conn b)) @ rest"
      using ep_readable(1) [OF i(2)] by blast
    assume off: "\<not> cn_active (ep_conn a) \<and> \<not> bs_error (sn_stream (cn_sender (ep_conn a)))"
    then have "bs_written (TCPConnection_inbound_stream (ep_conn b)) = length D"
      "bs_written (TCPConnection_inbound_stream (ep_conn a)) = length S"
      and "ByteStream_input_ended (TCPConnection_inbound_stream (ep_conn b))"
      using fin ep_readable(2) [OF i(1)] ep_readable(2) [OF i(2)] by auto
    then show "D = ep_read b @ bs_buf (TCPConnection_inbound_stream (ep_conn b))"
      "ByteStream_input_ended (TCPConnection_inbound_stream (ep_conn b))"
      "S = ep_read a @ bs_buf (TCPConnection_inbound_stream (ep_conn a))"
      using ep_readable(1) [OF i(1)] ep_readable(1) [OF i(2)] by simp_all
  qed (fact recv)
qed

text \<open>A run of the handshake, up to the acknowledgment of the second SYN.\<close>

lemma sample_transfer:
  "\<exists>a b. transfer stl_sample [1, 2, 3] [] (ep_new (WrappingInt32 5) TCPConfig_default,
      ep_new (WrappingInt32 9) TCPConfig_default) (a, b) \<and> length (ep_sent a) = 2 \<and> length (ep_sent b) = 1"
proof -
  let ?c = TCPConfig_default and ?t = "transfer stl_sample [1, 2, 3] []"
  let ?a = "ep_new (WrappingInt32 5) ?c" and ?b = "ep_new (WrappingInt32 9) ?c"
  let ?ia = "cfg_isn (WrappingInt32 5) ?c" and ?ib = "cfg_isn (WrappingInt32 9) ?c"
  let ?A = "(ep_conn ?a)\<lparr>cn_sender := sender_syn_sent ?ia ?c\<rparr>"
  let ?B = "(ep_conn ?b)\<lparr>cn_receiver := receiver_syn_received ?ia ?c, cn_sender := sender_syn_sent ?ib ?c\<rparr>"
  let ?A' = "?A\<lparr>cn_receiver := receiver_syn_received ?ib ?c, cn_sender := sender_established ?ia ?c (win_of ?c)\<rparr>"
  let ?a1 = "?a\<lparr>ep_conn := ?A, ep_sent := [syn_of ?ia]\<rparr>"
  let ?b1 = "?b\<lparr>ep_conn := ?B, ep_sent := [syn_ack_of ?ib ?ia ?c]\<rparr>"
  let ?a2 = "?a1\<lparr>ep_conn := ?A', ep_sent := [syn_of ?ia, ack_of ?ia ?ib ?c]\<rparr>"
  have none: "(TCPConnection_new r c)\<lparr>cn_sender := s, cn_segments_out := []\<rparr> = (TCPConnection_new r c)\<lparr>cn_sender := s\<rparr>"
    "(TCPConnection_new r c)\<lparr>cn_receiver := v, cn_sender := s, cn_segments_out := []\<rparr> =
      (TCPConnection_new r c)\<lparr>cn_receiver := v, cn_sender := s\<rparr>" for r c s v
    by (simp_all add: TCPConnection_new_def)
  have "?t (?a, ?b) (?a1, ?b)"
    using transfer.left [OF transfer.left [OF transfer.init ep_step.connect] ep_step.send, of stl_sample "[1, 2, 3]" "[]" ?a ?b]
    by (simp add: ep_new_def connect_new none)
  moreover have "ep_step stl_sample [] (set (ep_sent ?a1)) ?b (?b\<lparr>ep_conn := ?B\<lparr>cn_segments_out := [syn_ack_of ?ib ?ia ?c]\<rparr>\<rparr>)"
    by (rule ep_step.receive [of "syn_of ?ia"]) (simp_all add: ep_new_def accept_syn)
  ultimately have "?t (?a, ?b) (?a1, ?b\<lparr>ep_conn := ?B\<lparr>cn_segments_out := [syn_ack_of ?ib ?ia ?c]\<rparr>\<rparr>)"
    by (rule transfer.right)
  from transfer.right [OF this ep_step.send] have "?t (?a, ?b) (?a1, ?b1)"
    by (simp add: ep_new_def none)
  moreover have "ep_step stl_sample [1, 2, 3] (set (ep_sent ?b1)) ?a1 (?a1\<lparr>ep_conn := ?A'\<lparr>cn_segments_out := [ack_of ?ia ?ib ?c]\<rparr>\<rparr>)"
    by (rule ep_step.receive [of "syn_ack_of ?ib ?ia ?c"]) (simp_all add: ep_new_def accept_syn_ack [OF refl] del: One_nat_def)
  ultimately have "?t (?a, ?b) (?a1\<lparr>ep_conn := ?A'\<lparr>cn_segments_out := [ack_of ?ia ?ib ?c]\<rparr>\<rparr>, ?b1)"
    by (rule transfer.left)
  from transfer.left [OF this ep_step.send] have "?t (?a, ?b) (?a2, ?b1)"
    by (simp add: ep_new_def none)
  moreover have "length (ep_sent ?a2) = 2" "length (ep_sent ?b1) = 1" by simp_all
  ultimately show ?thesis by blast
qed

theorem tcp_transfer_correct_witness:
  "\<exists>a b. transfer stl_sample [1, 2, 3] [] (ep_new (WrappingInt32 5) TCPConfig_default,
      ep_new (WrappingInt32 9) TCPConfig_default) (a, b) \<and> length (ep_sent a) = 2 \<and> length (ep_sent b) = 1 \<and>
    (\<forall>seg \<in> set (ep_sent b). \<exists>cn. TCPConnection_segment_received stl_ideal (ep_conn a) seg = Inr cn) \<and>
    (\<exists>rest. [1, 2, 3] = ep_read b @ bs_buf (TCPConnection_inbound_stream (ep_conn b)) @ rest)"
proof -
  obtain a b where run: "transfer stl_sample [1, 2, 3] [] (ep_new (WrappingInt32 5) TCPConfig_default,
      ep_new (WrappingInt32 9) TCPConfig_default) (a, b)" and sent: "length (ep_sent a) = 2" "length (ep_sent b) = 1"
    using sample_transfer by blast
  have "length [1, 2, 3 :: byte] + 2 < 2 ^ 30" "length ([] :: bytes) + 2 < 2 ^ 30"
    "cfg_recv_capacity TCPConfig_default < 2 ^ 63" "cfg_send_capacity TCPConfig_default < 2 ^ 63"
    by (simp_all add: TCPConfig_default_def TCPConfig_DEFAULT_CAPACITY_def)
  then show ?thesis
    using run sent tcp_transfer_correct [OF _ _ _ _ _ _ run] by blast
qed

end
