(* ===== verification/Sponge_Socket.thy ===== *)
theory Sponge_Socket
  imports Adapters Stream_Copy TCP_Transfer
begin

unbundle bit_operations_syntax

text \<open>
  The socket in user space (\<open>tcp_helpers/tcp_sponge_socket.cc\<close>,
  \<open>tcp_helpers/tcp_sponge_socket.hh\<close>): an event loop that ties a \<open>TCPConnection\<close> to an
  adapter for its segments on one side and, by a pair of local sockets, to its owner on the other.

  \<open>TCPSpongeSocket\<close> is a template over the adapter; its operations are arguments here. The
  members the rules capture extend the world. An adapter's operations act on the kernel, the
  descriptors and the adapter only. The thread that \<open>connect\<close> and \<open>listen_and_accept\<close>
  start is a flag; what it runs is \<open>_tcp_main\<close>.
\<close>

section \<open>State\<close>

record ('k, 'a) sponge_world = "'k world" +
  sw_adapter :: 'a
  sw_tcp :: "tcp_connection option"
  sw_tcp_thread :: bool
  sw_abort :: bool
  sw_inbound_shutdown :: bool
  sw_outbound_shutdown :: bool
  sw_fully_acked :: bool

type_synonym ('k, 'a, 'r) sponge_io = "(('k, 'a) sponge_world, 'r) io"
type_synonym ('k, 'a) sponge_rule = "('k, ('a, unit) sponge_world_ext) rule"
type_synonym ('k, 'a) sponge_loop = "('k, ('a, unit) sponge_world_ext) event_loop"

record ('k, 'a) adapter_ops =
  ao_fd :: file_descriptor
  ao_read :: "('k, 'a, tcp_segment option) sponge_io"
  ao_write :: "tcp_segment \<Rightarrow> ('k, 'a, unit) sponge_io"
  ao_config :: "'a \<Rightarrow> fd_adapter_config"
  ao_set_config :: "fd_adapter_config \<Rightarrow> 'a \<Rightarrow> 'a"
  ao_set_listening :: "bool \<Rightarrow> 'a \<Rightarrow> 'a"
  ao_tick :: "size_t \<Rightarrow> ('k, 'a, unit) sponge_io"

text \<open>The adapter for UDP, with the socket it owns.\<close>

definition udp_ops :: "('k, 'z) socket_os_scheme \<Rightarrow> getnameinfo \<Rightarrow> file_descriptor \<Rightarrow> ('k, fd_adapter) adapter_ops" where
  "udp_ops sys gni h = \<lparr>ao_fd = h,
     ao_read = bindIO (UDPSocket_recv sys h 65536) (\<lambda>datagram w.
       let (seg, fa) = TCPOverUDPSocketAdapter_read (sw_adapter w) datagram
       in (Inr seg, w\<lparr>sw_adapter := fa\<rparr>)),
     ao_write = (\<lambda>seg w.
       case TCPOverUDPSocketAdapter_write gni (sw_adapter w) seg of
         Inl e \<Rightarrow> (Inl e, w)
       | Inr (_, destination, payload) \<Rightarrow> UDPSocket_sendto sys h destination (BufferViewList_new payload) w),
     ao_config = FdAdapterBase_config, ao_set_config = (\<lambda>cfg fa. FdAdapterBase_config_mut fa cfg),
     ao_set_listening = (\<lambda>l fa. FdAdapterBase_set_listening fa l),
     ao_tick = (\<lambda>ms. modifyIO (\<lambda>w. w\<lparr>sw_adapter := FdAdapterBase_tick (sw_adapter w) ms\<rparr>))\<rparr>"

text \<open>\<open>_tcp->\<close> on an empty \<open>std::optional\<close> is undefined, \<open>_tcp.value()\<close> throws.\<close>

definition with_tcp :: "cpp_error \<Rightarrow> (tcp_connection \<Rightarrow> ('k, 'a, 'r) sponge_io) \<Rightarrow> ('k, 'a, 'r) sponge_io" where
  "with_tcp e f w = (case sw_tcp w of None \<Rightarrow> (Inl e, w) | Some cn \<Rightarrow> f cn w)"

abbreviation "on_tcp \<equiv> with_tcp UndefinedBehaviour"
abbreviation "tcp_value \<equiv> with_tcp BadOptionalAccess"

definition set_tcp :: "tcp_connection \<Rightarrow> ('k, 'a, unit) sponge_io" where
  "set_tcp cn = modifyIO (\<lambda>w. w\<lparr>sw_tcp := Some cn\<rparr>)"

text \<open>Debugging output: the address printed may have no name, which throws.\<close>

definition print_destination :: "getnameinfo \<Rightarrow> ('k, 'a) adapter_ops \<Rightarrow> ('k, 'a, unit) sponge_io" where
  "print_destination gni ops w =
     (bindR (Address_to_string gni (fc_destination (ao_config ops (sw_adapter w)))) (\<lambda>_. Inr ()), w)"

section \<open>The rules\<close>

text \<open>Rule 1: read from the adapter and hand the segment to the connection.\<close>

definition report_acked :: "getnameinfo \<Rightarrow> ('k, 'a) adapter_ops \<Rightarrow> file_descriptor \<Rightarrow> ('k, 'a, unit) sponge_io" where
  "report_acked gni ops thread_data w = (
     if FileDescriptor_eof w thread_data then
       tcp_value (\<lambda>cn.
         if TCPConnection_bytes_in_flight cn = 0 \<and> \<not> sw_fully_acked w then
           bindIO (print_destination gni ops) (\<lambda>_. modifyIO (\<lambda>w. w\<lparr>sw_fully_acked := True\<rparr>))
         else returnIO ()) w
     else (Inr (), w))"

definition sponge_rule1 :: "stl_env \<Rightarrow> getnameinfo \<Rightarrow> ('k, 'a) adapter_ops \<Rightarrow> file_descriptor \<Rightarrow> ('k, 'a) sponge_rule" where
  "sponge_rule1 env gni ops thread_data = \<lparr>ru_fd = ao_fd ops, ru_direction = In,
     ru_callback =
       bindIO (ao_read ops) (\<lambda>seg.
       bindIO (case seg of
                 None \<Rightarrow> returnIO ()
               | Some seg \<Rightarrow> on_tcp (\<lambda>cn.
                   case TCPConnection_segment_received env cn seg of Inl e \<Rightarrow> throwIO e | Inr cn \<Rightarrow> set_tcp cn)) (\<lambda>_.
         report_acked gni ops thread_data)),
     ru_interest = on_tcp (\<lambda>cn. returnIO (cn_active cn)),
     ru_cancel = returnIO ()\<rparr>"

text \<open>Rule 2: read from the owner and write into the connection.\<close>

definition end_outbound :: "('k, 'a, unit) sponge_io" where
  "end_outbound =
     bindIO (on_tcp (\<lambda>cn. set_tcp (TCPConnection_end_input_stream cn))) (\<lambda>_.
       modifyIO (\<lambda>w. w\<lparr>sw_outbound_shutdown := True\<rparr>))"

definition sponge_rule2 ::
    "('k, 'z) socket_os_scheme \<Rightarrow> getnameinfo \<Rightarrow> ('k, 'a) adapter_ops \<Rightarrow> file_descriptor \<Rightarrow> ('k, 'a) sponge_rule" where
  "sponge_rule2 sys gni ops thread_data = \<lparr>ru_fd = thread_data, ru_direction = In,
     ru_callback =
       bindIO (on_tcp (\<lambda>cn. FileDescriptor_read sys thread_data (TCPConnection_remaining_outbound_capacity cn))) (\<lambda>data.
       bindIO (on_tcp (\<lambda>cn. let (cn, amount_written) = TCPConnection_write cn data
                            in bindIO (set_tcp cn) (\<lambda>_. returnIO amount_written))) (\<lambda>amount_written.
         if amount_written \<noteq> length data then throwIO RuntimeError
         else (\<lambda>w.
           if FileDescriptor_eof w thread_data then
             bindIO end_outbound (\<lambda>_. bindIO (print_destination gni ops) (\<lambda>_. tcp_value (\<lambda>_. returnIO ()))) w
           else (Inr (), w)))),
     ru_interest = on_tcp (\<lambda>cn w. (Inr (cn_active cn \<and> \<not> sw_outbound_shutdown w \<and>
       TCPConnection_remaining_outbound_capacity cn > 0), w)),
     ru_cancel = end_outbound\<rparr>"

text \<open>Rule 3: read from the connection and write to the owner.\<close>

definition TCPConnection_set_inbound :: "tcp_connection \<Rightarrow> byte_stream \<Rightarrow> tcp_connection" where
  "TCPConnection_set_inbound cn s =
     cn\<lparr>cn_receiver := (cn_receiver cn)\<lparr>rc_reassembler := (rc_reassembler (cn_receiver cn))\<lparr>sr_output := s\<rparr>\<rparr>\<rparr>"

definition inbound_finished :: "tcp_connection \<Rightarrow> bool" where
  "inbound_finished cn \<longleftrightarrow>
     ByteStream_eof (TCPConnection_inbound_stream cn) \<or> bs_error (TCPConnection_inbound_stream cn)"

definition sponge_rule3 ::
    "('k, 'z) socket_os_scheme \<Rightarrow> getnameinfo \<Rightarrow> ('k, 'a) adapter_ops \<Rightarrow> file_descriptor \<Rightarrow> ('k, 'a) sponge_rule" where
  "sponge_rule3 sys gni ops thread_data = \<lparr>ru_fd = thread_data, ru_direction = Out,
     ru_callback = on_tcp (\<lambda>cn.
       let inbound = TCPConnection_inbound_stream cn;
           amount_to_write = min 65536 (ByteStream_buffer_size inbound);
           buffer = ByteStream_peek_output inbound amount_to_write
       in bindIO (FileDescriptor_write_string sys thread_data buffer False) (\<lambda>bytes_written.
          bindIO (set_tcp (TCPConnection_set_inbound cn (ByteStream_pop_output inbound bytes_written))) (\<lambda>_.
            on_tcp (\<lambda>cn.
              if inbound_finished cn then
                bindIO (Socket_shutdown sys thread_data SHUT_WR) (\<lambda>_.
                bindIO (modifyIO (\<lambda>w. w\<lparr>sw_inbound_shutdown := True\<rparr>)) (\<lambda>_.
                bindIO (print_destination gni ops) (\<lambda>_. tcp_value (\<lambda>_. returnIO ()))))
              else returnIO ())))),
     ru_interest = on_tcp (\<lambda>cn w. (Inr (\<not> ByteStream_buffer_empty (TCPConnection_inbound_stream cn) \<or>
       inbound_finished cn \<and> \<not> sw_inbound_shutdown w), w)),
     ru_cancel = returnIO ()\<rparr>"

text \<open>Rule 4: hand the segments of the connection to the adapter, one after the other.\<close>

fun send_segments :: "('k, 'a) adapter_ops \<Rightarrow> tcp_segment list \<Rightarrow> ('k, 'a, unit) sponge_io" where
  "send_segments ops [] = returnIO ()"
| "send_segments ops (seg # segs) =
     bindIO (ao_write ops seg) (\<lambda>_.
     bindIO (on_tcp (\<lambda>cn. set_tcp (cn\<lparr>cn_segments_out := tl (cn_segments_out cn)\<rparr>))) (\<lambda>_.
       send_segments ops segs))"

definition sponge_rule4 :: "('k, 'a) adapter_ops \<Rightarrow> ('k, 'a) sponge_rule" where
  "sponge_rule4 ops = \<lparr>ru_fd = ao_fd ops, ru_direction = Out,
     ru_callback = on_tcp (\<lambda>cn. send_segments ops (cn_segments_out cn)),
     ru_interest = on_tcp (\<lambda>cn. returnIO (cn_segments_out cn \<noteq> [])),
     ru_cancel = returnIO ()\<rparr>"

definition sponge_rules ::
    "stl_env \<Rightarrow> ('k, 'z) socket_os_scheme \<Rightarrow> getnameinfo \<Rightarrow> ('k, 'a) adapter_ops \<Rightarrow> file_descriptor \<Rightarrow> ('k, 'a) sponge_rule list" where
  "sponge_rules env sys gni ops thread_data =
     [sponge_rule1 env gni ops thread_data, sponge_rule2 sys gni ops thread_data,
      sponge_rule3 sys gni ops thread_data, sponge_rule4 ops]"

section \<open>The socket\<close>

definition socket_pair_helper ::
    "('k, 'z) socket_os_scheme \<Rightarrow> int \<Rightarrow> (('k, 'x) world_scheme, file_descriptor \<times> file_descriptor) io" where
  "socket_pair_helper sys type =
     bindIO (system_call ''socketpair'' (os_socketpair sys AF_UNIX type 0)) (\<lambda>(_, fd0, fd1).
     bindIO (FileDescriptor_new fd0) (\<lambda>a. bindIO (FileDescriptor_new fd1) (\<lambda>b. returnIO (a, b))))"

text \<open>
  The handles of the socket and of \<open>_thread_data\<close>; what is constructed already when one of the
  checks throws is destroyed.
\<close>

definition TCPSpongeSocket_of_pair ::
    "('k, 'z) socket_os_scheme \<Rightarrow> file_descriptor \<times> file_descriptor \<Rightarrow>
     (('k, 'x) world_scheme, file_descriptor \<times> file_descriptor) io" where
  "TCPSpongeSocket_of_pair sys data_socket_pair w =
     (case LocalStreamSocket_of_fd sys (fst data_socket_pair) w of
        (Inl e, w) \<Rightarrow> (Inl e, FileDescriptor_destroy sys (snd data_socket_pair) w)
      | (Inr h, w) \<Rightarrow>
     (case LocalStreamSocket_of_fd sys (snd data_socket_pair) w of
        (Inl e, w) \<Rightarrow> (Inl e, FileDescriptor_destroy sys h w)
      | (Inr thread_data, w) \<Rightarrow>
     (case FileDescriptor_set_blocking sys thread_data False w of
        (Inl e, w) \<Rightarrow> (Inl e, FileDescriptor_destroy sys h (FileDescriptor_destroy sys thread_data w))
      | (Inr _, w) \<Rightarrow> (Inr (h, thread_data), w))))"

definition TCPSpongeSocket_new ::
    "('k, 'z) socket_os_scheme \<Rightarrow> (('k, 'x) world_scheme, file_descriptor \<times> file_descriptor) io" where
  "TCPSpongeSocket_new sys = bindIO (socket_pair_helper sys SOCK_STREAM) (TCPSpongeSocket_of_pair sys)"

definition TCPSpongeSocket_initialize_TCP ::
    "stl_env \<Rightarrow> ('k, 'z) socket_os_scheme \<Rightarrow> getnameinfo \<Rightarrow> ('k, 'a) adapter_ops \<Rightarrow> file_descriptor \<Rightarrow> WrappingInt32 \<Rightarrow>
     tcp_config \<Rightarrow> ('k, 'a) sponge_loop \<Rightarrow> ('k, 'a) sponge_world \<Rightarrow> ('k, 'a) sponge_loop \<times> ('k, 'a) sponge_world" where
  "TCPSpongeSocket_initialize_TCP env sys gni ops thread_data random config el w =
     fold add_rule_of (sponge_rules env sys gni ops thread_data)
       (el, w\<lparr>sw_tcp := Some (TCPConnection_new random config)\<rparr>)"

definition TCP_TICK_MS :: int where "TCP_TICK_MS = 10"

text \<open>
  The loop. The clock is a call of the kernel; the number of rounds is bounded, and \<open>None\<close> says
  that the condition still holds after them.
\<close>

fun TCPSpongeSocket_tcp_loop ::
    "('k, 'z) socket_os_scheme \<Rightarrow> ('k \<Rightarrow> size_t \<times> 'k) \<Rightarrow> ('k, 'a) adapter_ops \<Rightarrow> ('k, 'a, bool) sponge_io \<Rightarrow> nat \<Rightarrow>
     size_t \<Rightarrow> ('k, 'a) sponge_loop \<Rightarrow> ('k, 'a) sponge_world \<Rightarrow>
     unit result option \<times> ('k, 'a) sponge_loop \<times> ('k, 'a) sponge_world" where
  "TCPSpongeSocket_tcp_loop sys clock ops condition 0 base_time el w = (None, el, w)"
| "TCPSpongeSocket_tcp_loop sys clock ops condition (Suc rounds) base_time el w =
     (case condition w of
        (Inl e, w) \<Rightarrow> (Some (Inl e), el, w)
      | (Inr continue, w) \<Rightarrow>
          if \<not> continue then (Some (Inr ()), el, w)
          else case EventLoop_wait_next_event sys TCP_TICK_MS el w of
            (Inl e, el, w) \<Rightarrow> (Some (Inl e), el, w)
          | (Inr ret, el, w) \<Rightarrow>
              if ret = Exit \<or> sw_abort w then (Some (Inr ()), el, w)
              else case sw_tcp w of
                None \<Rightarrow> (Some (Inl BadOptionalAccess), el, w)
              | Some cn \<Rightarrow>
                  if cn_active cn then
                    let (next_time, k) = clock (wd_kernel w); ms = sub64 next_time base_time;
                        w = w\<lparr>wd_kernel := k, sw_tcp := Some (TCPConnection_tick cn ms)\<rparr>
                    in case ao_tick ops ms w of
                         (Inl e, w) \<Rightarrow> (Some (Inl e), el, w)
                       | (Inr _, w) \<Rightarrow> TCPSpongeSocket_tcp_loop sys clock ops condition rounds next_time el w
                  else TCPSpongeSocket_tcp_loop sys clock ops condition rounds base_time el w)"

definition TCPSpongeSocket_run_loop ::
    "('k, 'z) socket_os_scheme \<Rightarrow> ('k \<Rightarrow> size_t \<times> 'k) \<Rightarrow> ('k, 'a) adapter_ops \<Rightarrow> ('k, 'a, bool) sponge_io \<Rightarrow> nat \<Rightarrow>
     ('k, 'a) sponge_loop \<Rightarrow> ('k, 'a) sponge_world \<Rightarrow> unit result option \<times> ('k, 'a) sponge_loop \<times> ('k, 'a) sponge_world" where
  "TCPSpongeSocket_run_loop sys clock ops condition rounds el w =
     (let (base_time, k) = clock (wd_kernel w)
      in TCPSpongeSocket_tcp_loop sys clock ops condition rounds base_time el (w\<lparr>wd_kernel := k\<rparr>))"

definition in_states :: "TCPState_State list \<Rightarrow> ('k, 'a, bool) sponge_io" where
  "in_states states = on_tcp (\<lambda>cn. returnIO (\<exists>s \<in> set states. TCPState_eq (TCPConnection_state cn) (TCPState_of_State s)))"

definition TCPSpongeSocket_connect ::
    "stl_env \<Rightarrow> ('k, 'z) socket_os_scheme \<Rightarrow> getnameinfo \<Rightarrow> ('k \<Rightarrow> size_t \<times> 'k) \<Rightarrow> ('k, 'a) adapter_ops \<Rightarrow> file_descriptor \<Rightarrow>
     WrappingInt32 \<Rightarrow> nat \<Rightarrow> tcp_config \<Rightarrow> fd_adapter_config \<Rightarrow> ('k, 'a) sponge_loop \<Rightarrow> ('k, 'a) sponge_world \<Rightarrow>
     unit result option \<times> ('k, 'a) sponge_loop \<times> ('k, 'a) sponge_world" where
  "TCPSpongeSocket_connect env sys gni clock ops thread_data random rounds c_tcp c_ad el w =
     (if sw_tcp w \<noteq> None then (Some (Inl RuntimeError), el, w)
      else
        let (el, w) = TCPSpongeSocket_initialize_TCP env sys gni ops thread_data random c_tcp el w;
            w = w\<lparr>sw_adapter := ao_set_config ops c_ad (sw_adapter w)\<rparr>
        in case bindIO (\<lambda>w. (Address_to_string gni (fc_destination c_ad), w)) (\<lambda>_.
                bindIO (on_tcp (\<lambda>cn. set_tcp (TCPConnection_connect cn))) (\<lambda>_.
                on_tcp (\<lambda>cn.
                  if TCPState_ne (TCPConnection_state cn) (TCPState_of_State SYN_SENT)
                  then throwIO RuntimeError else returnIO ()))) w of
             (Inl e, w) \<Rightarrow> (Some (Inl e), el, w)
           | (Inr _, w) \<Rightarrow>
               let (res, el, w) = TCPSpongeSocket_run_loop sys clock ops (in_states [SYN_SENT]) rounds el w
               in (res, el, if res = Some (Inr ()) then w\<lparr>sw_tcp_thread := True\<rparr> else w))"

definition TCPSpongeSocket_listen_and_accept ::
    "stl_env \<Rightarrow> ('k, 'z) socket_os_scheme \<Rightarrow> getnameinfo \<Rightarrow> ('k \<Rightarrow> size_t \<times> 'k) \<Rightarrow> ('k, 'a) adapter_ops \<Rightarrow> file_descriptor \<Rightarrow>
     WrappingInt32 \<Rightarrow> nat \<Rightarrow> tcp_config \<Rightarrow> fd_adapter_config \<Rightarrow> ('k, 'a) sponge_loop \<Rightarrow> ('k, 'a) sponge_world \<Rightarrow>
     unit result option \<times> ('k, 'a) sponge_loop \<times> ('k, 'a) sponge_world" where
  "TCPSpongeSocket_listen_and_accept env sys gni clock ops thread_data random rounds c_tcp c_ad el w =
     (if sw_tcp w \<noteq> None then (Some (Inl RuntimeError), el, w)
      else
        let (el, w) = TCPSpongeSocket_initialize_TCP env sys gni ops thread_data random c_tcp el w;
            w = w\<lparr>sw_adapter := ao_set_listening ops True (ao_set_config ops c_ad (sw_adapter w))\<rparr>;
            (res, el, w) = TCPSpongeSocket_run_loop sys clock ops (in_states [LISTEN, SYN_RCVD, SYN_SENT]) rounds el w
        in if res = Some (Inr ()) then
             case print_destination gni ops w of
               (Inl e, w) \<Rightarrow> (Some (Inl e), el, w)
             | (Inr _, w) \<Rightarrow> (Some (Inr ()), el, w\<lparr>sw_tcp_thread := True\<rparr>)
           else (res, el, w))"

text \<open>The thread: the loop runs until it is left, then the owner's side is shut down.\<close>

definition TCPSpongeSocket_tcp_main ::
    "('k, 'z) socket_os_scheme \<Rightarrow> ('k \<Rightarrow> size_t \<times> 'k) \<Rightarrow> ('k, 'a) adapter_ops \<Rightarrow> file_descriptor \<Rightarrow> nat \<Rightarrow>
     ('k, 'a) sponge_loop \<Rightarrow> ('k, 'a) sponge_world \<Rightarrow> unit result option \<times> ('k, 'a) sponge_loop \<times> ('k, 'a) sponge_world" where
  "TCPSpongeSocket_tcp_main sys clock ops h rounds el w =
     (if sw_tcp w = None then (Some (Inl RuntimeError), el, w)
      else
        let (res, el, w) = TCPSpongeSocket_run_loop sys clock ops (returnIO True) rounds el w
        in if res = Some (Inr ()) then
             let (r, w) = bindIO (Socket_shutdown sys h SHUT_RDWR) (\<lambda>_.
                          bindIO (tcp_value (\<lambda>_. returnIO ())) (\<lambda>_. modifyIO (\<lambda>w. w\<lparr>sw_tcp := None\<rparr>))) w
             in (Some r, el, w)
           else (res, el, w))"

section \<open>The sockets of the course\<close>

text \<open>The configuration \<open>CS144TCPSocket::connect\<close> and \<open>FullStackSocket::connect\<close> build.\<close>

definition multiplexer_config :: "getaddrinfo \<Rightarrow> string \<Rightarrow> uint16 \<Rightarrow> address \<Rightarrow> fd_adapter_config result" where
  "multiplexer_config gai local_ip port address =
     bindR (FdAdapterConfig_new gai) (\<lambda>cfg.
     bindR (Address_of_host gai local_ip (dec (unat port))) (\<lambda>source.
       Inr (cfg\<lparr>fc_source := source, fc_destination := address\<rparr>)))"

definition CS144TCPSocket_config :: "getaddrinfo \<Rightarrow> uint16 \<Rightarrow> address \<Rightarrow> (tcp_config \<times> fd_adapter_config) result" where
  "CS144TCPSocket_config gai port address =
     bindR (multiplexer_config gai ''169.254.144.9'' port address) (\<lambda>cfg.
       Inr (TCPConfig_default\<lparr>cfg_rt_timeout := 100\<rparr>, cfg))"

definition FullStackSocket_config :: "getaddrinfo \<Rightarrow> uint16 \<Rightarrow> address \<Rightarrow> (tcp_config \<times> fd_adapter_config) result" where
  "FullStackSocket_config gai port address =
     bindR (multiplexer_config gai ''169.254.10.9'' port address) (\<lambda>cfg.
       Inr (TCPConfig_default\<lparr>cfg_rt_timeout := 100\<rparr>, cfg))"

fun random_private_ethernet_address :: "byte list \<Rightarrow> ethernet_address" where
  "random_private_ethernet_address [] = []"
| "random_private_ethernet_address (b # bs) = ((b OR 0x02) AND 0xfe) # bs"

section \<open>The callbacks as steps of an endpoint\<close>

text \<open>
  The relation between the socket and an endpoint of the transfer system: they have the same
  connection, the owner was sent what the endpoint has read, and the bytes read from the owner are
  those written into the connection, a prefix of all the bytes \<open>D\<close> the owner sends; the end was
  seen only behind the last of them.
\<close>

definition socket_endpoint ::
    "('k \<Rightarrow> int \<Rightarrow> bytes) \<Rightarrow> ('k \<Rightarrow> int \<Rightarrow> bytes) \<Rightarrow> bytes \<Rightarrow> file_descriptor \<Rightarrow> ('k, 'a) sponge_world \<Rightarrow> endpoint \<Rightarrow> bool" where
  "socket_endpoint got sent D h w ep \<longleftrightarrow>
     sw_tcp w = Some (ep_conn ep) \<and>
     sent (wd_kernel w) (fw_fd (wd_fds w h)) = ep_read ep \<and>
     prefix (got (wd_kernel w) (fw_fd (wd_fds w h))) D \<and>
     cn_written (ep_conn ep) = length (got (wd_kernel w) (fw_fd (wd_fds w h))) \<and>
     (fw_eof (wd_fds w h) \<longrightarrow> got (wd_kernel w) (fw_fd (wd_fds w h)) = D)"

text \<open>
  The other side of the local sockets delivers \<open>D\<close> and then the end. The adapter gives out
  segments of \<open>incoming\<close>, and leaves the connection and the local socket alone.
\<close>

definition owner_sends :: "('k, 'z) socket_os_scheme \<Rightarrow> ('k \<Rightarrow> int \<Rightarrow> bytes) \<Rightarrow> int \<Rightarrow> bytes \<Rightarrow> bool" where
  "owner_sends sys got fd D \<longleftrightarrow>
     (\<forall>n k ret errno data k'. os_read sys fd n k = ((ret, errno, data), k') \<longrightarrow> prefix (got k fd) D \<longrightarrow>
        prefix (got k' fd) D \<and> (ret = 0 \<and> 0 < n \<longrightarrow> got k fd = D))"

definition leaves_alone ::
    "('k \<Rightarrow> int \<Rightarrow> bytes) \<Rightarrow> ('k \<Rightarrow> int \<Rightarrow> bytes) \<Rightarrow> file_descriptor \<Rightarrow> ('k, 'a) sponge_world \<Rightarrow> ('k, 'a) sponge_world \<Rightarrow> bool" where
  "leaves_alone got sent h w w' \<longleftrightarrow>
     sw_tcp w' = sw_tcp w \<and> wd_fds w' h = wd_fds w h \<and>
     got (wd_kernel w') (fw_fd (wd_fds w h)) = got (wd_kernel w) (fw_fd (wd_fds w h)) \<and>
     sent (wd_kernel w') (fw_fd (wd_fds w h)) = sent (wd_kernel w) (fw_fd (wd_fds w h))"

definition adapter_ok ::
    "('k, 'a) adapter_ops \<Rightarrow> ('k \<Rightarrow> int \<Rightarrow> bytes) \<Rightarrow> ('k \<Rightarrow> int \<Rightarrow> bytes) \<Rightarrow> file_descriptor \<Rightarrow> tcp_segment set \<Rightarrow> bool" where
  "adapter_ok ops got sent h incoming \<longleftrightarrow>
     (\<forall>w. leaves_alone got sent h w (snd (ao_read ops w)) \<and>
        (\<forall>seg. fst (ao_read ops w) = Inr (Some seg) \<longrightarrow> seg \<in> incoming)) \<and>
     (\<forall>seg w. leaves_alone got sent h w (snd (ao_write ops seg w)))"

lemma endpoint_left_alone:
  "socket_endpoint got sent D h w ep \<Longrightarrow> leaves_alone got sent h w w' \<Longrightarrow> socket_endpoint got sent D h w' ep"
  by (auto simp: socket_endpoint_def leaves_alone_def)

lemma print_destination_same: "print_destination gni ops w = (r, w') \<Longrightarrow> w' = w"
  by (simp add: print_destination_def)

lemma bindIO_returns: "bindIO m f w = (Inr b, w') \<longleftrightarrow> (\<exists>a w1. m w = (Inr a, w1) \<and> f a w1 = (Inr b, w'))"
  by (auto simp: bindIO_def split: prod.splits sum.splits)

lemmas sponge_io = bindIO_returns with_tcp_def set_tcp_def modifyIO_def returnIO_def throwIO_def print_destination_def

lemma endpoint_flags [simp]:
  "socket_endpoint got sent D h (w\<lparr>sw_fully_acked := b\<rparr>) ep = socket_endpoint got sent D h w ep"
  "socket_endpoint got sent D h (w\<lparr>sw_outbound_shutdown := b\<rparr>) ep = socket_endpoint got sent D h w ep"
  "socket_endpoint got sent D h (w\<lparr>sw_inbound_shutdown := b\<rparr>) ep = socket_endpoint got sent D h w ep"
  by (simp_all add: socket_endpoint_def)

lemma adapter_read:
  assumes "adapter_ok ops got sent h incoming" "socket_endpoint got sent D h w ep" "ao_read ops w = (Inr s, w1)"
  shows "socket_endpoint got sent D h w1 ep" "s = Some seg \<Longrightarrow> seg \<in> incoming"
proof -
  note read = assms(1) [unfolded adapter_ok_def, THEN conjunct1, rule_format, of w, unfolded assms(3) snd_conv fst_conv]
  show "socket_endpoint got sent D h w1 ep" using assms(2) read [THEN conjunct1] by (rule endpoint_left_alone)
  show "s = Some seg \<Longrightarrow> seg \<in> incoming" using read [THEN conjunct2] by simp
qed

lemma adapter_write:
  assumes "adapter_ok ops got sent h incoming" "socket_endpoint got sent D h w ep" "ao_write ops seg w = (r, w1)"
  shows "socket_endpoint got sent D h w1 ep"
  using assms(1) [unfolded adapter_ok_def, THEN conjunct2, rule_format, of w seg, unfolded assms(3) snd_conv] assms(2)
  by (rule endpoint_left_alone [rotated])

lemma report_acked_endpoint:
  "report_acked gni ops h w = (Inr (), w') \<Longrightarrow> socket_endpoint got sent D h w' ep = socket_endpoint got sent D h w ep"
  by (cases "sw_tcp w") (auto simp: report_acked_def sponge_io bindR_eq_Inr split: if_splits)

lemma rule1_steps:
  assumes "adapter_ok ops got sent h incoming" "socket_endpoint got sent D h w ep"
    and "ru_callback (sponge_rule1 env gni ops h) w = (Inr (), w')"
  shows "\<exists>ep'. (ep_step env D incoming)\<^sup>*\<^sup>* ep ep' \<and> socket_endpoint got sent D h w' ep'"
proof -
  from assms(3) obtain s w1 u w2 where w1: "ao_read ops w = (Inr s, w1)"
    and w2: "(case s of None \<Rightarrow> returnIO () | Some seg \<Rightarrow> on_tcp (\<lambda>cn.
        case TCPConnection_segment_received env cn seg of Inl e \<Rightarrow> throwIO e | Inr cn \<Rightarrow> set_tcp cn)) w1 = (Inr u, w2)"
    and w': "report_acked gni ops h w2 = (Inr (), w')"
    by (simp only: sponge_rule1_def rule.simps bindIO_returns) blast
  note r1 = adapter_read [OF assms(1,2) w1]
  show ?thesis
  proof (cases s)
    case None
    with w2 have "w2 = w1" by (simp add: returnIO_def)
    with report_acked_endpoint [OF w'] r1(1) show ?thesis by auto
  next
    case (Some seg)
    with w2 r1(1) obtain cn where cn: "TCPConnection_segment_received env (ep_conn ep) seg = Inr cn" "w2 = w1\<lparr>sw_tcp := Some cn\<rparr>"
      by (auto simp: socket_endpoint_def sponge_io split: sum.splits)
    from r1(2) [OF Some] cn(1) have "ep_step env D incoming ep (ep\<lparr>ep_conn := cn\<rparr>)" by (rule ep_step.receive)
    moreover have "socket_endpoint got sent D h w2 (ep\<lparr>ep_conn := cn\<rparr>)"
      using r1(1) cn segment_received_written [OF cn(1)] by (simp add: socket_endpoint_def)
    ultimately show ?thesis unfolding report_acked_endpoint [OF w', symmetric] by blast
  qed
qed

lemma rule4_steps:
  assumes "adapter_ok ops got sent h incoming" "socket_endpoint got sent D h w ep"
    and "ru_callback (sponge_rule4 ops) w = (Inr (), w')"
  shows "\<exists>ep'. (ep_step env D incoming)\<^sup>*\<^sup>* ep ep' \<and> socket_endpoint got sent D h w' ep'"
proof -
  have all: "socket_endpoint got sent D h w' (ep\<lparr>ep_conn := (ep_conn ep)\<lparr>cn_segments_out := []\<rparr>\<rparr>)"
    if "send_segments ops segs w = (Inr (), w')" "socket_endpoint got sent D h w ep" "cn_segments_out (ep_conn ep) = segs"
    for segs w ep
    using that
  proof (induction segs arbitrary: w ep)
    case Nil
    then show ?case by (auto simp: returnIO_def socket_endpoint_def)
  next
    case (Cons seg segs)
    from Cons.prems(1) obtain w1 cn where w1: "ao_write ops seg w = (Inr (), w1)" "sw_tcp w1 = Some cn"
      and more: "send_segments ops segs (w1\<lparr>sw_tcp := Some (cn\<lparr>cn_segments_out := tl (cn_segments_out cn)\<rparr>)\<rparr>) = (Inr (), w')"
      by (auto simp: sponge_io split: option.splits)
    note r1 = adapter_write [OF assms(1) Cons.prems(2) w1(1)]
    with w1(2) have cn: "cn = ep_conn ep" by (simp add: socket_endpoint_def)
    let ?ep = "ep\<lparr>ep_conn := (ep_conn ep)\<lparr>cn_segments_out := segs\<rparr>\<rparr>"
    have "socket_endpoint got sent D h (w1\<lparr>sw_tcp := Some (cn\<lparr>cn_segments_out := tl (cn_segments_out cn)\<rparr>)\<rparr>) ?ep"
      using r1 cn Cons.prems(3) by (simp add: socket_endpoint_def)
    from Cons.IH [OF more this] show ?case by simp
  qed
  let ?ep = "ep\<lparr>ep_conn := (ep_conn ep)\<lparr>cn_segments_out := []\<rparr>, ep_sent := ep_sent ep @ cn_segments_out (ep_conn ep)\<rparr>"
  from assms(2,3) have "send_segments ops (cn_segments_out (ep_conn ep)) w = (Inr (), w')"
    by (simp add: sponge_rule4_def with_tcp_def socket_endpoint_def)
  from all [OF this assms(2) refl] have "socket_endpoint got sent D h w' ?ep" by (simp add: socket_endpoint_def)
  moreover have "ep_step env D incoming ep ?ep" by (rule ep_step.send)
  ultimately show ?thesis by blast
qed

lemma read_world:
  fixes w :: "('k, 'x) world_scheme"
  assumes "FileDescriptor_read sys h limit w = (Inr data, w')"
    and "os_read sys (fw_fd (wd_fds w h)) (min BUFFER_SIZE limit) (wd_kernel w) = ((ret, errno, d), k)"
  shows "wd_kernel w' = k" "fw_eof (wd_fds w' h) \<Longrightarrow> fw_eof (wd_fds w h) \<or> to_int ret = 0 \<and> 0 < limit"
  using assms
  by (auto simp: FileDescriptor_read_def FileDescriptor_read_into_def Let_def bindIO_returns system_call_def
      SystemCall_def FileDescriptor_fd_num_def modifyIO_def throwIO_def returnIO_def FileDescriptor_register_read_def
      update_fd_def split: if_splits)

lemma moved_tcp: "moved h k w w' \<Longrightarrow> sw_tcp w' = sw_tcp w" "moved h k w w' \<Longrightarrow> fw_fd (wd_fds w' h) = fw_fd (wd_fds w h)"
    "moved h k w w' \<Longrightarrow> wd_kernel w' = k"
  by (auto simp: moved_def)

lemma owner_read:
  fixes w :: "('k, 'a) sponge_world"
  assumes "kernel_ok sys got sent" "owner_sends sys got (fw_fd (wd_fds w h)) D" "socket_endpoint got sent D h w ep"
    and "FileDescriptor_read sys h limit w = (Inr data, w')"
  shows "length data \<le> limit" "sw_tcp w' = Some (ep_conn ep)" "sent (wd_kernel w') (fw_fd (wd_fds w' h)) = ep_read ep"
    "prefix (got (wd_kernel w') (fw_fd (wd_fds w' h))) D"
    "got (wd_kernel w') (fw_fd (wd_fds w' h)) = got (wd_kernel w) (fw_fd (wd_fds w h)) @ data"
    "fw_eof (wd_fds w' h) \<Longrightarrow> got (wd_kernel w') (fw_fd (wd_fds w' h)) = D"
proof -
  let ?fd = "fw_fd (wd_fds w h)"
  obtain ret errno d k where c: "os_read sys ?fd (min BUFFER_SIZE limit) (wd_kernel w) = ((ret, errno, d), k)"
    by (metis prod.exhaust)
  have p: "prefix (got (wd_kernel w) ?fd) D" using assms(3) by (simp add: socket_endpoint_def)
  note o = assms(2) [unfolded owner_sends_def, rule_format, OF c p]
  obtain k' where k': "moved h k' w w'" "length data \<le> limit" "sent k' = sent (wd_kernel w)"
    "got k' ?fd = got (wd_kernel w) ?fd @ data"
    by (cases rule: read_cases [OF assms(1), where h = h and w = w and limit = limit, case_names ok err]) (auto simp: assms(4))
  note m = moved_tcp [OF k'(1)]
  have kk: "k = k'" using read_world(1) [OF assms(4) c] m(3) by simp
  show "length data \<le> limit" by (rule k'(2))
  show "sw_tcp w' = Some (ep_conn ep)" "sent (wd_kernel w') (fw_fd (wd_fds w' h)) = ep_read ep"
    using assms(3) m k'(3) by (simp_all add: socket_endpoint_def)
  show g: "got (wd_kernel w') (fw_fd (wd_fds w' h)) = got (wd_kernel w) ?fd @ data" using m k'(4) by simp
  show pr: "prefix (got (wd_kernel w') (fw_fd (wd_fds w' h))) D" using o kk m by simp
  assume "fw_eof (wd_fds w' h)"
  moreover have "ret = 0" if "to_int ret = 0"
    using assms(1) [unfolded kernel_ok_def, THEN conjunct1, rule_format, OF c] that to_int_exact [of ret]
    by (auto simp: BUFFER_SIZE_def) (simp add: to_int_def)
  ultimately consider "fw_eof (wd_fds w h)" | "ret = 0" "0 < limit" using read_world(2) [OF assms(4) c] by blast
  then have "got (wd_kernel w) ?fd = D"
    using assms(3) o by cases (simp_all add: socket_endpoint_def BUFFER_SIZE_def)
  with g pr show "got (wd_kernel w') (fw_fd (wd_fds w' h)) = D" by (simp add: prefix_def)
qed

lemma rule2_steps:
  fixes w :: "('k, 'a) sponge_world"
  assumes "kernel_ok sys got sent" "owner_sends sys got (fw_fd (wd_fds w h)) D" "length D < 2 ^ 64"
    and "socket_endpoint got sent D h w ep" "ru_callback (sponge_rule2 sys gni ops h) w = (Inr (), w')"
  shows "\<exists>ep'. (ep_step env D incoming)\<^sup>*\<^sup>* ep ep' \<and> socket_endpoint got sent D h w' ep'"
proof -
  have tcp: "sw_tcp w = Some (ep_conn ep)" using assms(4) by (simp add: socket_endpoint_def)
  from assms(5) tcp obtain data w1 where
    rd: "FileDescriptor_read sys h (TCPConnection_remaining_outbound_capacity (ep_conn ep)) w = (Inr data, w1)"
    by (auto simp: sponge_rule2_def bindIO_returns with_tcp_def)
  let ?g = "got (wd_kernel w1) (fw_fd (wd_fds w1 h))"
  note r = owner_read [OF assms(1,2,4) rd]
  have wr: "cn_written (ep_conn ep) + length data = length ?g" using assms(4) r(5) by (simp add: socket_endpoint_def)
  then have "cn_written (ep_conn ep) + length data < 2 ^ 64" using prefix_length_le [OF r(4)] assms(3) by simp
  with r(1) obtain cn where cn: "TCPConnection_write (ep_conn ep) data = (cn, length data)"
      "cn_written cn = cn_written (ep_conn ep) + length data" by (rule write_accepted)
  let ?ep = "ep\<lparr>ep_conn := cn\<rparr>" and ?w = "w1\<lparr>sw_tcp := Some cn\<rparr>"
  have "excerpt D (cn_written (ep_conn ep)) (take (length data) data)"
    using r(4,5) assms(4) by (auto simp: excerpt_def socket_endpoint_def prefix_def)
  with cn(1) have s1: "ep_step env D incoming ep ?ep" by (rule ep_step.write_data)
  have r1: "socket_endpoint got sent D h ?w ?ep" using r(3,4,6) cn(2) wr by (simp add: socket_endpoint_def)
  show ?thesis
  proof (cases "fw_eof (wd_fds w1 h)")
    case False
    with assms(5) tcp rd r(2) cn(1) have "w' = ?w"
      by (auto simp: sponge_rule2_def sponge_io FileDescriptor_eof_def)
    with s1 r1 show ?thesis by blast
  next
    case True
    with assms(5) tcp rd r(2) cn(1)
    have w': "w' = ?w\<lparr>sw_tcp := Some (TCPConnection_end_input_stream cn), sw_outbound_shutdown := True\<rparr>"
      by (auto simp: sponge_rule2_def sponge_io FileDescriptor_eof_def end_outbound_def)
    have "cn_written cn = length D" using r(6) [OF True] cn(2) wr by simp
    then have "ep_step env D incoming ?ep (?ep\<lparr>ep_conn := TCPConnection_end_input_stream cn\<rparr>)"
      using ep_step.end_data [of ?ep D env incoming] by simp
    moreover have "socket_endpoint got sent D h w' (?ep\<lparr>ep_conn := TCPConnection_end_input_stream cn\<rparr>)"
      using r1 w' by (simp add: socket_endpoint_def)
    ultimately show ?thesis using s1 by (blast intro: converse_rtranclp_into_rtranclp)
  qed
qed

lemma write_eof:
  assumes "FileDescriptor_write_string sys h data False w = (r, w')"
  shows "fw_eof (wd_fds w' h) = fw_eof (wd_fds w h)"
proof -
  have "fw_eof (wd_fds (snd (FileDescriptor_write_once sys h b w)) h) = fw_eof (wd_fds w h)" for b
    by (auto simp: FileDescriptor_write_once_def bindIO_def system_call_def throwIO_def modifyIO_def returnIO_def
        FileDescriptor_register_write_def update_fd_def split: prod.splits sum.splits if_splits)
  note once = this [of "[data]"]
  from assms have "snd (FileDescriptor_write_once sys h [data] w) = w'"
    by (auto simp: FileDescriptor_write_string_def FileDescriptor_write_def BufferViewList_of_string_def
        FileDescriptor_write_loop.simps [of sys h False] bindIO_def returnIO_def split: prod.splits sum.splits)
  with once show ?thesis by simp
qed

lemma shutdown_endpoint:
  fixes w :: "('k, 'a) sponge_world"
  assumes "kernel_ok sys got sent" "socket_endpoint got sent D h w ep" "Socket_shutdown sys h SHUT_WR w = (r, w')"
  shows "socket_endpoint got sent D h w' ep"
proof -
  obtain k where k: "moved h k w w'" "got k = got (wd_kernel w)" "sent k = sent (wd_kernel w)"
    using shutdown_moved [OF assms(1), where h = h and w = w] assms(3) by auto
  have "fw_eof (wd_fds w' h) = fw_eof (wd_fds w h)"
    using assms(3) by (auto simp: Socket_shutdown_def bindIO_def system_call_def modifyIO_def SHUT_RD_def SHUT_WR_def
        FileDescriptor_register_write_def update_fd_def split: prod.splits sum.splits if_splits)
  with assms(2) k(2,3) moved_tcp [OF k(1)] show ?thesis by (simp add: socket_endpoint_def)
qed

lemma inbound_read:
  assumes "n \<le> length (bs_buf (TCPConnection_inbound_stream cn))"
  shows "TCPConnection_read cn n =
    (TCPConnection_set_inbound cn (ByteStream_pop_output (TCPConnection_inbound_stream cn) n),
     take n (bs_buf (TCPConnection_inbound_stream cn)))"
  using assms by (simp add: TCPConnection_read_def read_stream_out_def ByteStream_read_def Let_def ByteStream_buffer_size_def
      ByteStream_peek_output_def TCPConnection_set_inbound_def TCPConnection_inbound_stream_def
      TCPReceiver_stream_out_def StreamReassembler_stream_out_def)

lemma rule3_steps:
  fixes w :: "('k, 'a) sponge_world"
  assumes "kernel_ok sys got sent" "socket_endpoint got sent D h w ep"
    and "ru_callback (sponge_rule3 sys gni ops h) w = (Inr (), w')"
  shows "\<exists>ep'. (ep_step env D incoming)\<^sup>*\<^sup>* ep ep' \<and> socket_endpoint got sent D h w' ep'"
proof -
  let ?s = "TCPConnection_inbound_stream (ep_conn ep)"
  let ?data = "ByteStream_peek_output ?s (min 65536 (ByteStream_buffer_size ?s))"
  have tcp: "sw_tcp w = Some (ep_conn ep)" using assms(2) by (simp add: socket_endpoint_def)
  with assms(3) obtain n w1 where wr: "FileDescriptor_write_string sys h ?data False w = (Inr n, w1)"
    by (auto simp: sponge_rule3_def bindIO_returns with_tcp_def Let_def)
  have "length ?data < 2 ^ 63" by (simp add: ByteStream_peek_output_def)
  from assms(1) this obtain k where k: "moved h k w w1" "n \<le> length ?data" "got k = got (wd_kernel w)"
      "sent k = (sent (wd_kernel w))(fw_fd (wd_fds w h) := sent (wd_kernel w) (fw_fd (wd_fds w h)) @ take n ?data)"
    by (cases rule: write_cases [where h = h and w = w, case_names ok err]) (auto simp: wr)
  let ?cn = "TCPConnection_set_inbound (ep_conn ep) (ByteStream_pop_output ?s n)"
  let ?ep = "ep\<lparr>ep_conn := ?cn, ep_read := ep_read ep @ take n (bs_buf ?s)\<rparr>" and ?w = "w1\<lparr>sw_tcp := Some ?cn\<rparr>"
  note p = peeked [OF k(2)]
  have "ep_step env D incoming ep ?ep" by (rule ep_step.read [OF inbound_read [OF p [THEN conjunct2]]])
  moreover have r1: "socket_endpoint got sent D h ?w ?ep"
    using assms(2) k(3,4) p moved_tcp [OF k(1)] write_eof [OF wr]
    by (simp add: socket_endpoint_def TCPConnection_set_inbound_def)
  moreover have "socket_endpoint got sent D h w' ?ep"
  proof (cases "inbound_finished ?cn")
    case False
    with assms(3) tcp wr have "w' = ?w" by (auto simp: sponge_rule3_def sponge_io Let_def)
    with r1 show ?thesis by simp
  next
    case True
    with assms(3) tcp wr obtain w2 where
      "Socket_shutdown sys h SHUT_WR ?w = (Inr (), w2)" "w' = w2\<lparr>sw_inbound_shutdown := True\<rparr>"
      by (auto simp: sponge_rule3_def sponge_io Let_def split: option.splits)
    with shutdown_endpoint [OF assms(1) r1] show ?thesis by simp
  qed
  ultimately show ?thesis by blast
qed

text \<open>The adapter for UDP meets its contract: it works on a handle and with system calls of its own.\<close>

lemma udp_recv_alone:
  fixes w :: "('k, 'a) sponge_world"
  assumes "h' \<noteq> h" "\<And>fd n fl m. quiet got sent (os_recvfrom sys fd n fl m)"
  shows "leaves_alone got sent h w (snd (UDPSocket_recv sys h' mtu w))"
proof -
  obtain r k where k: "system_call ''recvfrom'' (os_recvfrom sys (FileDescriptor_fd_num w h') mtu MSG_TRUNC sizeof_sockaddr_storage) w
      = (r, w\<lparr>wd_kernel := k\<rparr>)" "got k = got (wd_kernel w)" "sent k = sent (wd_kernel w)"
    by (rule call_cases [OF assms(2)])
  show ?thesis
    using assms(1) k by (auto simp: UDPSocket_recv_def UDPSocket_recv_into_def Let_def bindIO_def throwIO_def returnIO_def
        modifyIO_def FileDescriptor_register_read_def update_fd_def leaves_alone_def split: sum.splits prod.splits)
qed

lemma udp_sendto_alone:
  fixes w :: "('k, 'a) sponge_world"
  assumes "h' \<noteq> h" "\<And>fd a n iov fl. quiet got sent (os_sendmsg sys fd a n iov fl)"
  shows "leaves_alone got sent h w (snd (UDPSocket_sendto sys h' destination payload w))"
proof -
  obtain r k where k: "system_call ''sendmsg'' (os_sendmsg sys (FileDescriptor_fd_num w h') (Some (ad_storage destination))
      (ad_size destination) (BufferViewList_as_iovecs payload) 0) w = (r, w\<lparr>wd_kernel := k\<rparr>)"
    "got k = got (wd_kernel w)" "sent k = sent (wd_kernel w)"
    by (rule call_cases [OF assms(2)])
  show ?thesis
    using assms(1) k by (auto simp: UDPSocket_sendto_def sendmsg_helper_def bindIO_def throwIO_def returnIO_def
        modifyIO_def FileDescriptor_register_write_def update_fd_def leaves_alone_def split: sum.splits prod.splits)
qed

lemma udp_adapter_ok:
  assumes "h' \<noteq> h" "\<And>fd n fl m. quiet got sent (os_recvfrom sys fd n fl m)"
    and "\<And>fd a n iov fl. quiet got sent (os_sendmsg sys fd a n iov fl)"
  shows "adapter_ok (udp_ops sys gni h') got sent h UNIV"
proof -
  have "leaves_alone got sent h w (snd (ao_read (udp_ops sys gni h') w))" for w
    using udp_recv_alone [OF assms(1,2), where w = w and mtu = 65536]
    by (auto simp: udp_ops_def bindIO_def leaves_alone_def Let_def split: prod.splits sum.splits)
  moreover have "leaves_alone got sent h w (snd (ao_write (udp_ops sys gni h') seg w))" for seg w
    using udp_sendto_alone [OF assms(1,3), where w = w]
    by (auto simp: udp_ops_def leaves_alone_def split: prod.splits sum.splits)
  ultimately show ?thesis by (simp add: adapter_ok_def)
qed

text \<open>
  C39: every callback of the event loop of a socket acts on its connection as steps of the transfer
  system do. A socket that corresponds to an endpoint (same connection, the owner was sent what the
  endpoint has read, what was read from the owner is what was written into the connection) still
  corresponds to one reachable from it after the callback of any of the four rules returns. The
  owner's bytes are therefore never rejected by the stream, lost or reordered, and the stream of the
  connection is ended only behind the last of them.
\<close>

theorem sponge_socket_simulates:
  fixes w :: "('k, 'a) sponge_world"
  assumes "kernel_ok sys got sent" "owner_sends sys got (fw_fd (wd_fds w thread_data)) D" "length D < 2 ^ 64"
    and "adapter_ok ops got sent thread_data incoming"
    and "socket_endpoint got sent D thread_data w ep"
    and "r \<in> set (sponge_rules env sys gni ops thread_data)" "ru_callback r w = (Inr (), w')"
  shows "\<exists>ep'. (ep_step env D incoming)\<^sup>*\<^sup>* ep ep' \<and> socket_endpoint got sent D thread_data w' ep'"
proof -
  from assms(6) consider "r = sponge_rule1 env gni ops thread_data" | "r = sponge_rule2 sys gni ops thread_data"
    | "r = sponge_rule3 sys gni ops thread_data" | "r = sponge_rule4 ops"
    by (auto simp: sponge_rules_def)
  then show ?thesis
  proof cases
    case 1
    with rule1_steps [OF assms(4,5)] assms(7) show ?thesis by blast
  next
    case 2
    with rule2_steps [OF assms(1-3,5)] assms(7) show ?thesis by blast
  next
    case 3
    with rule3_steps [OF assms(1,5)] assms(7) show ?thesis by blast
  next
    case 4
    with rule4_steps [OF assms(4,5)] assms(7) show ?thesis by blast
  qed
qed

definition sample_owner_os :: "((int \<Rightarrow> bytes) \<times> (int \<Rightarrow> bytes)) socket_os" where
  "sample_owner_os = sample_relay_os\<lparr>os_read := \<lambda>fd n (g, s).
     let d = take n (drop (length (g fd)) [7, 8]) in ((int (length d), 0, d), (g(fd := g fd @ d), s))\<rparr>"

definition sample_sponge_world :: "((int \<Rightarrow> bytes) \<times> (int \<Rightarrow> bytes), fd_adapter) sponge_world" where
  "sample_sponge_world =
     \<lparr>wd_fds = \<lambda>_. \<lparr>fw_fd = 5, fw_eof = False, fw_closed = False, fw_read_count = 0, fw_write_count = 0\<rparr>,
      wd_use_count = \<lambda>_. 1, wd_next = 2, wd_kernel = (\<lambda>_. [], \<lambda>_. []),
      sw_adapter = sample_adapter 0x0a000001 0x0a000002, sw_tcp = Some (TCPConnection_new (WrappingInt32 0) TCPConfig_default),
      sw_tcp_thread = False, sw_abort = False, sw_inbound_shutdown = False, sw_outbound_shutdown = False,
      sw_fully_acked = False\<rparr>"

abbreviation sample_sponge_rule2 :: "((int \<Rightarrow> bytes) \<times> (int \<Rightarrow> bytes), fd_adapter) sponge_rule" where
  "sample_sponge_rule2 \<equiv> sponge_rule2 sample_owner_os sample_gni (udp_ops sample_owner_os sample_gni 1) 0"

lemma sample_owner_kernel: "kernel_ok sample_owner_os fst snd"
  using sample_relay_kernel by (auto simp: kernel_ok_def sample_owner_os_def Let_def)

lemma sample_owner_sends: "owner_sends sample_owner_os fst 5 [7, 8]"
proof -
  have "prefix (p @ take n (drop (length p) D)) D" "length D \<le> length p \<Longrightarrow> p = D"
    if "prefix p D" for p D :: bytes and n
    using that by (auto simp: prefix_def) (metis append_take_drop_id)
  then show ?thesis by (auto simp: owner_sends_def sample_owner_os_def Let_def split_beta)
qed

lemma sample_owner_adapter: "adapter_ok (udp_ops sample_owner_os sample_gni 1) fst snd 0 UNIV"
  by (rule udp_adapter_ok) (simp_all add: quiet_def sample_owner_os_def sample_relay_os_def)

lemma sample_owner_endpoint: "socket_endpoint fst snd [7, 8] 0 sample_sponge_world (ep_new (WrappingInt32 0) TCPConfig_default)"
  by (simp add: socket_endpoint_def sample_sponge_world_def ep_new_def TCPConnection_new_def TCPSender_new_def ByteStream_new_def)

lemma sample_rule2_returns: "fst (ru_callback sample_sponge_rule2 sample_sponge_world) = Inr ()"
proof -
  let ?cn = "TCPConnection_new (WrappingInt32 0) TCPConfig_default" and ?w = sample_sponge_world
  have cap: "TCPConnection_remaining_outbound_capacity ?cn = 64000"
    by (simp add: TCPConnection_remaining_outbound_capacity_def TCPConnection_new_def TCPSender_new_def ByteStream_new_def
        TCPConfig_default_def TCPConfig_DEFAULT_CAPACITY_def ByteStream_remaining_capacity_def ByteStream_buffer_size_def sub64_def)
  have wr: "snd (TCPConnection_write ?cn [7, 8]) = 2"
    by (rule write_accepted [of "[7, 8]" ?cn])
      (simp_all add: cap, simp add: TCPConnection_new_def TCPSender_new_def ByteStream_new_def)
  have rd: "FileDescriptor_read sample_owner_os 0 64000 ?w = (Inr [7, 8],
    ?w\<lparr>wd_kernel := ((\<lambda>_. [])(5 := [7, 8]), \<lambda>_. []), wd_fds := (wd_fds ?w)(0 := (wd_fds ?w 0)\<lparr>fw_read_count := 1\<rparr>)\<rparr>)"
    by (subst file_descriptor_reads [where data = "[7, 8]" and errno = 0])
      (simp_all add: sample_owner_os_def sample_sponge_world_def BUFFER_SIZE_def FileDescriptor_fd_num_def Let_def)
  have tcp: "sw_tcp ?w = Some ?cn" by (simp add: sample_sponge_world_def)
  show ?thesis
    using wr by (cases "TCPConnection_write ?cn [7, 8]")
      (simp add: sponge_rule2_def bindIO_def with_tcp_def tcp cap rd set_tcp_def modifyIO_def returnIO_def
        FileDescriptor_eof_def, simp add: sample_sponge_world_def)
qed

theorem sponge_socket_simulates_witness:
  "let w' = snd (ru_callback sample_sponge_rule2 sample_sponge_world)
   in fst (ru_callback sample_sponge_rule2 sample_sponge_world) = Inr () \<and>
      (\<exists>ep'. (ep_step stl_sample [7, 8] UNIV)\<^sup>*\<^sup>* (ep_new (WrappingInt32 0) TCPConfig_default) ep' \<and>
        socket_endpoint fst snd [7, 8] 0 w' ep')"
proof -
  let ?w' = "snd (ru_callback sample_sponge_rule2 sample_sponge_world)"
  have "ru_callback sample_sponge_rule2 sample_sponge_world = (Inr (), ?w')"
    using sample_rule2_returns by (metis prod.collapse)
  moreover have "sample_sponge_rule2 \<in> set (sponge_rules stl_sample sample_owner_os sample_gni
      (udp_ops sample_owner_os sample_gni 1) 0)" by (simp add: sponge_rules_def)
  moreover have "owner_sends sample_owner_os fst (fw_fd (wd_fds sample_sponge_world 0)) [7, 8]"
    using sample_owner_sends by (simp add: sample_sponge_world_def)
  ultimately show ?thesis
    using sponge_socket_simulates [OF sample_owner_kernel _ _ sample_owner_adapter sample_owner_endpoint] sample_rule2_returns
    by (simp add: Let_def)
qed

section \<open>Connecting\<close>

lemma add_rules_tcp: "sw_tcp (snd (fold add_rule_of rules (el, w))) = sw_tcp w"
  by (induction rules arbitrary: el w)
    (simp_all add: add_rule_of_def EventLoop_add_rule_def FileDescriptor_duplicate_def Let_def split_beta)

lemma new_connection_syn_sent:
  "TCPConnection_state (TCPConnection_connect (TCPConnection_new random cfg)) = TCPState_of_State SYN_SENT"
  by (simp add: connect_new TCPConnection_state_def TCPState_new_def)
    (simp add: TCPConnection_new_def TCPState_sender_summary_def TCPState_receiver_summary_def sender_syn_sent_def
      TCPSender_new_def TCPSender_bytes_in_flight_def TCPReceiver_new_def TCPReceiver_accessors StreamReassembler_new_def
      ByteStream_new_def sub64_def TCPReceiver_ackno_def)

lemma tcp_loop_left:
  assumes "TCPSpongeSocket_tcp_loop sys clock ops condition rounds base_time el w = (Some (Inr ()), el', w')"
  shows "(\<exists>w1. condition w1 = (Inr False, w')) \<or> sw_abort w' \<or>
    (\<exists>el1 w1. EventLoop_wait_next_event sys TCP_TICK_MS el1 w1 = (Inr Exit, el', w'))"
  using assms
proof (induction rounds arbitrary: base_time el w)
  case 0
  then show ?case by simp
next
  case (Suc rounds)
  obtain c w1 where c: "condition w = (c, w1)" by fastforce
  obtain r el2 w2 where r: "EventLoop_wait_next_event sys TCP_TICK_MS el w1 = (r, el2, w2)" by (metis prod.exhaust)
  consider (finished) "c = Inr False" "w' = w1"
    | (left) ret where "c = Inr True" "r = Inr ret" "ret = Exit \<or> sw_abort w2" "el' = el2" "w' = w2"
    | (more) base_time el w where
        "TCPSpongeSocket_tcp_loop sys clock ops condition rounds base_time el w = (Some (Inr ()), el', w')"
    using Suc.prems
    by (simp add: c r Let_def split_beta split: sum.splits if_splits option.splits prod.splits)
  then show ?case
  proof cases
    case finished
    with c show ?thesis by blast
  next
    case left
    with r show ?thesis by blast
  next
    case more
    then show ?thesis by (rule Suc.IH)
  qed
qed

text \<open>
  The loop of events is left by \<open>Exit\<close> in two cases: a signal interrupts \<open>poll\<close>, or no rule
  that is left has an interest.
\<close>

definition wait_interrupted :: "('k, 'z) socket_os_scheme \<Rightarrow> ('k, 'a) sponge_loop \<Rightarrow> ('k, 'a) sponge_world \<Rightarrow> bool" where
  "wait_interrupted sys el' w' \<longleftrightarrow>
     (\<exists>rs w1 ps w2 ret revents. EventLoop_setup sys rs w1 = (Inr (ps, True), el_rules el', w2) \<and>
        os_poll sys ps TCP_TICK_MS (wd_kernel w2) = ((ret, EINTR, revents), wd_kernel w') \<and> to_int ret < 0)"

definition nothing_to_wait_for :: "('k, 'z) socket_os_scheme \<Rightarrow> ('k, 'a) sponge_loop \<Rightarrow> ('k, 'a) sponge_world \<Rightarrow> bool" where
  "nothing_to_wait_for sys el' w' \<longleftrightarrow>
     (\<exists>rs w1 ps. EventLoop_setup sys rs w1 = (Inr (ps, False), el_rules el', w'))"

lemma wait_exit:
  assumes "EventLoop_wait_next_event sys TCP_TICK_MS el w = (Inr Exit, el', w')"
  shows "wait_interrupted sys el' w' \<or> nothing_to_wait_for sys el' w'"
proof -
  obtain sr rs w1 where s: "EventLoop_setup sys (el_rules el) w = (sr, rs, w1)" by (metis prod.exhaust)
  show ?thesis
  proof (cases "\<exists>ps. sr = Inr (ps, True)")
    case True
    then obtain ps where ps: "EventLoop_setup sys (el_rules el) w = (Inr (ps, True), rs, w1)" using s by auto
    obtain ret errno revents k where p: "os_poll sys ps TCP_TICK_MS (wd_kernel w1) = ((ret, errno, revents), k)"
      by (metis prod.exhaust)
    obtain rr rs' w3 where r: "EventLoop_results sys rs (set_revents revents ps) (w1\<lparr>wd_kernel := k\<rparr>) = (rr, rs', w3)"
      by (metis prod.exhaust)
    from assms wait_polled [OF ps p r]
    have "to_int ret < 0" "errno = EINTR" "el' = el\<lparr>el_rules := rs\<rparr>" "w' = w1\<lparr>wd_kernel := k\<rparr>"
      by (auto simp: bindR_eq_Inr split: if_splits)
    with ps p have "wait_interrupted sys el' w'"
      unfolding wait_interrupted_def by (intro exI conjI) simp_all
    then show ?thesis ..
  next
    case False
    with wait_unpolled [OF s False, of TCP_TICK_MS] assms obtain ps where "sr = Inr (ps, False)" "el' = el\<lparr>el_rules := rs\<rparr>" "w' = w1"
      by (cases sr) auto
    then show ?thesis using s by (auto simp: nothing_to_wait_for_def)
  qed
qed

lemma connect_reaches_loop:
  assumes "sw_tcp w = None" "Address_to_string gni (fc_destination c_ad) = Inr name"
    and "TCPSpongeSocket_initialize_TCP env sys gni ops thread_data random c_tcp el w = (el1, w1)"
  shows "TCPSpongeSocket_connect env sys gni clock ops thread_data random rounds c_tcp c_ad el w =
    (let (res, el, w) = TCPSpongeSocket_run_loop sys clock ops (in_states [SYN_SENT]) rounds el1
           (w1\<lparr>sw_adapter := ao_set_config ops c_ad (sw_adapter w1),
               sw_tcp := Some (TCPConnection_connect (TCPConnection_new random c_tcp))\<rparr>)
     in (res, el, if res = Some (Inr ()) then w\<lparr>sw_tcp_thread := True\<rparr> else w))"
proof -
  have "sw_tcp w1 = Some (TCPConnection_new random c_tcp)"
    using assms(3) add_rules_tcp [of _ el "w\<lparr>sw_tcp := Some (TCPConnection_new random c_tcp)\<rparr>"]
    by (simp add: TCPSpongeSocket_initialize_TCP_def) (metis snd_conv sponge_world.select_convs(2) sponge_world.simps)
  then show ?thesis
    using assms by (simp add: TCPSpongeSocket_connect_def Let_def bindIO_def with_tcp_def set_tcp_def modifyIO_def
        returnIO_def new_connection_syn_sent TCPState_ne_def TCPState_eq_def)
qed


text \<open>
  A peer that takes every segment and answers with a given one, behind a kernel that reports the
  adapter as writable while there are segments to send, and as readable afterwards.
\<close>

definition peer_ops :: "tcp_segment \<Rightarrow> ((int \<Rightarrow> bytes) \<times> (int \<Rightarrow> bytes), fd_adapter) adapter_ops" where
  "peer_ops seg = (udp_ops sample_owner_os sample_gni 1)
     \<lparr>ao_read := bindIO (modifyIO (FileDescriptor_register_read 1)) (\<lambda>_. returnIO (Some seg)),
      ao_write := \<lambda>_. modifyIO (FileDescriptor_register_write 1)\<rparr>"

definition peer_os :: "((int \<Rightarrow> bytes) \<times> (int \<Rightarrow> bytes)) socket_os" where
  "peer_os = sample_owner_os\<lparr>os_poll := \<lambda>ps t k. ((1, 0, \<lambda>i.
     if pf_events (ps ! 3) \<noteq> 0 then (if i = 3 then POLLOUT else 0) else if i = 0 then POLLIN else 0), k)\<rparr>"

abbreviation "peer_rules seg \<equiv> sponge_rules stl_sample peer_os sample_gni (peer_ops seg) 0"

definition open_fds :: "('k, 'x) world_scheme \<Rightarrow> bool" where
  "open_fds w \<longleftrightarrow> (\<forall>h. \<not> fw_eof (wd_fds w h) \<and> \<not> fw_closed (wd_fds w h))"

lemma peer_setup:
  assumes "sw_tcp w = Some cn" "open_fds w" "cn_active cn"
  shows "\<exists>a b c. EventLoop_setup peer_os (peer_rules seg) w =
      (Inr ([a, b, c, pollfd_for w (sponge_rule4 (peer_ops seg)) (cn_segments_out cn \<noteq> [])], True), peer_rules seg, w) \<and>
    pf_events a = POLLIN"
  using assms
  by (simp add: sponge_rules_def sponge_rule1_def sponge_rule2_def sponge_rule3_def sponge_rule4_def with_tcp_def
      returnIO_def open_fds_def FileDescriptor_eof_def FileDescriptor_closed_def Let_def)
     (simp add: pollfd_for_def)

lemma results_idle:
  "pf_revents p = 0 \<Longrightarrow> EventLoop_results sys rs ps w = (res, rs', w') \<Longrightarrow>
    EventLoop_results sys (r # rs) (p # ps) w = (res, r # rs', w')"
  by (simp add: poll_error_def poll_hup_def poll_ready_def returnIO_def)

lemma results_served:
  assumes "pf_revents p = pf_events p" "pf_events p = Direction_value (ru_direction r)" "EventLoop_serve r w = (Inr (), w1)"
    and "EventLoop_results sys rs ps w1 = (res, rs', w')"
  shows "EventLoop_results sys (r # rs) (p # ps) w = (res, r # rs', w')"
  using assms by (cases "ru_direction r") (simp_all add: poll_error_def poll_hup_def poll_ready_def poll_bits)

lemma set_revents_4:
  "set_revents f [a, b, c, d] =
    [a\<lparr>pf_revents := f 0\<rparr>, b\<lparr>pf_revents := f 1\<rparr>, c\<lparr>pf_revents := f 2\<rparr>, d\<lparr>pf_revents := f 3\<rparr>]"
  by (simp add: set_revents_def upt_rec numeral_eq_Suc)

lemma peer_takes:
  assumes "sw_tcp w = Some cn" "open_fds w" "cn_active cn" "cn_segments_out cn = [s]"
  shows "EventLoop_wait_next_event peer_os TCP_TICK_MS \<lparr>el_rules = peer_rules seg\<rparr> w =
    (Inr Success, \<lparr>el_rules = peer_rules seg\<rparr>,
     (FileDescriptor_register_write 1 w)\<lparr>sw_tcp := Some (cn\<lparr>cn_segments_out := []\<rparr>)\<rparr>)"
proof -
  obtain a b c where s: "EventLoop_setup peer_os (el_rules \<lparr>el_rules = peer_rules seg\<rparr>) w =
      (Inr ([a, b, c, pollfd_for w (sponge_rule4 (peer_ops seg)) True], True), peer_rules seg, w)"
    using peer_setup [OF assms(1-3), of seg] assms(4) by auto
  let ?ps = "[a, b, c, pollfd_for w (sponge_rule4 (peer_ops seg)) True]"
  let ?w = "(FileDescriptor_register_write 1 w)\<lparr>sw_tcp := Some (cn\<lparr>cn_segments_out := []\<rparr>)\<rparr>"
  have p: "os_poll peer_os ?ps TCP_TICK_MS (wd_kernel w) = ((1, 0, \<lambda>i. if i = 3 then POLLOUT else 0), wd_kernel w)"
    by (simp add: peer_os_def pollfd_for_def sponge_rule4_def fun_eq_iff) (simp add: poll_bits)
  have srv: "EventLoop_serve (sponge_rule4 (peer_ops seg)) w = (Inr (), ?w)"
    using assms(1,4)
    by (simp add: EventLoop_serve_def sponge_rule4_def peer_ops_def udp_ops_def with_tcp_def set_tcp_def modifyIO_def
        returnIO_def bindIO_def Rule_service_count_def FileDescriptor_write_count_def FileDescriptor_register_write_def
        update_fd_def)
  have "EventLoop_results peer_os (peer_rules seg) (set_revents (\<lambda>i. if i = 3 then POLLOUT else 0) ?ps)
      (w\<lparr>wd_kernel := wd_kernel w\<rparr>) = (Inr (), peer_rules seg, ?w)"
    unfolding set_revents_4 sponge_rules_def
    by (rule results_idle, simp, rule results_idle, simp, rule results_idle, simp)
       (rule results_served [where ?w1.0 = ?w], simp_all add: srv pollfd_for_def, simp_all add: sponge_rule4_def)
  from wait_polled [OF s p this] show ?thesis by (simp add: to_int_def)
qed

lemma peer_answers:
  assumes "sw_tcp w = Some cn" "open_fds w" "cn_active cn" "cn_segments_out cn = []"
    and "TCPConnection_segment_received stl_sample cn seg = Inr cn'"
  shows "EventLoop_wait_next_event peer_os TCP_TICK_MS \<lparr>el_rules = peer_rules seg\<rparr> w =
    (Inr Success, \<lparr>el_rules = peer_rules seg\<rparr>, (FileDescriptor_register_read 1 w)\<lparr>sw_tcp := Some cn'\<rparr>)"
proof -
  obtain a b c where s: "EventLoop_setup peer_os (el_rules \<lparr>el_rules = peer_rules seg\<rparr>) w =
      (Inr ([a, b, c, pollfd_for w (sponge_rule4 (peer_ops seg)) False], True), peer_rules seg, w)"
    and a: "pf_events a = POLLIN"
    using peer_setup [OF assms(1-3), of seg] assms(4) by auto
  let ?ps = "[a, b, c, pollfd_for w (sponge_rule4 (peer_ops seg)) False]"
  let ?w = "(FileDescriptor_register_read 1 w)\<lparr>sw_tcp := Some cn'\<rparr>"
  have p: "os_poll peer_os ?ps TCP_TICK_MS (wd_kernel w) = ((1, 0, \<lambda>i. if i = 0 then POLLIN else 0), wd_kernel w)"
    by (simp add: peer_os_def pollfd_for_def fun_eq_iff)
  have "EventLoop_serve (sponge_rule1 stl_sample sample_gni (peer_ops seg) 0) w = (Inr (), ?w)"
    using assms(1,2,5)
    by (simp add: EventLoop_serve_def sponge_rule1_def peer_ops_def udp_ops_def with_tcp_def set_tcp_def modifyIO_def
        returnIO_def bindIO_def Rule_service_count_def FileDescriptor_read_count_def FileDescriptor_register_read_def
        update_fd_def report_acked_def FileDescriptor_eof_def open_fds_def)
  then have "EventLoop_results peer_os (peer_rules seg) (set_revents (\<lambda>i. if i = 0 then POLLIN else 0) ?ps)
      (w\<lparr>wd_kernel := wd_kernel w\<rparr>) = (Inr (), peer_rules seg, ?w)"
    unfolding set_revents_4 sponge_rules_def
    by (intro results_served [where w = "w\<lparr>wd_kernel := wd_kernel w\<rparr>" and ?w1.0 = ?w] results_idle)
       (simp_all add: pollfd_for_def a sponge_rule1_def)
  from wait_polled [OF s p this] show ?thesis by (simp add: to_int_def)
qed

abbreviation "peer_syn_sent \<equiv> (TCPConnection_new (WrappingInt32 0) TCPConfig_default)
  \<lparr>cn_sender := sender_syn_sent (cfg_isn (WrappingInt32 0) TCPConfig_default) TCPConfig_default\<rparr>"
abbreviation "peer_syn_ack \<equiv> syn_ack_of (WrappingInt32 7) (cfg_isn (WrappingInt32 0) TCPConfig_default) TCPConfig_default"
abbreviation "peer_established \<equiv> peer_syn_sent\<lparr>cn_receiver := receiver_syn_received (WrappingInt32 7) TCPConfig_default,
  cn_sender := sender_established (cfg_isn (WrappingInt32 0) TCPConfig_default) TCPConfig_default (win_of TCPConfig_default),
  cn_segments_out := [ack_of (cfg_isn (WrappingInt32 0) TCPConfig_default) (WrappingInt32 7) TCPConfig_default]\<rparr>"

lemma tick_noop:
  assumes "cn_active cn" "cn_time_since_last_segment_received cn = 0" "sn_segments_out (cn_sender cn) = []"
    and "TCPSender_tick (cn_sender cn) 0 = cn_sender cn" "sn_consecutive_retransmissions (cn_sender cn) = 0"
    and "TCPSender_fill_window (cn_sender cn) = cn_sender cn" "TCPConnection_r_state cn \<noteq> fin_recv"
  shows "TCPConnection_tick cn 0 = cn"
proof -
  have same: "cn\<lparr>cn_time_since_last_segment_received := 0\<rparr> = cn" "cn\<lparr>cn_sender := cn_sender cn\<rparr> = cn"
    "(cn_sender cn)\<lparr>sn_segments_out := []\<rparr> = cn_sender cn"
    using assms(2,3) by simp_all
  show ?thesis
    using assms by (simp add: same TCPConnection_tick_def TCPConnection_push_segment_out_def Let_def add64_def
        TCPSender_consecutive_retransmissions_def TCPConfig_MAX_RETX_ATTEMPTS_def clean_shutdown_noop)
qed

lemma peer_ticks: "TCPConnection_tick peer_syn_sent 0 = peer_syn_sent" "TCPConnection_tick peer_established 0 = peer_established"
proof -
  show "TCPConnection_tick peer_syn_sent 0 = peer_syn_sent"
    by (rule tick_noop) (simp_all add: TCPConnection_new_def r_state_values,
      simp_all add: sender_syn_sent_def TCPSender_new_def TCPSender_tick_def TCPSender_fill_window_def Timer_is_timeout_def
        Let_def add64_def ByteStream_new_def ByteStream_accessors TCPConfig_default_def TCPConfig_TIMEOUT_DFLT_def)
  show "TCPConnection_tick peer_established 0 = peer_established"
    by (rule tick_noop) (simp_all add: TCPConnection_new_def r_state_values,
      simp_all add: sender_established_def TCPSender_new_def TCPSender_tick_def TCPSender_fill_window_def Timer_is_timeout_def
        Let_def add64_def ByteStream_new_def ByteStream_accessors TCPConfig_default_def TCPConfig_TIMEOUT_DFLT_def)
qed

lemma peer_states:
  "TCPState_eq (TCPConnection_state peer_syn_sent) (TCPState_of_State SYN_SENT)"
  "TCPState_eq (TCPConnection_state (peer_syn_sent\<lparr>cn_segments_out := q\<rparr>)) (TCPState_of_State SYN_SENT)"
  "\<not> TCPState_eq (TCPConnection_state peer_established) (TCPState_of_State SYN_SENT)"
proof -
  have "TCPConnection_state (peer_syn_sent\<lparr>cn_segments_out := q\<rparr>) = TCPState_of_State SYN_SENT" for q
    using new_connection_syn_sent [of "WrappingInt32 0" TCPConfig_default]
    by (simp add: connect_new TCPConnection_state_def)
  from this [of "[]"] this show "TCPState_eq (TCPConnection_state peer_syn_sent) (TCPState_of_State SYN_SENT)"
    "TCPState_eq (TCPConnection_state (peer_syn_sent\<lparr>cn_segments_out := q\<rparr>)) (TCPState_of_State SYN_SENT)"
    by (simp_all add: TCPState_eq_def TCPConnection_new_def)
  show "\<not> TCPState_eq (TCPConnection_state peer_established) (TCPState_of_State SYN_SENT)"
    by (simp add: TCPState_eq_def TCPConnection_state_def TCPState_new_def TCPState_receiver_summary_def
        TCPReceiverStateSummary_SYN_RECV_def TCPReceiverStateSummary_LISTEN_def)
qed

lemma loop_round:
  assumes "condition w = (Inr True, w)" "EventLoop_wait_next_event sys TCP_TICK_MS el w = (Inr Success, el, w1)"
    and "\<not> sw_abort w1" "sw_tcp w1 = Some cn" "cn_active cn" "TCPConnection_tick cn 0 = cn" "ao_tick ops 0 w1 = (Inr (), w2)"
  shows "TCPSpongeSocket_tcp_loop sys (\<lambda>k. (0, k)) ops condition (Suc n) 0 el w =
    TCPSpongeSocket_tcp_loop sys (\<lambda>k. (0, k)) ops condition n 0 el w2"
proof -
  have same: "w1\<lparr>sw_tcp := Some cn\<rparr> = w1" using assms(4) by (cases w1) simp
  from assms show ?thesis by (simp add: sub64_def same)
qed

lemma peer_loop:
  assumes "open_fds w" "\<not> sw_abort w" "sw_tcp w = Some (peer_syn_sent\<lparr>cn_segments_out := [s]\<rparr>)"
  shows "\<exists>w'. TCPSpongeSocket_tcp_loop peer_os (\<lambda>k. (0, k)) (peer_ops peer_syn_ack) (in_states [SYN_SENT]) 3 0
      \<lparr>el_rules = peer_rules peer_syn_ack\<rparr> w = (Some (Inr ()), \<lparr>el_rules = peer_rules peer_syn_ack\<rparr>, w') \<and>
    sw_tcp w' = Some peer_established"
proof -
  let ?tick = "\<lambda>w. w\<lparr>sw_adapter := FdAdapterBase_tick (sw_adapter w) 0\<rparr>"
  have tick: "ao_tick (peer_ops seg) 0 w = (Inr (), ?tick w)" for seg w by (simp add: peer_ops_def udp_ops_def modifyIO_def)
  have none: "peer_syn_sent\<lparr>cn_segments_out := []\<rparr> = peer_syn_sent" by (simp add: TCPConnection_new_def)
  have act: "cn_active peer_syn_sent" "cn_segments_out peer_syn_sent = []" by (simp_all add: TCPConnection_new_def)
  define w1 where "w1 = (FileDescriptor_register_write 1 w)\<lparr>sw_tcp := Some peer_syn_sent\<rparr>"
  have w1: "EventLoop_wait_next_event peer_os TCP_TICK_MS \<lparr>el_rules = peer_rules peer_syn_ack\<rparr> w =
      (Inr Success, \<lparr>el_rules = peer_rules peer_syn_ack\<rparr>, w1)"
    using peer_takes [OF assms(3,1), of s peer_syn_ack] act by (simp add: w1_def none)
  have f1: "open_fds (?tick w1)" "\<not> sw_abort w1" "sw_tcp w1 = Some peer_syn_sent"
    using assms(1,2) by (simp_all add: w1_def open_fds_def FileDescriptor_register_write_def update_fd_def)
  define w2 where "w2 = (FileDescriptor_register_read 1 (?tick w1))\<lparr>sw_tcp := Some peer_established\<rparr>"
  have w2: "EventLoop_wait_next_event peer_os TCP_TICK_MS \<lparr>el_rules = peer_rules peer_syn_ack\<rparr> (?tick w1) =
      (Inr Success, \<lparr>el_rules = peer_rules peer_syn_ack\<rparr>, w2)"
    unfolding w2_def by (rule peer_answers [OF _ f1(1) act accept_syn_ack [OF refl]]) (simp add: f1)
  have f2: "\<not> sw_abort w2" "sw_tcp w2 = Some peer_established" "cn_active peer_established"
    using f1(2) act(1) by (simp_all add: w2_def FileDescriptor_register_read_def update_fd_def)
  have c: "in_states [SYN_SENT] w = (Inr True, w)" "in_states [SYN_SENT] (?tick w1) = (Inr True, ?tick w1)"
    "in_states [SYN_SENT] (?tick w2) = (Inr False, ?tick w2)"
    using assms(3) f1(3) f2(2) peer_states by (simp_all add: in_states_def with_tcp_def returnIO_def)
  show ?thesis
    unfolding numeral_3_eq_3
    by (subst loop_round [where condition = "in_states [SYN_SENT]", OF c(1) w1 f1(2,3) act(1) peer_ticks(1) tick [of peer_syn_ack w1]],
        subst loop_round [where condition = "in_states [SYN_SENT]", OF c(2) w2 f2 peer_ticks(2) tick [of peer_syn_ack w2]]) (simp add: c(3) f2(2))
qed


end
