(* ===== verification/Spec2Isabelle.thy ===== *)
theory Spec2Isabelle
  imports Router Text_Output Sponge_Socket
begin

text \<open>
  Sponge: a TCP/IP stack in user space, and a verification library for it.

  \<^bold>\<open>The program.\<close> A \<open>TCPConnection\<close> joins a \<open>TCPSender\<close>, which cuts an outgoing \<open>ByteStream\<close>
  into segments and retransmits them, and a \<open>TCPReceiver\<close>, which feeds what arrives through a
  \<open>StreamReassembler\<close> into an incoming \<open>ByteStream\<close>. Segments, IPv4 datagrams, Ethernet frames and ARP
  messages are read and written with \<open>NetParser\<close> and \<open>NetUnparser\<close> on shared buffers. A
  \<open>NetworkInterface\<close> sends datagrams over Ethernet and resolves addresses with ARP; a \<open>Router\<close> moves
  datagrams between interfaces. Adapters carry segments over UDP, over IPv4 in a TUN device and over
  IPv4 in Ethernet. A \<open>TCPSpongeSocket\<close> runs a connection behind a local socket: its event loop moves
  bytes between the owner and the connection, and segments between the connection and an adapter.
  \<open>bidirectional_stream_copy\<close> relays between a socket and the standard streams of a program.

  \<^bold>\<open>How code becomes definitions.\<close> A class is a record of its members; a member function is a
  function of the same name, prefixed by the class, that takes the object and returns it updated. An
  \<open>enum\<close> is a datatype. Exceptions are values: a call that may throw returns \<open>'a result\<close>, whose left
  side is a \<open>cpp_error\<close>; undefined behaviour is one of these errors. Octets, ports, addresses, header
  fields and sequence numbers are words; \<open>size_t\<close> and \<open>uint64_t\<close> are natural numbers under the
  operations \<open>add64\<close>, \<open>sub64\<close> and \<open>mul64\<close>, which wrap. Code that calls the operating system is a
  computation on a \<open>world\<close>, the table of descriptors together with the state of the kernel; system
  calls are the fields of a record \<open>os\<close> or \<open>socket_os\<close> and are parameters throughout.

  \<^bold>\<open>Theories\<close>, with the files under \<open>src/libsponge\<close> they model, and what is shown.

  \<^item> \<open>Sponge_Prelude\<close>: types, wrapping arithmetic, results, facts on lists.
  \<^item> \<open>Byte_Stream\<close> (\<open>byte_stream\<close>): the stream is a bounded queue; contract \<open>counted_stream\<close>.
  \<^item> \<open>Wrapping_Integers\<close> (\<open>wrapping_integers\<close>): \<open>unwrap\<close> returns the closest number to the
    checkpoint that wraps to its argument; contract \<open>seqno_codec\<close>.
  \<^item> \<open>Reassembler\<close>, \<open>Reassembler_Correct\<close> (\<open>stream_reassembler\<close>): the ordered set of pending
    substrings refines a set of positions within a window (contract \<open>substring_sink\<close>); delivery of
    prefixes, bounded memory, completeness in any order of arrival; when exactly an undefined operation
    is reached, and that completing a stream needs the read through \<open>end()\<close>.
  \<^item> \<open>Buffers\<close> (\<open>util/buffer\<close>): lists of buffers and of views behave as the string they hold; contract
    \<open>droppable\<close>, interpreted three times.
  \<^item> \<open>Net_Parser\<close> (\<open>util/parser\<close>), \<open>Checksum\<close> (\<open>util/util\<close>): integers in network byte order and the
    Internet checksum, whose folding loop is shown to end.
  \<^item> \<open>TCP_Segment\<close>, \<open>IPv4\<close>, \<open>Link_Layer\<close> (\<open>tcp_helpers/tcp_header\<close>, \<open>tcp_segment\<close>, \<open>ipv4_header\<close>,
    \<open>ipv4_datagram\<close>, \<open>ethernet_header\<close>, \<open>ethernet_frame\<close>, \<open>arp_message\<close>): what is serialized parses
    back, and which malformed inputs are accepted.
  \<^item> \<open>TCP_Receiver\<close> (\<open>tcp_receiver\<close>): refines the abstract reassembler through 32-bit numbers;
    acknowledgment number and window; completeness.
  \<^item> \<open>TCP_Sender\<close> (\<open>tcp_sender\<close>, \<open>tcp_helpers/tcp_config\<close>): the segments sent carry pieces of the
    stream under their numbers and tile it; window, acknowledgments, back-off.
  \<^item> \<open>TCP_State\<close>, \<open>TCP_Connection\<close> (\<open>tcp_helpers/tcp_state\<close>, \<open>tcp_connection\<close>): handshake, answers,
    resets, giving up.
  \<^item> \<open>TCP_Transfer\<close>: two connections over a network that loses, repeats, delays and reorders. The
    steps of an endpoint are the calls of its owner; every reachable state satisfies an invariant from
    which correct transfer in both directions follows.
  \<^item> \<open>Text_Format\<close>, \<open>Text_Output\<close>, \<open>Address\<close> (\<open>util/util\<close>, \<open>util/address\<close>, the printing functions of
    the headers): decimal and hexadecimal text, \<open>hexdump\<close>, socket addresses.
  \<^item> \<open>Network_Interface\<close> (\<open>network_interface\<close>): consistency under every sequence of calls and what
    makes one throw, ARP resolution, its rate limit and the life time of the cache.
  \<^item> \<open>Router\<close> (\<open>router\<close>): longest prefix match, time to live, and that \<open>route\<close> empties all queues or
    throws because of a datagram that cannot be serialized.
  \<^item> \<open>File_Descriptor\<close>, \<open>Event_Loop\<close>, \<open>Sockets\<close> (\<open>util/file_descriptor\<close>, \<open>util/eventloop\<close>,
    \<open>util/socket\<close>): reference-counted descriptors, partial writes, every outcome of polling with rules (contract
    \<open>event_loop_client\<close>, which turns what every rule keeps into what waiting keeps), datagrams.
  \<^item> \<open>Adapters\<close> (\<open>tcp_helpers/fd_adapter\<close>, \<open>tcp_over_ip\<close>, \<open>tuntap_adapter\<close>, \<open>lossy_fd_adapter\<close>):
    wrapping a segment and unwrapping it at the peer; listening; contract \<open>wrapped_adapter\<close>.
  \<^item> \<open>Stream_Copy\<close> (\<open>src/apps/bidirectional_stream_copy\<close>): no byte is lost, repeated or reordered.
  \<^item> \<open>Sponge_Socket\<close> (\<open>tcp_helpers/tcp_sponge_socket\<close>): the callbacks of the socket are steps of an
    endpoint of \<open>TCP_Transfer\<close>, and \<open>connect\<close> starts the handshake and returns when it has left
    SYN_SENT or its loop was left early.

  \<^bold>\<open>Parameters and what is assumed of them.\<close> The reassembler executes two operations that C++
  leaves undefined, a read through \<open>end()\<close> and the advance of an erased iterator; their result is
  \<open>UndefinedBehaviour\<close>, unless the platform happens to get past them, which is the parameter
  \<open>stl_env\<close>. Nothing is assumed of it: every theorem holds for all its values, and where a call may
  reach an undefined operation this is one of the outcomes stated. Next to it stands what happens where
  the operations are survived (\<open>stl_ideal\<close>), and that without the first of them no stream is ever
  completed. \<open>getaddrinfo\<close> and \<open>getnameinfo\<close> are functions. System
  calls return what their manual pages allow: \<open>kernel_ok\<close> says that \<open>read\<close> returns at most what was
  asked for and \<open>writev\<close> takes a prefix, \<open>owner_sends\<close> that a local socket delivers the bytes sent to
  it in order and then the end, \<open>adapter_ok\<close> that an adapter leaves the connection and the local
  socket alone, which is proved for the adapter over UDP. The clock and random numbers are arguments.

  \<^bold>\<open>Loops.\<close> The loops of the checksum, the reassembler, the sender, the router, \<open>write\<close> and the
  printing of numbers are recursive functions with termination proofs; their results hold for every
  input. The loops of \<open>bidirectional_stream_copy\<close> and of \<open>TCPSpongeSocket\<close> wait for events and may
  run for ever: they take a number of rounds, running out of it is a result of its own (\<open>None\<close>), and
  the theorems hold for every number of rounds, so none is chosen. Streams are assumed shorter than
  \<open>2 ^ 64\<close> where a counter would wrap; where the sequence numbers restrict more, the theorem says so.

  \<^bold>\<open>Not modelled.\<close> The thread of \<open>TCPSpongeSocket\<close> is its body \<open>_tcp_main\<close>; joining it, in the
  destructor and in \<open>wait_until_closed\<close>, and its interleaving with the owner are left out, and the
  simulation of \<open>Sponge_Socket\<close> does not cover the cancelling of a rule, which ends the outgoing stream
  where it is. Opening TUN and TAP devices (\<open>util/tun\<close>) is a sequence of \<open>ioctl\<close> calls without
  computation. The random generator and the clock (\<open>util/util\<close>) are parameters. The texts of exceptions
  and what is written to the standard error are dropped, but not the exceptions that producing it can
  throw. The main programs under \<open>src/apps\<close> other than the stream copy read the command line, open
  devices and call the library; the tests and doctests exercise it.
\<close>

end
